(* ===== verification/Prelude.thy ===== *)
theory Prelude
  imports Main "HOL-Library.Word"
begin

text \<open>
  What the components of the restorer share: bytes and C strings, the C library
  functions the sources call (\<open>strstr\<close>, \<open>atoi\<close>, \<open>sprintf "%d"\<close>), the
  \<open>std::string\<close> searches, 32-bit wrap-around, and the result type in which a
  read or write outside an object, a bad allocation or a signed overflow is a
  value (\<open>Inl\<close> of a fault) and not a behaviour that is left out.
\<close>

named_theorems cstr_simps \<open>C strings and CRLF searches\<close>
named_theorems decimal_simps \<open>decimal printing and reading\<close>
named_theorems res_simps \<open>results that may be faults\<close>

section \<open>Results\<close>

datatype fault =
    Overrun            \<comment> \<open>a read or write outside the object\<close>
  | BadAlloc           \<comment> \<open>an allocation with a negative size\<close>
  | SignedOverflow     \<comment> \<open>an \<open>int\<close> leaves its range\<close>
  | NullDeref          \<comment> \<open>a use of a null pointer\<close>
  | Dangling           \<comment> \<open>a use of a deleted object\<close>
  | CheckFailed        \<comment> \<open>a failed \<open>CHECK\<close> or \<open>assert\<close>, which aborts\<close>
  | Diverges           \<comment> \<open>a loop that never ends\<close>

type_synonym 'a res = "fault + 'a"

fun res_bind :: "'a res \<Rightarrow> ('a \<Rightarrow> 'b res) \<Rightarrow> 'b res" where
  "res_bind (Inl f) k = Inl f"
| "res_bind (Inr x) k = k x"

lemma res_bind_Inr_iff [res_simps]:
  "res_bind m k = Inr y \<longleftrightarrow> (\<exists>x. m = Inr x \<and> k x = Inr y)"
  by (cases m) auto

lemma res_bind_assoc [res_simps]:
  "res_bind (res_bind m f) g = res_bind m (\<lambda>x. res_bind (f x) g)"
  by (cases m) auto

section \<open>Bytes, C strings and searches\<close>

type_synonym bytes = string

abbreviation NUL :: char where "NUL \<equiv> CHR 0x00"
abbreviation CR :: char where "CR \<equiv> CHR 0x0D"
abbreviation LF :: char where "LF \<equiv> CHR 0x0A"

definition crlf :: string where
  "crlf = [CR, LF]"

definition cstr :: "bytes \<Rightarrow> string" where
  "cstr s = takeWhile (\<lambda>c. c \<noteq> NUL) s"

fun find_sub :: "string \<Rightarrow> string \<Rightarrow> nat option" where
  "find_sub p [] = (if p = [] then Some 0 else None)"
| "find_sub p (c # s) =
     (if take (length p) (c # s) = p then Some 0 else map_option Suc (find_sub p s))"

definition strstr_crlf :: "bytes \<Rightarrow> nat option" where
  "strstr_crlf s = find_sub crlf (cstr s)"

definition str_find :: "string \<Rightarrow> string \<Rightarrow> nat \<Rightarrow> nat option" where
  "str_find p s pos = map_option (\<lambda>i. pos + i) (find_sub p (drop pos s))"

fun rfind_char :: "char \<Rightarrow> string \<Rightarrow> nat option" where
  "rfind_char c [] = None"
| "rfind_char c (d # s) =
     (case rfind_char c s of Some i \<Rightarrow> Some (Suc i) | None \<Rightarrow> if d = c then Some 0 else None)"

definition substr :: "string \<Rightarrow> nat \<Rightarrow> nat \<Rightarrow> string" where
  "substr s pos n = take n (drop pos s)"

text \<open>A line is a byte string that can stand before a CRLF in a C string.\<close>

definition line_ok :: "string \<Rightarrow> bool" where
  "line_ok s = (CR \<notin> set s \<and> NUL \<notin> set s)"

lemma cstr_append_nul [cstr_simps]:
  "NUL \<notin> set s \<Longrightarrow> cstr (s @ NUL # t) = s"
  by (induction s) (auto simp: cstr_def)

lemma cstr_id [cstr_simps]: "NUL \<notin> set s \<Longrightarrow> cstr s = s"
  by (induction s) (auto simp: cstr_def)

lemma cstr_append [cstr_simps]:
  "NUL \<notin> set s \<Longrightarrow> cstr (s @ t) = s @ cstr t"
  by (induction s) (auto simp: cstr_def)

lemma cstr_no_nul: "NUL \<notin> set (cstr s)"
  by (auto simp: cstr_def dest: set_takeWhileD)

lemma cstr_crlf_append [cstr_simps]: "cstr (crlf @ t) = crlf @ cstr t"
  by (simp add: cstr_def crlf_def)

lemma find_sub_crlf_line [cstr_simps]:
  "CR \<notin> set l \<Longrightarrow> find_sub crlf (l @ crlf @ t) = Some (length l)"
  by (induction l) (auto simp: crlf_def)

lemma strstr_crlf_line [cstr_simps]:
  "line_ok l \<Longrightarrow> strstr_crlf (l @ crlf @ t) = Some (length l)"
  by (simp add: strstr_crlf_def line_ok_def cstr_append cstr_crlf_append find_sub_crlf_line)

lemma find_sub_crlf_none:
  "CR \<notin> set l \<Longrightarrow> find_sub crlf l = None"
  by (induction l) (auto simp: crlf_def)

lemma find_sub_crlf_cr_none:
  "CR \<notin> set l \<Longrightarrow> find_sub crlf (l @ [CR]) = None"
  by (induction l) (auto simp: crlf_def)

lemma find_sub_Some_split:
  "find_sub p s = Some n \<Longrightarrow> \<exists>t. s = take n s @ p @ t \<and> n + length p \<le> length s"
proof (induction p s arbitrary: n rule: find_sub.induct)
  case (2 p c s)
  show ?case
  proof (cases "take (length p) (c # s) = p")
    case True
    with 2(2) have n: "n = 0" by simp
    have "c # s = p @ drop (length p) (c # s)"
      using True append_take_drop_id [of "length p" "c # s"] by simp
    moreover have "length p \<le> length (c # s)"
      using True by (metis length_take min.cobounded1)
    ultimately show ?thesis using n by auto
  next
    case False
    with 2(2) obtain m where m: "find_sub p s = Some m" "n = Suc m" by auto
    with 2(1) [OF False] show ?thesis by fastforce
  qed
qed (simp split: if_splits)

lemma strstr_crlf_bound: "strstr_crlf s = Some n \<Longrightarrow> n + 2 \<le> length s"
proof -
  assume "strstr_crlf s = Some n"
  from find_sub_Some_split [OF this [unfolded strstr_crlf_def]]
  have "n + length crlf \<le> length (cstr s)" by blast
  also have "\<dots> \<le> length s" by (simp add: cstr_def length_takeWhile_le)
  finally show ?thesis by (simp add: crlf_def)
qed

lemma strstr_crlf_prefix_none:
  assumes "line_ok l" and "s @ t = l @ crlf @ u" and "length s < length l + 2"
  shows "strstr_crlf s = None"
proof -
  have s: "s = take (length s) (l @ crlf)"
    using assms(2,3) by (metis append.assoc append_eq_append_conv_if crlf_def length_append
        length_Cons list.size(3) numeral_2_eq_2 less_imp_le_nat)
  have "s = take (length s) l \<or> s = l @ [CR]"
  proof (cases "length s \<le> length l")
    case True
    then show ?thesis using s by simp
  next
    case False
    with assms(3) have "length s = Suc (length l)" by simp
    with s have "s = l @ take 1 crlf" by simp
    then show ?thesis by (simp add: crlf_def)
  qed
  then show ?thesis
  proof
    assume "s = take (length s) l"
    then have "CR \<notin> set s" "NUL \<notin> set s"
      using assms(1) by (metis in_set_takeD line_ok_def)+
    then show ?thesis by (simp add: strstr_crlf_def cstr_id find_sub_crlf_none)
  next
    assume "s = l @ [CR]"
    then show ?thesis using assms(1)
      by (simp add: strstr_crlf_def line_ok_def cstr_id find_sub_crlf_cr_none)
  qed
qed

section \<open>Decimal numbers\<close>

definition is_digit :: "char \<Rightarrow> bool" where
  "is_digit c = (48 \<le> (of_char c :: nat) \<and> (of_char c :: nat) \<le> 57)"

definition digit_char :: "nat \<Rightarrow> char" where
  "digit_char d = char_of (48 + d)"

fun show_nat :: "nat \<Rightarrow> string" where
  "show_nat n = (if n < 10 then [digit_char n] else show_nat (n div 10) @ [digit_char (n mod 10)])"

declare show_nat.simps [simp del]

definition show_int :: "int \<Rightarrow> string" where
  "show_int i = (if i < 0 then ''-'' @ show_nat (nat (- i)) else show_nat (nat i))"

fun digits_value :: "int \<Rightarrow> string \<Rightarrow> int" where
  "digits_value acc [] = acc"
| "digits_value acc (c # s) =
     (if is_digit c then digits_value (10 * acc + (of_char c - 48)) s else acc)"

definition is_space :: "char \<Rightarrow> bool" where
  "is_space c = (c = CHR '' '' \<or> (9 \<le> (of_char c :: nat) \<and> (of_char c :: nat) \<le> 13))"

fun read_signed :: "string \<Rightarrow> int" where
  "read_signed [] = 0"
| "read_signed (c # s) =
     (if c = CHR ''-'' then - digits_value 0 s
      else if c = CHR ''+'' then digits_value 0 s
      else digits_value 0 (c # s))"

definition int32_min :: int where "int32_min = - (2 ^ 31)"
definition int32_max :: int where "int32_max = 2 ^ 31 - 1"

definition in_int32 :: "int \<Rightarrow> bool" where
  "in_int32 i = (int32_min \<le> i \<and> i \<le> int32_max)"

definition wrap32 :: "int \<Rightarrow> int" where
  "wrap32 i = (i + 2 ^ 31) mod 2 ^ 32 - 2 ^ 31"

definition clamp64 :: "int \<Rightarrow> int" where
  "clamp64 i = max (- (2 ^ 63)) (min (2 ^ 63 - 1) i)"

text \<open>
  \<open>atoi\<close> of glibc is \<open>(int) strtol(s, NULL, 10)\<close>: leading white space, a sign,
  digits up to the first other character, saturation at the range of \<open>long\<close>
  and truncation to 32 bits.
\<close>

definition atoi :: "string \<Rightarrow> int" where
  "atoi s = wrap32 (clamp64 (read_signed (dropWhile is_space (cstr s))))"

lemma wrap32_range: "in_int32 (wrap32 i)"
proof -
  have "0 \<le> (i + 2 ^ 31) mod 2 ^ 32 \<and> (i + 2 ^ 31) mod 2 ^ 32 < (2 ^ 32 :: int)"
    by (intro conjI pos_mod_sign pos_mod_bound) simp_all
  then show ?thesis
    unfolding in_int32_def int32_min_def int32_max_def wrap32_def by simp
qed

lemma wrap32_id [decimal_simps]: "in_int32 i \<Longrightarrow> wrap32 i = i"
  by (simp add: in_int32_def int32_min_def int32_max_def wrap32_def)

lemma clamp64_id [decimal_simps]: "in_int32 i \<Longrightarrow> clamp64 i = i"
  by (simp add: in_int32_def int32_min_def int32_max_def clamp64_def)

lemma atoi_range: "in_int32 (atoi s)"
  by (simp add: atoi_def wrap32_range)

lemma of_char_digit_char [decimal_simps]:
  "d < 10 \<Longrightarrow> (of_char (digit_char d) :: nat) = 48 + d"
  by (simp add: digit_char_def)

lemma of_char_digit_char_int [decimal_simps]:
  "d < 10 \<Longrightarrow> (of_char (digit_char d) :: int) = 48 + int d"
proof -
  assume "d < 10"
  then have "(of_nat (of_char (digit_char d)) :: int) = of_nat (48 + d)"
    by (simp only: of_char_digit_char)
  then show ?thesis by (simp add: of_nat_of_char)
qed

lemma is_digit_digit_char [decimal_simps]: "d < 10 \<Longrightarrow> is_digit (digit_char d)"
  by (simp add: is_digit_def of_char_digit_char)

lemma show_nat_digits: "c \<in> set (show_nat n) \<Longrightarrow> is_digit c"
proof (induction n rule: show_nat.induct)
  case (1 n)
  then show ?case
    by (subst (asm) (2) show_nat.simps) (auto split: if_splits simp: is_digit_digit_char)
qed

lemma show_nat_not_Nil [simp]: "show_nat n \<noteq> []"
  by (subst show_nat.simps) simp

lemma not_digit_specials [simp]:
  "\<not> is_digit CR" "\<not> is_digit LF" "\<not> is_digit NUL" "\<not> is_digit (CHR ''-'')"
  "\<not> is_digit (CHR ''+'')" "\<not> is_digit (CHR '':'')" "\<not> is_digit (CHR ''$'')"
  "\<not> is_digit (CHR ''*'')" "\<not> is_digit (CHR '' '')"
  by (simp_all add: is_digit_def)

lemma digits_value_append:
  assumes "\<forall>c \<in> set s. is_digit c"
  shows "digits_value acc (s @ t) = digits_value (digits_value acc s) t"
  using assms by (induction s arbitrary: acc) auto

lemma digits_value_show_nat [decimal_simps]:
  "digits_value 0 (show_nat n) = int n"
proof (induction n rule: show_nat.induct)
  case (1 n)
  show ?case
  proof (cases "n < 10")
    case True
    then show ?thesis by (simp add: show_nat.simps decimal_simps)
  next
    case False
    have "digits_value 0 (show_nat n)
        = digits_value (digits_value 0 (show_nat (n div 10))) [digit_char (n mod 10)]"
      using False by (subst show_nat.simps)
        (simp add: digits_value_append show_nat_digits del: digits_value.simps)
    also have "\<dots> = int n"
      using 1 False by (simp add: decimal_simps zdiv_int zmod_int)
    finally show ?thesis .
  qed
qed

lemma show_nat_Cons: obtains c s where "show_nat n = c # s" "is_digit c"
  by (metis list.exhaust list.set_intros(1) show_nat_digits show_nat_not_Nil)

lemma digit_not_space: "is_digit c \<Longrightarrow> \<not> is_space c"
  by (auto simp: is_digit_def is_space_def)

lemma read_signed_show_nat [decimal_simps]: "read_signed (show_nat n) = int n"
proof -
  obtain c s where cs: "show_nat n = c # s" "is_digit c" by (rule show_nat_Cons)
  then have "c \<noteq> CHR ''-''" "c \<noteq> CHR ''+''" by auto
  then have "read_signed (show_nat n) = digits_value 0 (show_nat n)"
    using cs(1) by simp
  then show ?thesis by (simp add: decimal_simps)
qed

lemma show_int_chars:
  "c \<in> set (show_int i) \<Longrightarrow> is_digit c \<or> c = CHR ''-''"
  by (auto simp: show_int_def dest: show_nat_digits split: if_splits)

lemma show_int_line_ok [simp]: "line_ok (show_int i)"
  using show_int_chars by (fastforce simp: line_ok_def)

lemma show_nat_line_ok [simp]: "line_ok (show_nat n)"
  using show_nat_digits by (fastforce simp: line_ok_def)

lemma show_int_not_Nil [simp]: "show_int i \<noteq> []"
  by (simp add: show_int_def)

lemma dropWhile_space_show_int:
  "dropWhile is_space (show_int i) = show_int i"
proof -
  obtain c s where "show_int i = c # s" by (cases "show_int i") auto
  moreover from this have "is_digit c \<or> c = CHR ''-''"
    using show_int_chars [of c i] by simp
  moreover have "\<not> is_space (CHR ''-'')" by (simp add: is_space_def)
  ultimately show ?thesis using digit_not_space by auto
qed

lemma read_signed_show_int [decimal_simps]: "read_signed (show_int i) = i"
  by (simp add: show_int_def decimal_simps)

lemma atoi_show_int [decimal_simps]: "in_int32 i \<Longrightarrow> atoi (show_int i) = i"
  using show_int_line_ok [of i]
  by (simp add: atoi_def line_ok_def cstr_id dropWhile_space_show_int decimal_simps)

lemma show_int_of_nat: "show_int (int n) = show_nat n"
  by (simp add: show_int_def)

lemma atoi_show_nat [decimal_simps]: "int n \<le> int32_max \<Longrightarrow> atoi (show_nat n) = int n"
  using atoi_show_int [of "int n"]
  by (simp add: show_int_of_nat in_int32_def int32_min_def)

lemma show_int_inj: "show_int i = show_int j \<longleftrightarrow> i = j"
  by (metis read_signed_show_int)

lemma show_nat_inj: "show_nat i = show_nat j \<longleftrightarrow> i = j"
  by (metis read_signed_show_nat of_nat_eq_iff)

lemma show_nat_length_mono: "length (show_nat n) \<le> Suc n"
proof (induction n rule: show_nat.induct)
  case (1 n)
  then show ?case
    by (subst show_nat.simps) (auto simp: less_Suc_eq_le)
qed

section \<open>Words as naturals\<close>

lemma unat_64 [simp]: "unat (v :: 64 word) < 2 ^ 64" and unat_32 [simp]: "unat (u :: 32 word) < 2 ^ 32"
  using unsigned_less [where 'a = nat, of v] unsigned_less [where 'a = nat, of u] by simp_all

lemma unat_ucast_64 [simp]: "unat (ucast (v :: 32 word) :: 64 word) = unat v"
  using unat_32 [of v] by (simp add: unsigned_ucast_eq take_bit_nat_eq_self_iff)

end
