(* ===== verification/Crc16.thy ===== *)
theory Crc16
  imports Prelude
begin

text \<open>
  The key hash of the cluster client (\<open>redis_client_util.cpp\<close>): the 256-entry
  table and \<open>crc16\<close>, with the integer promotions of C written out, and the
  bit-serial CRC-16/XMODEM (polynomial 0x1021, initial value 0) which Redis
  Cluster prescribes, to which the table-driven routine is equivalent.
\<close>

unbundle bit_operations_syntax

section \<open>The code\<close>

definition crc16tab :: "16 word list" where
  "crc16tab = [
    0x0000, 0x1021, 0x2042, 0x3063, 0x4084, 0x50a5, 0x60c6, 0x70e7,
    0x8108, 0x9129, 0xa14a, 0xb16b, 0xc18c, 0xd1ad, 0xe1ce, 0xf1ef,
    0x1231, 0x0210, 0x3273, 0x2252, 0x52b5, 0x4294, 0x72f7, 0x62d6,
    0x9339, 0x8318, 0xb37b, 0xa35a, 0xd3bd, 0xc39c, 0xf3ff, 0xe3de,
    0x2462, 0x3443, 0x0420, 0x1401, 0x64e6, 0x74c7, 0x44a4, 0x5485,
    0xa56a, 0xb54b, 0x8528, 0x9509, 0xe5ee, 0xf5cf, 0xc5ac, 0xd58d,
    0x3653, 0x2672, 0x1611, 0x0630, 0x76d7, 0x66f6, 0x5695, 0x46b4,
    0xb75b, 0xa77a, 0x9719, 0x8738, 0xf7df, 0xe7fe, 0xd79d, 0xc7bc,
    0x48c4, 0x58e5, 0x6886, 0x78a7, 0x0840, 0x1861, 0x2802, 0x3823,
    0xc9cc, 0xd9ed, 0xe98e, 0xf9af, 0x8948, 0x9969, 0xa90a, 0xb92b,
    0x5af5, 0x4ad4, 0x7ab7, 0x6a96, 0x1a71, 0x0a50, 0x3a33, 0x2a12,
    0xdbfd, 0xcbdc, 0xfbbf, 0xeb9e, 0x9b79, 0x8b58, 0xbb3b, 0xab1a,
    0x6ca6, 0x7c87, 0x4ce4, 0x5cc5, 0x2c22, 0x3c03, 0x0c60, 0x1c41,
    0xedae, 0xfd8f, 0xcdec, 0xddcd, 0xad2a, 0xbd0b, 0x8d68, 0x9d49,
    0x7e97, 0x6eb6, 0x5ed5, 0x4ef4, 0x3e13, 0x2e32, 0x1e51, 0x0e70,
    0xff9f, 0xefbe, 0xdfdd, 0xcffc, 0xbf1b, 0xaf3a, 0x9f59, 0x8f78,
    0x9188, 0x81a9, 0xb1ca, 0xa1eb, 0xd10c, 0xc12d, 0xf14e, 0xe16f,
    0x1080, 0x00a1, 0x30c2, 0x20e3, 0x5004, 0x4025, 0x7046, 0x6067,
    0x83b9, 0x9398, 0xa3fb, 0xb3da, 0xc33d, 0xd31c, 0xe37f, 0xf35e,
    0x02b1, 0x1290, 0x22f3, 0x32d2, 0x4235, 0x5214, 0x6277, 0x7256,
    0xb5ea, 0xa5cb, 0x95a8, 0x8589, 0xf56e, 0xe54f, 0xd52c, 0xc50d,
    0x34e2, 0x24c3, 0x14a0, 0x0481, 0x7466, 0x6447, 0x5424, 0x4405,
    0xa7db, 0xb7fa, 0x8799, 0x97b8, 0xe75f, 0xf77e, 0xc71d, 0xd73c,
    0x26d3, 0x36f2, 0x0691, 0x16b0, 0x6657, 0x7676, 0x4615, 0x5634,
    0xd94c, 0xc96d, 0xf90e, 0xe92f, 0x99c8, 0x89e9, 0xb98a, 0xa9ab,
    0x5844, 0x4865, 0x7806, 0x6827, 0x18c0, 0x08e1, 0x3882, 0x28a3,
    0xcb7d, 0xdb5c, 0xeb3f, 0xfb1e, 0x8bf9, 0x9bd8, 0xabbb, 0xbb9a,
    0x4a75, 0x5a54, 0x6a37, 0x7a16, 0x0af1, 0x1ad0, 0x2ab3, 0x3a92,
    0xfd2e, 0xed0f, 0xdd6c, 0xcd4d, 0xbdaa, 0xad8b, 0x9de8, 0x8dc9,
    0x7c26, 0x6c07, 0x5c64, 0x4c45, 0x3ca2, 0x2c83, 0x1ce0, 0x0cc1,
    0xef1f, 0xff3e, 0xcf5d, 0xdf7c, 0xaf9b, 0xbfba, 0x8fd9, 0x9ff8,
    0x6e17, 0x7e36, 0x4e55, 0x5e74, 0x2e93, 0x3eb2, 0x0ed1, 0x1ef0]"

text \<open>Plain \<open>char\<close> is signed and is promoted to a 32-bit \<open>int\<close>; \<open>crc\<close> is
  promoted from \<open>uint16_t\<close>, and the assignment truncates to 16 bits.\<close>

definition char_int :: "char \<Rightarrow> 32 word" where
  "char_int c = scast (of_char c :: 8 word)"

definition crc16_step :: "16 word \<Rightarrow> char \<Rightarrow> 16 word" where
  "crc16_step crc c =
     ucast (push_bit 8 (ucast crc :: 32 word) XOR
       ucast (crc16tab ! unat ((drop_bit 8 (ucast crc :: 32 word) XOR char_int c) AND 0x00FF)))"

definition crc16 :: "string \<Rightarrow> 16 word" where
  "crc16 buf = foldl crc16_step 0 buf"

section \<open>The bit-serial reference\<close>

definition crc_bit :: "16 word \<Rightarrow> 16 word" where
  "crc_bit x = (if bit x 15 then push_bit 1 x XOR 0x1021 else push_bit 1 x)"

definition crc_byte :: "16 word \<Rightarrow> char \<Rightarrow> 16 word" where
  "crc_byte crc c = (crc_bit ^^ 8) (crc XOR push_bit 8 (of_char c))"

definition crc16_xmodem :: "string \<Rightarrow> 16 word" where
  "crc16_xmodem buf = foldl crc_byte 0 buf"

section \<open>Lemmas\<close>

lemma length_crc16tab [simp]: "length crc16tab = 256"
  by (simp add: crc16tab_def)

lemma crc_bit_xor: "crc_bit (x XOR y) = crc_bit x XOR crc_bit y"
proof -
  define P :: "16 word" where "P = 0x1021"
  have "P XOR (P XOR z) = z" for z
    by (simp add: xor.assoc [symmetric])
  then show ?thesis
    unfolding crc_bit_def P_def [symmetric]
    by (simp add: bit_xor_iff push_bit_xor ac_simps)
qed

lemma crc_bits_xor: "(crc_bit ^^ n) (x XOR y) = (crc_bit ^^ n) x XOR (crc_bit ^^ n) y"
  by (induction n) (simp_all add: crc_bit_xor)

lemma crc_bits_low:
  assumes "\<And>i. 8 \<le> i \<Longrightarrow> \<not> bit x i" and "n \<le> 8"
  shows "(crc_bit ^^ n) x = push_bit n x"
  using assms(2)
proof (induction n)
  case (Suc n)
  have "\<not> bit (push_bit n x) 15"
    using assms(1) [of "15 - n"] Suc.prems by (simp add: bit_simps)
  with Suc show ?case by (simp add: crc_bit_def)
qed simp

text \<open>
  The table is built by doubling: entry \<open>2i\<close> is one CRC step from entry \<open>i\<close> and
  entry \<open>2i+1\<close> differs from it by the polynomial.
\<close>

fun doubling :: "16 word list \<Rightarrow> 16 word list \<Rightarrow> bool" where
  "doubling (x # xs) (a # b # ys) =
     (a = crc_bit x \<and> b = crc_bit x XOR 0x1021 \<and> doubling xs ys)"
| "doubling xs [] = True"
| "doubling _ _ = False"

lemma doubling_nth:
  "doubling xs ys \<Longrightarrow> 2 * i < length ys \<Longrightarrow>
     ys ! (2 * i) = crc_bit (xs ! i) \<and> ys ! (2 * i + 1) = crc_bit (xs ! i) XOR 0x1021"
proof (induction xs ys arbitrary: i rule: doubling.induct)
  case (1 x xs a b ys)
  then show ?case by (cases i) auto
qed simp_all

lemma crc16tab_doubling: "doubling crc16tab crc16tab"
  by (simp add: crc16tab_def crc_bit_def)

lemma push_bit_8_double:
  assumes "i < 128"
  shows "push_bit 8 (of_nat (2 * i)) = crc_bit (push_bit 8 (of_nat i))"
proof -
  have "\<not> bit i 7" using assms by (simp add: bit_iff_odd)
  then have "\<not> bit (of_nat i :: 16 word) 7" by (simp add: bit_of_nat_iff)
  then have "\<not> bit (push_bit 8 (of_nat i :: 16 word)) 15"
    by (simp add: bit_simps)
  then show ?thesis
    by (simp add: crc_bit_def push_bit_eq_mult)
qed

lemma crc_bit_0 [simp]: "crc_bit 0 = 0"
  by (simp add: crc_bit_def)

lemma crc_bits_0 [simp]: "(crc_bit ^^ n) 0 = 0"
  by (induction n) simp_all

lemma crc_bits_one: "(crc_bit ^^ 8) (push_bit 8 1) = 0x1021"
proof -
  have "crc_bit 0x100 = 0x200" "crc_bit 0x200 = 0x400" "crc_bit 0x400 = 0x800"
    "crc_bit 0x800 = 0x1000" "crc_bit 0x1000 = 0x2000" "crc_bit 0x2000 = 0x4000"
    "crc_bit 0x4000 = 0x8000" "crc_bit 0x8000 = 0x1021"
    by (simp_all add: crc_bit_def)
  then show ?thesis by (simp add: eval_nat_numeral)
qed

lemma crc16tab_nth: "i < 256 \<Longrightarrow> crc16tab ! i = (crc_bit ^^ 8) (push_bit 8 (of_nat i))"
proof (induction i rule: less_induct)
  case (less i)
  show ?case
  proof (cases "i = 0")
    case True
    then show ?thesis by (simp add: crc16tab_def)
  next
    case False
    define j where "j = i div 2"
    have j: "j < 128" "j < i" using less.prems False by (simp_all add: j_def)
    from less.IH [OF j(2)] j(1)
    have IH: "crc16tab ! j = (crc_bit ^^ 8) (push_bit 8 (of_nat j))" by simp
    have ev: "(crc_bit ^^ 8) (push_bit 8 (of_nat (2 * j))) = crc_bit (crc16tab ! j)"
      using j(1) by (simp only: push_bit_8_double IH funpow_swap1)
    have dbl: "crc16tab ! (2 * j) = crc_bit (crc16tab ! j)"
      "crc16tab ! (2 * j + 1) = crc_bit (crc16tab ! j) XOR 0x1021"
      using doubling_nth [OF crc16tab_doubling, of j] j(1) by simp_all
    show ?thesis
    proof (cases "even i")
      case True
      then have "i = 2 * j" by (simp add: j_def)
      then show ?thesis using dbl(1) ev by simp
    next
      case False
      then have i: "i = 2 * j + 1" by (simp add: j_def)
      have "push_bit 8 (of_nat i :: 16 word) = push_bit 8 (of_nat (2 * j)) XOR push_bit 8 1"
        unfolding i push_bit_xor [symmetric]
        by (rule arg_cong [of _ _ "push_bit 8"]) (simp add: xor_one_eq)
      then show ?thesis
        using dbl(2) ev i by (simp only: crc_bits_xor crc_bits_one)
    qed
  qed
qed

lemma bit_of_char_nat: "bit (of_char c :: nat) i \<Longrightarrow> i < 8"
proof (rule ccontr)
  assume b: "bit (of_char c :: nat) i" and "\<not> i < 8"
  then have "(2 ^ 8 :: nat) \<le> 2 ^ i" by (intro power_increasing) simp_all
  then have "(of_char c :: nat) < 2 ^ i" by (rule less_le_trans [rotated]) simp
  with b show False by (simp add: bit_iff_odd)
qed

lemma bit_of_char_min: "bit (of_char c :: nat) n \<Longrightarrow> bit (of_char c :: nat) (min 7 n)"
proof -
  assume b: "bit (of_char c :: nat) n"
  then have "n < 8" by (rule bit_of_char_nat)
  then have "min 7 n = n" by simp
  with b show ?thesis by simp
qed

lemma bit_of_char_word:
  "bit (of_char c :: 'a::len word) i \<longleftrightarrow> i < LENGTH('a) \<and> bit (of_char c :: nat) i"
  by (simp add: of_nat_of_char [symmetric, where ?'a = "'a word"] bit_of_nat_iff del: of_nat_of_char)

lemma crc_byte_table:
  "crc_byte crc c = push_bit 8 crc XOR
     crc16tab ! unat (drop_bit 8 crc XOR of_char c)"
proof -
  define h :: "16 word" where "h = drop_bit 8 crc XOR of_char c"
  have bits: "crc XOR push_bit 8 (of_char c) = push_bit 8 h XOR take_bit 8 crc"
    unfolding h_def by (rule bit_word_eqI) (auto simp: bit_simps)
  have "h = take_bit 8 h"
    unfolding h_def
    by (rule bit_word_eqI) (auto simp: bit_simps bit_of_char_word dest: bit_of_char_nat bit_imp_le_length)
  then have "unat h = take_bit 8 (unat h)"
    by (metis unsigned_take_bit_eq)
  then have "unat h < 256"
    using take_bit_nat_less_exp [of 8 "unat h"] by simp
  then have "(crc_bit ^^ 8) (push_bit 8 h) = crc16tab ! unat h"
    by (simp add: crc16tab_nth)
  moreover have "(crc_bit ^^ 8) (take_bit 8 crc) = push_bit 8 crc"
  proof -
    have "(crc_bit ^^ 8) (take_bit 8 crc) = push_bit 8 (take_bit 8 crc)"
      by (rule crc_bits_low) (simp_all add: bit_simps)
    also have "\<dots> = push_bit 8 crc"
      by (rule bit_word_eqI) (auto simp: bit_simps)
    finally show ?thesis .
  qed
  ultimately show ?thesis
    unfolding crc_byte_def bits crc_bits_xor h_def by (simp add: xor.commute)
qed

lemma crc16_step_eq_crc_byte: "crc16_step crc c = crc_byte crc c"
proof -
  have "unat ((drop_bit 8 (ucast crc :: 32 word) XOR char_int c) AND 0x00FF)
      = unat (drop_bit 8 crc XOR of_char c)"
  proof -
    have "(drop_bit 8 (ucast crc :: 32 word) XOR char_int c) AND mask 8
        = ucast (drop_bit 8 crc XOR of_char c)"
      by (rule bit_word_eqI)
        (auto simp: bit_simps char_int_def bit_of_char_word
          dest: bit_of_char_nat bit_of_char_min bit_imp_le_length)
    moreover have "(0x00FF :: 32 word) = mask 8" by (simp add: mask_eq_exp_minus_1)
    moreover have "unat (drop_bit 8 crc XOR of_char c) < 2 ^ 32"
      using unsigned_less [where ?'a = nat, of "drop_bit 8 crc XOR of_char c"] by simp
    ultimately show ?thesis
      by (simp only: unsigned_ucast_eq) (simp add: take_bit_nat_eq_self)
  qed
  then show ?thesis
    unfolding crc16_step_def crc_byte_table
    by (intro bit_word_eqI) (auto simp: bit_simps)
qed

text \<open>
  C7. The table-driven \<open>crc16\<close> that picks a key's cluster slot computes, on every
  byte string, the CRC-16/XMODEM that Redis Cluster prescribes: the table holds
  the right 256 entries, and the sign extension of \<open>char\<close> does no harm.
\<close>

theorem crc16_is_xmodem: "crc16 buf = crc16_xmodem buf"
proof -
  have "crc16_step = crc_byte"
    by (intro ext) (rule crc16_step_eq_crc_byte)
  then show ?thesis by (simp only: crc16_def crc16_xmodem_def)
qed

end
