(* ===== verification/Redis_Base.thy ===== *)
theory Redis_Base
  imports Prelude
begin

text \<open>
  The protocol types of \<open>redisbase.h\<close>, the request encoder \<open>createRedisCommand\<close>
  with the buffer it writes to, and the one-shot reply parser of
  \<open>redisbase.cpp\<close>.  A reference decoder of requests states what a server reads.
\<close>

section \<open>Types\<close>

datatype reply_type =
    REDIS_REPLY_UNKNOWN | REDIS_REPLY_NIL | REDIS_REPLY_ERROR | REDIS_REPLY_STATUS
  | REDIS_REPLY_INTEGER | REDIS_REPLY_STRING | REDIS_REPLY_ARRAY | REDIS_REPLY_MULTI_ARRRY

record RedisCmdParaInfo =
  paraValue :: "bytes option"
  paraLen :: int

record ReplyArrayInfo =
  elemType :: reply_type
  arrayValue :: "bytes option"
  arrayLen :: int

definition empty_elem :: ReplyArrayInfo where
  "empty_elem = \<lparr> elemType = REDIS_REPLY_UNKNOWN, arrayValue = None, arrayLen = 0 \<rparr>"

record RedisReplyInfo =
  replyType :: reply_type
  resultString :: string
  intValue :: int
  arrayList :: "ReplyArrayInfo list"

definition empty_reply :: RedisReplyInfo where
  "empty_reply = \<lparr> replyType = REDIS_REPLY_UNKNOWN, resultString = [], intValue = 0,
                   arrayList = [] \<rparr>"

datatype RedisMode = STAND_ALONE_OR_PROXY_MODE | CLUSTER_MODE | SENTINEL_MODE

section \<open>Requests\<close>

text \<open>\<open>memcpy(*cmdString+cmdLen, b, ...)\<close> into a buffer of \<open>cap\<close> bytes.\<close>

definition put :: "nat \<Rightarrow> bytes \<Rightarrow> bytes \<Rightarrow> bytes res" where
  "put cap b buf = (if length buf + length b \<le> cap then Inr (buf @ b) else Inl Overrun)"

text \<open>\<open>memcpy\<close> out of a parameter: \<open>paraLen\<close> bytes of what \<open>paraValue\<close> points to.\<close>

definition para_bytes :: "RedisCmdParaInfo \<Rightarrow> bytes res" where
  "para_bytes p =
     (case paraValue p of
        None \<Rightarrow> if paraLen p = 0 then Inr [] else Inl NullDeref
      | Some v \<Rightarrow> if paraLen p < 0 \<or> nat (paraLen p) > length v then Inl Overrun
                 else Inr (take (nat (paraLen p)) v))"

definition create_para :: "nat \<Rightarrow> RedisCmdParaInfo \<Rightarrow> bytes \<Rightarrow> bytes res" where
  "create_para cap paraInfo buf =
     res_bind (put cap (''$'' @ show_int (paraLen paraInfo) @ crlf) buf) (\<lambda>buf.
     res_bind (para_bytes paraInfo) (\<lambda>v.
     res_bind (put cap v buf)
       (put cap crlf)))"

fun create_paras :: "nat \<Rightarrow> RedisCmdParaInfo list \<Rightarrow> bytes \<Rightarrow> bytes res" where
  "create_paras cap [] buf = Inr buf"
| "create_paras cap (p # ps) buf = res_bind (create_para cap p buf) (create_paras cap ps)"

definition createRedisCommand :: "RedisCmdParaInfo list \<Rightarrow> nat \<Rightarrow> (bool \<times> bytes) res" where
  "createRedisCommand paraList cap =
     (if paraList = [] then Inr (False, [])
      else res_bind (put cap (''*'' @ show_int (int (length paraList)) @ crlf) []) (\<lambda>buf.
           res_bind (create_paras cap paraList buf) (\<lambda>buf. Inr (True, buf))))"

section \<open>The one-shot reply parser\<close>

text \<open>
  \<open>mem\<close> is the memory from the pointer to the end of its allocation.  A copy of
  the line into the local buffer must leave room for the terminating zero.
\<close>

definition line_to_buf :: "nat \<Rightarrow> bytes \<Rightarrow> string res" where
  "line_to_buf n l = (if length l < n then Inr l else Inl Overrun)"

definition parseArrayInfo :: "bytes \<Rightarrow> (bool \<times> ReplyArrayInfo \<times> bytes) res" where
  "parseArrayInfo mem =
     (if take 1 mem \<noteq> ''$'' then Inr (False, empty_elem, mem)
      else case strstr_crlf mem of
        None \<Rightarrow> Inr (False, empty_elem, mem)
      | Some p \<Rightarrow>
          res_bind (line_to_buf 128 (take (p - 1) (drop 1 mem))) (\<lambda>buf.
          let n = atoi buf; rest = drop (p + 2) mem in
          if n = -1 then Inr (True, \<lparr> elemType = REDIS_REPLY_NIL, arrayValue = None, arrayLen = -1 \<rparr>, rest)
          else if n < 0 then Inl BadAlloc
          else if length rest < nat n then Inl Overrun
          else Inr (True, \<lparr> elemType = REDIS_REPLY_STRING, arrayValue = Some (take (nat n) rest),
                            arrayLen = n \<rparr>, drop (nat n + 2) rest)))"

text \<open>The loop over the elements; \<open>arrayString\<close> is set to \<open>p + 2\<close> in every round.\<close>

fun parse_elements :: "nat \<Rightarrow> bytes \<Rightarrow> RedisReplyInfo \<Rightarrow> (bool \<times> RedisReplyInfo) res" where
  "parse_elements 0 arrayString r = Inr (True, r)"
| "parse_elements (Suc i) arrayString r =
     res_bind (parseArrayInfo arrayString) (\<lambda>(success, e, _).
       if success then parse_elements i arrayString (r\<lparr> arrayList := arrayList r @ [e] \<rparr>)
       else Inr (False, r))"

definition reply_type_of :: "char \<Rightarrow> reply_type" where
  "reply_type_of c =
     (if c = CHR ''-'' then REDIS_REPLY_ERROR
      else if c = CHR ''+'' then REDIS_REPLY_STATUS
      else if c = CHR '':'' then REDIS_REPLY_INTEGER
      else if c = CHR ''$'' then REDIS_REPLY_STRING
      else if c = CHR ''*'' then REDIS_REPLY_ARRAY
      else REDIS_REPLY_UNKNOWN)"

definition parseRedisReply :: "bytes \<Rightarrow> RedisReplyInfo \<Rightarrow> (bool \<times> RedisReplyInfo) res" where
  "parseRedisReply mem r =
     (case mem of
        [] \<Rightarrow> Inl Overrun
      | c # _ \<Rightarrow>
        let t = reply_type_of c; r = r\<lparr> replyType := t \<rparr>; p = strstr_crlf mem in
        if t = REDIS_REPLY_UNKNOWN then Inr (False, r)
        else if t = REDIS_REPLY_STRING then
          res_bind (parseArrayInfo mem) (\<lambda>(success, e, _).
            Inr (success, if success then r\<lparr> arrayList := arrayList r @ [e] \<rparr> else r))
        else case p of
          None \<Rightarrow> Inr (False, r)
        | Some p \<Rightarrow>
          let l = take (p - 1) (drop 1 mem) in
          if t = REDIS_REPLY_ERROR \<or> t = REDIS_REPLY_STATUS then
            res_bind (line_to_buf 4096 l) (\<lambda>buf. Inr (True, r\<lparr> resultString := buf \<rparr>))
          else if t = REDIS_REPLY_INTEGER then
            res_bind (line_to_buf 64 l) (\<lambda>buf. Inr (True, r\<lparr> intValue := atoi buf \<rparr>))
          else
            res_bind (line_to_buf 64 l) (\<lambda>buf.
              parse_elements (nat (atoi buf)) (drop (p + 2) mem) r))"

section \<open>What a server reads\<close>

definition enc_bulk :: "bytes \<Rightarrow> bytes" where
  "enc_bulk v = ''$'' @ show_nat (length v) @ crlf @ v @ crlf"

definition enc_request :: "bytes list \<Rightarrow> bytes" where
  "enc_request args = ''*'' @ show_nat (length args) @ crlf @ concat (map enc_bulk args)"

text \<open>A length line: the tag, a number and CRLF.\<close>

definition dec_len :: "char \<Rightarrow> bytes \<Rightarrow> (nat \<times> bytes) option" where
  "dec_len tag s =
     (case s of
        [] \<Rightarrow> None
      | c # s \<Rightarrow> if c \<noteq> tag then None
                else case find_sub crlf s of
                  None \<Rightarrow> None
                | Some k \<Rightarrow> Some (nat (read_signed (take k s)), drop (k + 2) s))"

fun dec_bulks :: "nat \<Rightarrow> bytes \<Rightarrow> bytes list option" where
  "dec_bulks 0 s = (if s = [] then Some [] else None)"
| "dec_bulks (Suc n) s =
     (case dec_len (CHR ''$'') s of
        None \<Rightarrow> None
      | Some (k, s) \<Rightarrow>
          if take 2 (drop k s) \<noteq> crlf then None
          else map_option ((#) (take k s)) (dec_bulks n (drop (k + 2) s)))"

definition dec_request :: "bytes \<Rightarrow> bytes list option" where
  "dec_request s =
     (case dec_len (CHR ''*'') s of None \<Rightarrow> None | Some (n, s) \<Rightarrow> dec_bulks n s)"

section \<open>Lemmas\<close>

definition para :: "bytes \<Rightarrow> RedisCmdParaInfo" where
  "para v = \<lparr> paraValue = Some (v @ [NUL]), paraLen = int (length v) \<rparr>"

lemma para_bytes_para [simp]: "para_bytes (para v) = Inr v"
  by (simp add: para_bytes_def para_def)

lemma length_enc_bulk:
  "length (enc_bulk v) = length v + length (show_nat (length v)) + 5"
  by (simp add: enc_bulk_def crlf_def)

lemma create_para_ok:
  assumes "length buf + length (enc_bulk v) \<le> cap"
  shows "create_para cap (para v) buf = Inr (buf @ enc_bulk v)"
  using assms by (simp add: create_para_def put_def enc_bulk_def para_def show_int_of_nat
      para_bytes_def)

lemma create_paras_ok:
  assumes "length buf + length (concat (map enc_bulk vs)) \<le> cap"
  shows "create_paras cap (map para vs) buf = Inr (buf @ concat (map enc_bulk vs))"
  using assms by (induction vs arbitrary: buf) (simp_all add: create_para_ok)

lemma create_request:
  assumes "vs \<noteq> []" and "length (enc_request vs) \<le> cap"
  shows "createRedisCommand (map para vs) cap = Inr (True, enc_request vs)"
  using assms
  by (simp add: createRedisCommand_def put_def enc_request_def show_int_of_nat create_paras_ok)

lemma create_para_mono:
  "create_para cap p buf = Inr b \<Longrightarrow> \<exists>v. b = buf @ v \<and> length b \<le> cap"
  by (auto simp: create_para_def put_def res_simps split: if_splits)

lemma create_paras_bound:
  "create_paras cap ps buf = Inr b \<Longrightarrow> length buf \<le> cap \<Longrightarrow> length b \<le> cap"
  by (induction ps arbitrary: buf) (fastforce simp: res_simps dest: create_para_mono)+

lemma dec_len_enc:
  "dec_len tag (tag # show_nat n @ crlf @ s) = Some (n, s)"
proof -
  have "CR \<notin> set (show_nat n)" using show_nat_line_ok [of n] by (simp add: line_ok_def)
  then show ?thesis
    by (simp add: dec_len_def find_sub_crlf_line decimal_simps) (simp add: crlf_def)
qed

lemma dec_bulks_enc: "dec_bulks (length vs) (concat (map enc_bulk vs)) = Some vs"
proof (induction vs)
  case (Cons v vs)
  have "concat (map enc_bulk (v # vs))
      = CHR ''$'' # show_nat (length v) @ crlf @ (v @ crlf @ concat (map enc_bulk vs))"
    by (simp add: enc_bulk_def)
  then have "dec_len (CHR ''$'') (concat (map enc_bulk (v # vs)))
      = Some (length v, v @ crlf @ concat (map enc_bulk vs))"
    by (simp only: dec_len_enc)
  with Cons show ?case by (simp add: crlf_def)
qed simp

lemma dec_enc_request: "dec_request (enc_request vs) = Some vs"
proof -
  have "enc_request vs = CHR ''*'' # show_nat (length vs) @ crlf @ concat (map enc_bulk vs)"
    by (simp add: enc_request_def)
  then show ?thesis by (simp only: dec_request_def dec_len_enc) (simp add: dec_bulks_enc)
qed

lemma show_nat_length:
  assumes "n < 10 ^ k" "0 < k"
  shows "length (show_nat n) \<le> k"
  using assms
proof (induction k arbitrary: n)
  case (Suc k)
  show ?case
  proof (cases "n < 10")
    case False
    then have "0 < k" using Suc.prems by (cases k) simp_all
    moreover have "n div 10 < 10 ^ k"
      using Suc.prems(1) by (simp add: div_less_iff_less_mult mult.commute)
    ultimately show ?thesis using Suc.IH [of "n div 10"] False
      by (subst show_nat.simps) simp
  qed (simp add: show_nat.simps)
qed simp

lemma show_nat_length_int32: "int n \<le> int32_max \<Longrightarrow> length (show_nat n) \<le> 10"
  by (rule show_nat_length) (simp_all add: int32_max_def)

lemma show_int_length_int32: "in_int32 i \<Longrightarrow> length (show_int i) \<le> 11"
proof -
  assume "in_int32 i"
  then have "\<bar>i\<bar> < 10 ^ 10"
    by (auto simp: in_int32_def int32_max_def int32_min_def abs_if)
  then have "nat \<bar>i\<bar> < 10 ^ 10" by (simp add: nat_less_iff)
  from show_nat_length [OF this] show ?thesis by (auto simp: show_int_def)
qed

end
