(* ===== verification/Redis_Connection.thy ===== *)
theory Redis_Connection
  imports Redis_Base
begin

text \<open>
  The incremental reply parser of \<open>redisconnection.cpp\<close>: \<open>parse\<close>, a state machine
  over the bytes received so far that keeps the tail it could not parse, and the
  receive loop \<open>recv\<close> that feeds it.  The socket is the list of what its reads
  return; \<open>None\<close> is a failed read.
\<close>

section \<open>Parser state\<close>

datatype parse_state =
    REDIS_PARSE_UNKNOWN_STATE | REDIS_PARSE_TYPE | REDIS_PARSE_LENGTH | REDIS_PARSE_ARRAYLENGTH
  | REDIS_PARSE_INTEGER | REDIS_PARSE_RESULT | REDIS_PARSE_STRING
  | REDIS_PARSE_CURSORLEN | REDIS_PARSE_CURSOR | REDIS_PARSE_KEYSLEN | REDIS_PARSE_KEYLEN
  | REDIS_PARSE_KEY
  | REDIS_PARSE_CHECK_ARRAYS_SIZE | REDIS_PARSE_RESULT_OK | REDIS_PARSE_RESULT_ERR

text \<open>
  The members of \<open>RedisConnection\<close> that the parsers use, the local \<open>haveArray\<close> of
  \<open>parse\<close>, and the reply that is being filled in.
\<close>

record parser =
  m_unparse :: bytes
  m_parseState :: parse_state
  m_valid :: bool
  m_arrayNum :: int
  m_doneNum :: int
  m_arrayLen :: int
  haveArray :: bool
  reply :: RedisReplyInfo

definition recv_init :: "RedisReplyInfo \<Rightarrow> parser" where
  "recv_init r = \<lparr> m_unparse = [], m_parseState = REDIS_PARSE_UNKNOWN_STATE, m_valid = False,
     m_arrayNum = 0, m_doneNum = 0, m_arrayLen = 0, haveArray = False, reply = r \<rparr>"

text \<open>
  How one pass through the \<open>switch\<close> ends: \<open>Next\<close> with the pointer before the
  \<open>++parseBuf\<close> of the loop, \<open>CheckBuf\<close> for \<open>goto check_buf\<close>, and \<open>RetFalse\<close>.
\<close>

datatype 'p outcome = Next 'p bytes | CheckBuf 'p bytes | RetFalse 'p

section \<open>One pass through the switch\<close>

definition buf_size :: nat where
  "buf_size = 4096"

definition parse_type :: "parser \<Rightarrow> bytes \<Rightarrow> parser outcome res" where
  "parse_type st s =
     (let r = (\<lambda>t. (reply st)\<lparr> replyType := t \<rparr>); c = hd s in
      if c = CHR ''-'' then
        Inr (Next (st\<lparr> m_parseState := REDIS_PARSE_RESULT, reply := r REDIS_REPLY_ERROR \<rparr>) s)
      else if c = CHR ''+'' then
        Inr (Next (st\<lparr> m_parseState := REDIS_PARSE_RESULT, reply := r REDIS_REPLY_STATUS \<rparr>) s)
      else if c = CHR '':'' then
        Inr (Next (st\<lparr> m_parseState := REDIS_PARSE_INTEGER, reply := r REDIS_REPLY_INTEGER \<rparr>) s)
      else if c = CHR ''$'' then
        Inr (Next (st\<lparr> m_parseState := REDIS_PARSE_LENGTH, reply := r REDIS_REPLY_STRING,
                       m_arrayNum := 1 \<rparr>) s)
      else if c = CHR ''*'' then
        Inr (Next (st\<lparr> m_parseState := REDIS_PARSE_ARRAYLENGTH, reply := r REDIS_REPLY_ARRAY \<rparr>) s)
      else Inr (RetFalse (st\<lparr> reply := r REDIS_REPLY_UNKNOWN \<rparr>)))"

definition parse_integer :: "parser \<Rightarrow> bytes \<Rightarrow> parser outcome res" where
  "parse_integer st s =
     (case strstr_crlf s of
        None \<Rightarrow> Inr (CheckBuf st s)
      | Some p \<Rightarrow>
          res_bind (line_to_buf buf_size (take p s)) (\<lambda>buf.
          Inr (Next (st\<lparr> reply := (reply st)\<lparr> intValue := atoi buf \<rparr>, m_valid := True \<rparr>)
                    (drop (p + 1) s))))"

definition parse_result :: "parser \<Rightarrow> bytes \<Rightarrow> parser outcome res" where
  "parse_result st s =
     (case strstr_crlf s of
        None \<Rightarrow> Inr (CheckBuf st s)
      | Some p \<Rightarrow>
          res_bind (line_to_buf buf_size (take p s)) (\<lambda>buf.
          Inr (Next (st\<lparr> reply := (reply st)\<lparr> resultString := buf \<rparr>, m_valid := True \<rparr>)
                    (drop (p + 1) s))))"

text \<open>An element is complete: it is appended, and the state tells what follows.\<close>

definition add_elem :: "ReplyArrayInfo \<Rightarrow> parser \<Rightarrow> parser" where
  "add_elem e st =
     (let st = st\<lparr> reply := (reply st)\<lparr> arrayList := arrayList (reply st) @ [e] \<rparr>,
                   m_doneNum := m_doneNum st + 1 \<rparr> in
      if m_doneNum st < m_arrayNum st then st\<lparr> m_parseState := REDIS_PARSE_LENGTH \<rparr>
      else st\<lparr> m_valid := True \<rparr>)"

text \<open>A status, error or integer element of an array, kept with its type byte.\<close>

definition parse_line_elem :: "parser \<Rightarrow> bytes \<Rightarrow> parser outcome res" where
  "parse_line_elem st s =
     (case strstr_crlf s of
        None \<Rightarrow> Inr (CheckBuf st s)
      | Some p \<Rightarrow>
          if p = 0 then Inr (CheckBuf st s)
          else Inr (Next (add_elem \<lparr> elemType = REDIS_REPLY_STRING, arrayValue = Some (take p s),
                                     arrayLen = int p \<rparr> st)
                         (drop (p + 1) s)))"

definition parse_bulk_length :: "parser \<Rightarrow> bytes \<Rightarrow> parser outcome res" where
  "parse_bulk_length st s =
     (case strstr_crlf s of
        None \<Rightarrow> Inr (CheckBuf st s)
      | Some p \<Rightarrow>
          res_bind (line_to_buf buf_size (take p s)) (\<lambda>buf.
          let st = st\<lparr> m_arrayLen := atoi buf \<rparr>; s = drop (p + 1) s in
          if m_arrayLen st \<noteq> -1 then Inr (Next (st\<lparr> m_parseState := REDIS_PARSE_STRING \<rparr>) s)
          else Inr (Next (add_elem \<lparr> elemType = REDIS_REPLY_NIL, arrayValue = None,
                                     arrayLen = -1 \<rparr> st) s)))"

definition parse_length :: "parser \<Rightarrow> bytes \<Rightarrow> parser outcome res" where
  "parse_length st s =
     (if haveArray st \<and> hd s \<in> {CHR ''-'', CHR ''+'', CHR '':''} then parse_line_elem st s
      else parse_bulk_length st (if hd s = CHR ''$'' then tl s else s))"

text \<open>\<open>m_arrayLen+2\<close> may leave the range of \<open>int\<close>, and a length below \<open>-1\<close> asks
  \<open>malloc\<close> for a negative size.\<close>

definition parse_string :: "parser \<Rightarrow> bytes \<Rightarrow> parser outcome res" where
  "parse_string st s =
     (if m_arrayLen st + 2 > int32_max then Inl SignedOverflow
      else if int (length s) \<ge> m_arrayLen st + 2 then
        if m_arrayLen st < 0 then Inl BadAlloc
        else
          let n = nat (m_arrayLen st) in
          Inr (Next (add_elem \<lparr> elemType = REDIS_REPLY_STRING, arrayValue = Some (take n s),
                                arrayLen = m_arrayLen st \<rparr> st) (drop (n + 1) s))
      else Inr (CheckBuf st s))"

definition parse_arraylength :: "parser \<Rightarrow> bytes \<Rightarrow> parser outcome res" where
  "parse_arraylength st s =
     (case strstr_crlf s of
        None \<Rightarrow> Inr (CheckBuf st s)
      | Some p \<Rightarrow>
          res_bind (line_to_buf buf_size (take p s)) (\<lambda>buf.
          let st = st\<lparr> m_arrayNum := atoi buf \<rparr>; s = drop (p + 1) s in
          if m_arrayNum st = 0 then Inr (Next (st\<lparr> m_valid := True \<rparr>) s)
          else if m_arrayNum st = -1 then
            Inr (Next (st\<lparr> m_valid := True, reply := (reply st)\<lparr> intValue := -1 \<rparr> \<rparr>) s)
          else Inr (Next (st\<lparr> m_parseState := REDIS_PARSE_LENGTH, haveArray := True \<rparr>) s)))"

definition parse_step :: "parser \<Rightarrow> bytes \<Rightarrow> parser outcome res" where
  "parse_step st s =
     (case m_parseState st of
        REDIS_PARSE_TYPE \<Rightarrow> parse_type st s
      | REDIS_PARSE_INTEGER \<Rightarrow> parse_integer st s
      | REDIS_PARSE_RESULT \<Rightarrow> parse_result st s
      | REDIS_PARSE_LENGTH \<Rightarrow> parse_length st s
      | REDIS_PARSE_STRING \<Rightarrow> parse_string st s
      | REDIS_PARSE_ARRAYLENGTH \<Rightarrow> parse_arraylength st s
      | _ \<Rightarrow> Inr (Next st s))"

lemma parse_step_length:
  "parse_step st s = Inr (Next st' s') \<Longrightarrow> length s' \<le> length s"
  by (auto simp: parse_step_def parse_type_def parse_integer_def parse_result_def parse_length_def
      parse_bulk_length_def parse_line_elem_def parse_string_def parse_arraylength_def Let_def res_simps
      split: parse_state.splits if_splits option.splits)

section \<open>The loop and the saved tail\<close>

text \<open>The result is the state, the bytes from \<open>parseBuf\<close> on, and whether
  \<open>check_buf\<close> was reached.\<close>

function parse_loop :: "parser \<Rightarrow> bytes \<Rightarrow> (parser \<times> bytes \<times> bool) res" where
  "parse_loop st s =
     (if s = [] then Inr (st, [], True)
      else case parse_step st s of
        Inl f \<Rightarrow> Inl f
      | Inr (Next st' s') \<Rightarrow> parse_loop st' (tl s')
      | Inr (CheckBuf st' s') \<Rightarrow> Inr (st', s', True)
      | Inr (RetFalse st') \<Rightarrow> Inr (st', s, False))"
  by pat_completeness auto
termination
proof (relation "measure (\<lambda>(st, s). length s)")
  fix st :: parser and s :: bytes and x st' s'
  assume "s \<noteq> []" "parse_step st s = Inr x" "x = Next st' s'"
  then show "((st', tl s'), st, s) \<in> measure (\<lambda>(st, s). length s)"
    using parse_step_length [of st s st' s'] by (cases s) auto
qed simp

declare parse_loop.simps [simp del]

definition check_buf :: "parser \<Rightarrow> bytes \<Rightarrow> parser" where
  "check_buf st s = (if \<not> m_valid st \<and> s \<noteq> [] then st\<lparr> m_unparse := s \<rparr> else st)"

definition parse :: "parser \<Rightarrow> bytes \<Rightarrow> (parser \<times> bool) res" where
  "parse st s =
     (let st = (if m_parseState st = REDIS_PARSE_UNKNOWN_STATE
                then st\<lparr> m_parseState := REDIS_PARSE_TYPE \<rparr> else st) in
      res_bind (parse_loop (st\<lparr> haveArray := False \<rparr>) s) (\<lambda>(st, s, ok).
        Inr (if ok then check_buf st s else st, ok)))"

section \<open>The receive loop\<close>

definition REDIS_READ_BUFF_SIZE :: nat where
  "REDIS_READ_BUFF_SIZE = 4096"

text \<open>
  The buffer that is parsed next: the saved tail and the bytes just read, in
  \<open>mallocLen\<close> bytes that are doubled when they do not suffice.  The parsers search
  it as a C string, so a zero byte must follow the data.
\<close>

definition recv_buf :: "int \<Rightarrow> parser \<Rightarrow> bytes \<Rightarrow> (int \<times> parser \<times> bytes) res" where
  "recv_buf mallocLen st d =
     (let toParse = m_unparse st @ d; n = int (length toParse) in
      if length d > REDIS_READ_BUFF_SIZE - 1 then Inl Overrun
      else if m_unparse st \<noteq> [] then
        if n \<ge> mallocLen then
          if mallocLen * 2 > int32_max then Inl SignedOverflow
          else if n \<ge> mallocLen * 2 then Inl Overrun
          else Inr (mallocLen * 2, st\<lparr> m_unparse := [] \<rparr>, toParse)
        else Inr (mallocLen, st\<lparr> m_unparse := [] \<rparr>, toParse)
      else if n \<ge> mallocLen then Inl Overrun
      else Inr (mallocLen, st, toParse))"

fun recv_loop ::
  "(parser \<Rightarrow> bytes \<Rightarrow> (parser \<times> bool) res) \<Rightarrow> int \<Rightarrow> parser \<Rightarrow> bytes option list
   \<Rightarrow> (parser \<times> bool \<times> bytes option list) res" where
  "recv_loop prs mallocLen st [] = Inr (st, m_valid st, [])"
| "recv_loop prs mallocLen st (c # cs) =
     (if m_valid st then Inr (st, True, c # cs)
      else case c of
        None \<Rightarrow> Inr (st, False, cs)
      | Some d \<Rightarrow>
          res_bind (recv_buf mallocLen st d) (\<lambda>(mallocLen, st, buf).
          res_bind (prs st buf) (\<lambda>(st, _).
          recv_loop prs mallocLen st cs)))"

definition recv :: "RedisReplyInfo \<Rightarrow> bytes option list
    \<Rightarrow> (RedisReplyInfo \<times> bool \<times> bytes option list) res" where
  "recv r reads =
     res_bind (recv_loop parse (int REDIS_READ_BUFF_SIZE) (recv_init r) reads)
       (\<lambda>(st, ok, reads). Inr (reply st, ok, reads))"

end
