(* ===== verification/Redis_Reply.thy ===== *)
theory Redis_Reply
  imports Redis_Connection
begin

text \<open>
  What the receive loop makes of the replies a Redis server sends.  \<open>enc_resp\<close>
  is the wire form of a reply and \<open>reply_of\<close> the structure the client works on.
  The invariant \<open>expects\<close> relates a parser state in the middle of a reply to the
  bytes that are still to come; every pass through the switch keeps it, whatever
  part of the bytes has arrived.
\<close>

section \<open>Replies on the wire\<close>

text \<open>An array element: a bulk string (\<open>None\<close> is nil) or a status, error or integer
  line with its type byte.\<close>

datatype elem = EBulk "bytes option" | ELine string

datatype resp =
    RStatus string | RError string | RInt int | RBulk "bytes option"
  | RArray "elem list" | RNilArray

definition nil_line :: string where
  "nil_line = ''-1'' @ crlf"

fun enc_elem :: "elem \<Rightarrow> bytes" where
  "enc_elem (EBulk None) = CHR ''$'' # nil_line"
| "enc_elem (EBulk (Some b)) = CHR ''$'' # show_nat (length b) @ crlf @ b @ crlf"
| "enc_elem (ELine l) = l @ crlf"

abbreviation enc_elems :: "elem list \<Rightarrow> bytes" where
  "enc_elems es \<equiv> concat (map enc_elem es)"

fun enc_resp :: "resp \<Rightarrow> bytes" where
  "enc_resp (RStatus l) = CHR ''+'' # l @ crlf"
| "enc_resp (RError l) = CHR ''-'' # l @ crlf"
| "enc_resp (RInt i) = CHR '':'' # show_int i @ crlf"
| "enc_resp (RBulk b) = enc_elem (EBulk b)"
| "enc_resp (RArray es) = CHR ''*'' # show_nat (length es) @ crlf @ enc_elems es"
| "enc_resp RNilArray = CHR ''*'' # nil_line"

fun elem_info :: "elem \<Rightarrow> ReplyArrayInfo" where
  "elem_info (EBulk None) = \<lparr> elemType = REDIS_REPLY_NIL, arrayValue = None, arrayLen = -1 \<rparr>"
| "elem_info (EBulk (Some b)) =
     \<lparr> elemType = REDIS_REPLY_STRING, arrayValue = Some b, arrayLen = int (length b) \<rparr>"
| "elem_info (ELine l) =
     \<lparr> elemType = REDIS_REPLY_STRING, arrayValue = Some l, arrayLen = int (length l) \<rparr>"

fun reply_of :: "resp \<Rightarrow> RedisReplyInfo" where
  "reply_of (RStatus l) = empty_reply\<lparr> replyType := REDIS_REPLY_STATUS, resultString := l \<rparr>"
| "reply_of (RError l) = empty_reply\<lparr> replyType := REDIS_REPLY_ERROR, resultString := l \<rparr>"
| "reply_of (RInt i) = empty_reply\<lparr> replyType := REDIS_REPLY_INTEGER, intValue := i \<rparr>"
| "reply_of (RBulk b) =
     empty_reply\<lparr> replyType := REDIS_REPLY_STRING, arrayList := [elem_info (EBulk b)] \<rparr>"
| "reply_of (RArray es) =
     empty_reply\<lparr> replyType := REDIS_REPLY_ARRAY, arrayList := map elem_info es \<rparr>"
| "reply_of RNilArray = empty_reply\<lparr> replyType := REDIS_REPLY_ARRAY, intValue := -1 \<rparr>"

text \<open>The bounds under which nothing overflows: lines shorter than the local buffer,
  lengths and counts within \<open>int\<close>.\<close>

definition text_ok :: "string \<Rightarrow> bool" where
  "text_ok l \<longleftrightarrow> line_ok l \<and> length l < buf_size"

definition line_elem_ok :: "string \<Rightarrow> bool" where
  "line_elem_ok l \<longleftrightarrow> line_ok l \<and> l \<noteq> [] \<and> hd l \<in> {CHR ''-'', CHR ''+'', CHR '':''}"

fun elem_ok :: "elem \<Rightarrow> bool" where
  "elem_ok (EBulk None) = True"
| "elem_ok (EBulk (Some b)) = (int (length b) + 2 \<le> int32_max)"
| "elem_ok (ELine l) = line_elem_ok l"

fun is_bulk :: "elem \<Rightarrow> bool" where
  "is_bulk (EBulk _) = True"
| "is_bulk (ELine _) = False"

fun resp_ok :: "resp \<Rightarrow> bool" where
  "resp_ok (RStatus l) = text_ok l"
| "resp_ok (RError l) = text_ok l"
| "resp_ok (RInt i) = in_int32 i"
| "resp_ok (RBulk b) = elem_ok (EBulk b)"
| "resp_ok (RArray es) = (list_all elem_ok es \<and> int (length es) \<le> int32_max)"
| "resp_ok RNilArray = True"

fun resp_bulks :: "resp \<Rightarrow> bool" where
  "resp_bulks (RArray es) = list_all is_bulk es"
| "resp_bulks _ = True"

section \<open>Lines that have arrived in part\<close>

lemma append_split_line:
  assumes "s @ t = l @ crlf @ u"
  shows "(\<exists>v. s = l @ crlf @ v \<and> u = v @ t) \<or> (length s < length l + 2 \<and> t \<noteq> [])"
proof (cases "length l + 2 \<le> length s")
  case True
  have "s @ t = (l @ crlf) @ u" using assms by simp
  moreover have "length (l @ crlf) \<le> length s" using True by (simp add: crlf_def)
  ultimately obtain v where "s = (l @ crlf) @ v" "u = v @ t"
    by (metis append_eq_append_conv_if append_take_drop_id)
  then show ?thesis by simp
next
  case False
  moreover have "length (s @ t) \<ge> length l + 2" using assms by (simp add: crlf_def)
  ultimately show ?thesis by auto
qed

lemma line_cases [consumes 2, case_names whole part]:
  assumes "s @ t = l @ crlf @ u" and "line_ok l"
  obtains (whole) v where "s = l @ crlf @ v" "u = v @ t" "strstr_crlf s = Some (length l)"
    | (part) "strstr_crlf s = None" "t \<noteq> []"
  using append_split_line [OF assms(1)] strstr_crlf_prefix_none [OF assms(2,1)]
    strstr_crlf_line [OF assms(2)] that by blast

lemma tl_drop_crlf [simp]:
  "tl (drop (Suc 0) crlf) = []" "tl (drop (Suc 0) crlf @ drop (Suc 0 - length crlf) v) = v"
  by (simp_all add: crlf_def)

lemma drop_line: "tl (drop (Suc (length l)) (l @ crlf @ v)) = v"
  by (simp add: crlf_def)

lemma drop_line_not_Nil: "drop (Suc (length l)) (l @ crlf @ v) \<noteq> []"
  by (simp add: crlf_def)

lemma line_to_buf_int:
  "in_int32 i \<Longrightarrow> line_to_buf buf_size (show_int i) = Inr (show_int i)"
  using show_int_length_int32 [of i] by (simp add: line_to_buf_def buf_size_def)

lemma line_to_buf_nat:
  "int n \<le> int32_max \<Longrightarrow> line_to_buf buf_size (show_nat n) = Inr (show_nat n)"
  using show_nat_length_int32 [of n] by (simp add: line_to_buf_def buf_size_def)

lemma show_minus_one: "show_int (-1) = ''-1''"
  by code_simp

lemma nil_line_line: "nil_line = show_int (-1) @ crlf"
  by (simp add: nil_line_def show_minus_one)

section \<open>The bytes a parser state expects\<close>

definition push_elems :: "elem list \<Rightarrow> RedisReplyInfo \<Rightarrow> RedisReplyInfo" where
  "push_elems es r = r\<lparr> arrayList := arrayList r @ map elem_info es \<rparr>"

text \<open>\<open>L\<close> says that line elements may still come; they are read as such only while
  \<open>haveArray\<close> is set.\<close>

definition elems_fit :: "bool \<Rightarrow> parser \<Rightarrow> elem list \<Rightarrow> bool" where
  "elems_fit L st es \<longleftrightarrow> list_all elem_ok es \<and> (list_all is_bulk es \<or> L \<and> haveArray st)"

definition exp_type :: "bool \<Rightarrow> parser \<Rightarrow> RedisReplyInfo \<Rightarrow> bytes \<Rightarrow> bool" where
  "exp_type L st out s \<longleftrightarrow> m_doneNum st = 0 \<and> reply st = empty_reply \<and> \<not> haveArray st \<and>
     (\<exists>r. resp_ok r \<and> (L \<or> resp_bulks r) \<and> s = enc_resp r \<and> out = reply_of r)"

definition exp_integer :: "parser \<Rightarrow> RedisReplyInfo \<Rightarrow> bytes \<Rightarrow> bool" where
  "exp_integer st out s \<longleftrightarrow>
     (\<exists>i. in_int32 i \<and> s = show_int i @ crlf \<and> out = (reply st)\<lparr> intValue := i \<rparr>)"

definition exp_result :: "parser \<Rightarrow> RedisReplyInfo \<Rightarrow> bytes \<Rightarrow> bool" where
  "exp_result st out s \<longleftrightarrow>
     (\<exists>l. text_ok l \<and> s = l @ crlf \<and> out = (reply st)\<lparr> resultString := l \<rparr>)"

definition exp_arraylength :: "bool \<Rightarrow> parser \<Rightarrow> RedisReplyInfo \<Rightarrow> bytes \<Rightarrow> bool" where
  "exp_arraylength L st out s \<longleftrightarrow> m_doneNum st = 0 \<and>
     ((\<exists>es. list_all elem_ok es \<and> (L \<or> list_all is_bulk es) \<and> int (length es) \<le> int32_max
        \<and> s = show_nat (length es) @ crlf @ enc_elems es \<and> out = push_elems es (reply st))
      \<or> s = nil_line \<and> out = (reply st)\<lparr> intValue := -1 \<rparr>)"

definition exp_length :: "bool \<Rightarrow> parser \<Rightarrow> RedisReplyInfo \<Rightarrow> bytes \<Rightarrow> bool" where
  "exp_length L st out s \<longleftrightarrow>
     (\<exists>e es. elems_fit L st (e # es) \<and> out = push_elems (e # es) (reply st)
        \<and> m_doneNum st + 1 + int (length es) = m_arrayNum st
        \<and> (s = enc_elem e @ enc_elems es
           \<or> is_bulk e \<and> \<not> haveArray st \<and> s = tl (enc_elem e) @ enc_elems es))"

definition exp_string :: "bool \<Rightarrow> parser \<Rightarrow> RedisReplyInfo \<Rightarrow> bytes \<Rightarrow> bool" where
  "exp_string L st out s \<longleftrightarrow>
     (\<exists>b es. elems_fit L st (EBulk (Some b) # es)
        \<and> out = push_elems (EBulk (Some b) # es) (reply st)
        \<and> m_doneNum st + 1 + int (length es) = m_arrayNum st
        \<and> m_arrayLen st = int (length b) \<and> s = b @ crlf @ enc_elems es)"

definition expects :: "bool \<Rightarrow> parser \<Rightarrow> RedisReplyInfo \<Rightarrow> bytes \<Rightarrow> bool" where
  "expects L st out s \<longleftrightarrow> \<not> m_valid st \<and>
     (case m_parseState st of
        REDIS_PARSE_TYPE \<Rightarrow> exp_type L st out s
      | REDIS_PARSE_INTEGER \<Rightarrow> exp_integer st out s
      | REDIS_PARSE_RESULT \<Rightarrow> exp_result st out s
      | REDIS_PARSE_ARRAYLENGTH \<Rightarrow> exp_arraylength L st out s
      | REDIS_PARSE_LENGTH \<Rightarrow> exp_length L st out s
      | REDIS_PARSE_STRING \<Rightarrow> exp_string L st out s
      | _ \<Rightarrow> False)"

text \<open>What one pass may do when \<open>s\<close> has arrived and \<open>t\<close> is still to come.\<close>

definition progress ::
  "bool \<Rightarrow> parser \<Rightarrow> RedisReplyInfo \<Rightarrow> bytes \<Rightarrow> parser outcome res \<Rightarrow> bool" where
  "progress L st out t o1 \<longleftrightarrow>
     (case o1 of
        Inr (Next st' s') \<Rightarrow>
          (m_valid st' \<and> reply st' = out \<and> tl s' = [] \<and> t = []) \<or> expects L st' out (tl s' @ t)
      | Inr (CheckBuf st' s') \<Rightarrow>
          st' = st \<and> t \<noteq> [] \<and> (\<not> L \<longrightarrow> expects L (st\<lparr> haveArray := False \<rparr>) out (s' @ t))
      | _ \<Rightarrow> False)"

lemma enc_elem_not_Nil [simp]: "enc_elem e \<noteq> []"
  by (cases e rule: enc_elem.cases) (simp_all add: crlf_def)

lemma enc_resp_not_Nil [simp]: "enc_resp r \<noteq> []"
  by (cases r) simp_all

lemmas not_Nil_enc [simp] = enc_resp_not_Nil [THEN not_sym] enc_elem_not_Nil [THEN not_sym]

lemma tl_enc_bulk_not_Nil: "is_bulk e \<Longrightarrow> tl (enc_elem e) \<noteq> []"
  by (cases e rule: enc_elem.cases) (simp_all add: nil_line_def)

lemma expects_not_Nil: "\<not> expects L st out []"
  by (auto simp: expects_def exp_type_def exp_integer_def exp_result_def exp_arraylength_def
      exp_length_def exp_string_def crlf_def nil_line_def
      dest: tl_enc_bulk_not_Nil split: parse_state.splits)

section \<open>Every pass keeps the invariant\<close>

lemma expects_forget:
  "expects False st out s \<Longrightarrow> expects False (st\<lparr> haveArray := False \<rparr>) out s"
  by (auto simp: expects_def exp_type_def exp_integer_def exp_result_def exp_arraylength_def
      exp_length_def exp_string_def elems_fit_def split: parse_state.splits)

lemma progress_wait:
  "expects L st out (s @ t) \<Longrightarrow> t \<noteq> [] \<Longrightarrow> progress L st out t (Inr (CheckBuf st s))"
  using expects_forget by (cases L) (simp_all add: progress_def)

text \<open>A state that only reads a line: the line is there, or the pass waits for it.\<close>

lemma progress_integer:
  assumes "m_parseState st = REDIS_PARSE_INTEGER" "expects L st out (s @ t)"
  shows "progress L st out t (parse_integer st s)"
proof -
  from assms obtain i where i: "in_int32 i" "s @ t = show_int i @ crlf @ []"
    "out = (reply st)\<lparr> intValue := i \<rparr>" and nv: "\<not> m_valid st"
    by (auto simp: expects_def exp_integer_def)
  from i(2) show_int_line_ok show ?thesis
  proof (cases rule: line_cases)
    case (whole v)
    then show ?thesis
      using i(1,3) nv by (simp add: progress_def parse_integer_def line_to_buf_int atoi_show_int
          drop_line)
  next
    case part
    then show ?thesis
      using progress_wait [OF assms(2)] by (simp add: parse_integer_def)
  qed
qed

lemma progress_result:
  assumes "m_parseState st = REDIS_PARSE_RESULT" "expects L st out (s @ t)"
  shows "progress L st out t (parse_result st s)"
proof -
  from assms obtain l where l: "text_ok l" "s @ t = l @ crlf @ []"
    "out = (reply st)\<lparr> resultString := l \<rparr>" and nv: "\<not> m_valid st"
    by (auto simp: expects_def exp_result_def)
  then have ok: "line_ok l" "length l < buf_size" by (simp_all add: text_ok_def)
  from l(2) ok(1) show ?thesis
  proof (cases rule: line_cases)
    case (whole v)
    then show ?thesis
      using l(3) ok(2) by (simp add: progress_def parse_result_def line_to_buf_def drop_line)
  next
    case part
    then show ?thesis
      using progress_wait [OF assms(2)] by (simp add: parse_result_def)
  qed
qed

lemma expects_start_array:
  assumes "st' = st\<lparr> m_arrayNum := int (length es), m_parseState := REDIS_PARSE_LENGTH,
      haveArray := True \<rparr>"
    and "es \<noteq> []" "list_all elem_ok es" "L \<or> list_all is_bulk es" "m_doneNum st = 0" "\<not> m_valid st"
  shows "expects L st' (push_elems es (reply st)) (enc_elems es)"
  using assms by (cases es) (auto simp: expects_def exp_length_def elems_fit_def)

lemma progress_arraylength:
  assumes "m_parseState st = REDIS_PARSE_ARRAYLENGTH" "expects L st out (s @ t)"
  shows "progress L st out t (parse_arraylength st s)"
proof -
  from assms have nv: "\<not> m_valid st" and d: "m_doneNum st = 0"
    by (auto simp: expects_def exp_arraylength_def)
  from assms consider
      (elems) es where "list_all elem_ok es" "L \<or> list_all is_bulk es" "int (length es) \<le> int32_max"
        "s @ t = show_nat (length es) @ crlf @ enc_elems es" "out = push_elems es (reply st)"
    | (nil) "s @ t = show_int (-1) @ crlf @ []" "out = (reply st)\<lparr> intValue := -1 \<rparr>"
    by (auto simp: expects_def exp_arraylength_def nil_line_line)
  then show ?thesis
  proof cases
    case elems
    from elems(4) show_nat_line_ok show ?thesis
    proof (cases rule: line_cases)
      case (whole v)
      show ?thesis
      proof (cases "es = []")
        case True
        then show ?thesis using whole elems(3,5)
          by (simp add: progress_def parse_arraylength_def line_to_buf_nat atoi_show_nat drop_line
              Let_def push_elems_def)
      next
        case False
        then show ?thesis
          using whole elems expects_start_array [OF refl False elems(1,2) d nv]
          by (simp add: progress_def parse_arraylength_def line_to_buf_nat atoi_show_nat drop_line
              Let_def)
      qed
    next
      case part
      then show ?thesis
        using progress_wait [OF assms(2)] by (simp add: parse_arraylength_def)
    qed
  next
    case nil
    have m1: "in_int32 (-1)" by (simp add: in_int32_def int32_min_def int32_max_def)
    from nil(1) show_int_line_ok show ?thesis
    proof (cases rule: line_cases)
      case (whole v)
      then show ?thesis using nil(2) m1
        by (simp add: progress_def parse_arraylength_def line_to_buf_int atoi_show_int drop_line
            Let_def)
    next
      case part
      then show ?thesis
        using progress_wait [OF assms(2)] by (simp add: parse_arraylength_def)
    qed
  qed
qed

text \<open>Completing an element ends the reply or leaves the rest of the elements.\<close>

lemma progress_add_elem:
  assumes "out = push_elems (e # es) (reply st)" "m_doneNum st + 1 + int (length es) = m_arrayNum st"
    and "elems_fit L st es" "\<not> m_valid st" "tl s' @ t = enc_elems es"
  shows "progress L st0 out t (Inr (Next (add_elem (elem_info e) st) s'))"
proof (cases es)
  case Nil
  then show ?thesis using assms
    by (simp add: progress_def add_elem_def push_elems_def Let_def)
next
  case (Cons e' es')
  then have "expects L (add_elem (elem_info e) st) out (tl s' @ t)"
    using assms
    by (auto simp: add_elem_def push_elems_def Let_def expects_def exp_length_def elems_fit_def
        intro!: exI [of _ e'] exI [of _ es'])
  then show ?thesis by (simp add: progress_def)
qed

lemma progress_string:
  assumes "m_parseState st = REDIS_PARSE_STRING" "expects L st out (s @ t)"
  shows "progress L st out t (parse_string st s)"
proof -
  from assms obtain b es where b: "elems_fit L st (EBulk (Some b) # es)"
    "out = push_elems (EBulk (Some b) # es) (reply st)"
    "m_doneNum st + 1 + int (length es) = m_arrayNum st"
    "m_arrayLen st = int (length b)" "s @ t = b @ crlf @ enc_elems es" "\<not> m_valid st"
    by (auto simp: expects_def exp_string_def)
  then have le: "int (length b) + 2 \<le> int32_max" and fit: "elems_fit L st es"
    by (auto simp: elems_fit_def)
  from append_split_line [OF b(5)] show ?thesis
  proof (elim disjE exE conjE)
    fix v assume v: "s = b @ crlf @ v" "enc_elems es = v @ t"
    have "progress L st out t (Inr (Next (add_elem (elem_info (EBulk (Some b))) st) (drop (Suc (length b)) s)))"
      by (rule progress_add_elem [OF b(2,3) fit b(6)]) (simp only: v drop_line)
    then show ?thesis using v(1) b(4) le by (simp add: parse_string_def Let_def crlf_def)
  next
    assume "length s < length b + 2" "t \<noteq> []"
    then show ?thesis
      using progress_wait [OF assms(2)] b(4) le by (simp add: parse_string_def)
  qed
qed

lemma progress_bulk_length:
  assumes "m_parseState st = REDIS_PARSE_LENGTH" "\<not> m_valid st"
    and "is_bulk e" "elems_fit L st (e # es)" "out = push_elems (e # es) (reply st)"
    and "m_doneNum st + 1 + int (length es) = m_arrayNum st"
    and st: "s @ t = tl (enc_elem e) @ enc_elems es"
  shows "progress L st out t (parse_bulk_length st s)"
proof -
  have wait: "\<not> L \<Longrightarrow> expects L (st\<lparr> haveArray := False \<rparr>) out (s @ t)"
    using assms by (auto simp: expects_def exp_length_def elems_fit_def)
  have fit: "elems_fit L (st\<lparr> m_arrayLen := n \<rparr>) es" for n
    using assms(4) by (auto simp: elems_fit_def)
  show ?thesis
  proof (cases e rule: enc_elem.cases)
    case 1
    with st have "s @ t = show_int (-1) @ crlf @ enc_elems es" by (simp add: nil_line_line)
    from this show_int_line_ok show ?thesis
    proof (cases rule: line_cases)
      case (whole v)
      have m1: "in_int32 (-1)" by (simp add: in_int32_def int32_min_def int32_max_def)
      have "progress L st out t (Inr (Next (add_elem (elem_info e) (st\<lparr> m_arrayLen := -1 \<rparr>))
          (drop (Suc (length (show_int (-1)))) s)))"
        by (rule progress_add_elem [OF _ _ fit])
          (use assms whole(2) in \<open>simp_all only: whole(1) drop_line, simp_all\<close>)
      then show ?thesis using whole(1,3) m1 1
        by (simp add: parse_bulk_length_def line_to_buf_int atoi_show_int Let_def)
    next
      case part
      then show ?thesis using wait by (simp add: progress_def parse_bulk_length_def)
    qed
  next
    case (2 b)
    then have le: "int (length b) + 2 \<le> int32_max" using assms(4) by (simp add: elems_fit_def)
    from st 2 have "s @ t = show_nat (length b) @ crlf @ (b @ crlf @ enc_elems es)" by simp
    from this show_nat_line_ok show ?thesis
    proof (cases rule: line_cases)
      case (whole v)
      have "expects L (st\<lparr> m_arrayLen := int (length b), m_parseState := REDIS_PARSE_STRING \<rparr>) out (v @ t)"
        using assms 2 by (auto simp: expects_def exp_string_def elems_fit_def whole(2) [symmetric])
      then show ?thesis using whole(1,3) le
        by (simp add: parse_bulk_length_def line_to_buf_nat atoi_show_nat Let_def progress_def
            drop_line)
    next
      case part
      then show ?thesis using wait by (simp add: progress_def parse_bulk_length_def)
    qed
  next
    case (3 l)
    then show ?thesis using assms(3) by simp
  qed
qed

lemma hd_append_eq: "s @ t = u @ v \<Longrightarrow> s \<noteq> [] \<Longrightarrow> u \<noteq> [] \<Longrightarrow> hd s = hd u"
  by (metis hd_append2)

lemma progress_line_elem:
  assumes "\<not> m_valid st" "L" "elems_fit L st (ELine l # es)"
    "out = push_elems (ELine l # es) (reply st)"
    "m_doneNum st + 1 + int (length es) = m_arrayNum st" "s @ t = l @ crlf @ enc_elems es"
  shows "progress L st out t (parse_line_elem st s)"
proof -
  have l: "line_ok l" "l \<noteq> []" and fit: "elems_fit L st es"
    using assms(3) by (auto simp: elems_fit_def line_elem_ok_def)
  from assms(6) l(1) show ?thesis
  proof (cases rule: line_cases)
    case (whole v)
    have "progress L st out t (Inr (Next (add_elem (elem_info (ELine l)) st) (drop (Suc (length l)) s)))"
      by (rule progress_add_elem [OF assms(4,5) fit assms(1)])
        (simp only: whole drop_line)
    then show ?thesis using whole(1,3) l(2) by (simp add: parse_line_elem_def)
  next
    case part
    then show ?thesis using assms(2) by (simp add: progress_def parse_line_elem_def)
  qed
qed

lemma hd_tl_enc_bulk:
  "is_bulk e \<Longrightarrow> hd (tl (enc_elem e)) \<noteq> CHR ''$''"
proof (cases e rule: enc_elem.cases)
  case (2 b)
  obtain c s where "show_nat (length b) = c # s" "is_digit c" by (rule show_nat_Cons)
  with 2 show ?thesis by auto
qed (simp_all add: nil_line_def)

lemma progress_length:
  assumes "m_parseState st = REDIS_PARSE_LENGTH" "expects L st out (s @ t)" "s \<noteq> []"
  shows "progress L st out t (parse_length st s)"
proof -
  from assms obtain e es where nv: "\<not> m_valid st" and e: "elems_fit L st (e # es)"
    "out = push_elems (e # es) (reply st)" "m_doneNum st + 1 + int (length es) = m_arrayNum st"
    and alt: "s @ t = enc_elem e @ enc_elems es
      \<or> is_bulk e \<and> \<not> haveArray st \<and> s @ t = tl (enc_elem e) @ enc_elems es"
    by (auto simp: expects_def exp_length_def)
  note bulk = progress_bulk_length [OF assms(1) nv _ e]
  show ?thesis
  proof (cases e)
    case (ELine l)
    then have l: "line_elem_ok l" "L" "haveArray st" using e(1) by (auto simp: elems_fit_def)
    have st: "s @ t = l @ crlf @ enc_elems es" using alt ELine by simp
    have "hd s = hd l" using hd_append_eq [OF st assms(3)] l(1) by (simp add: line_elem_ok_def)
    then have "parse_length st s = parse_line_elem st s"
      using l by (simp add: parse_length_def line_elem_ok_def)
    then show ?thesis
      using progress_line_elem [OF nv l(2) e [unfolded ELine] st] by simp
  next
    case (EBulk b)
    then have ib: "is_bulk e" by simp
    from alt show ?thesis
    proof
      assume st: "s @ t = enc_elem e @ enc_elems es"
      have d: "hd (enc_elem e) = CHR ''$''" using EBulk by (cases b) simp_all
      have "hd s = CHR ''$''" using hd_append_eq [OF st assms(3)] d by simp
      moreover have "tl s @ t = tl (enc_elem e) @ enc_elems es"
        using st assms(3) by (metis enc_elem_not_Nil tl_append2)
      ultimately show ?thesis using bulk [OF ib] by (simp add: parse_length_def)
    next
      assume st: "is_bulk e \<and> \<not> haveArray st \<and> s @ t = tl (enc_elem e) @ enc_elems es"
      then have "hd s \<noteq> CHR ''$''"
        using hd_append_eq [of s t "tl (enc_elem e)"] hd_tl_enc_bulk [OF ib] assms(3)
          tl_enc_bulk_not_Nil [OF ib] by metis
      then show ?thesis using bulk [OF ib] st by (simp add: parse_length_def)
    qed
  qed
qed

lemma progress_type:
  assumes "m_parseState st = REDIS_PARSE_TYPE" "expects L st out (s @ t)" "s \<noteq> []"
  shows "progress L st out t (parse_type st s)"
proof -
  from assms obtain r where r: "resp_ok r" "L \<or> resp_bulks r" "s @ t = enc_resp r" "out = reply_of r"
    and nv: "\<not> m_valid st" and d: "m_doneNum st = 0" and re: "reply st = empty_reply"
    and h: "\<not> haveArray st"
    by (auto simp: expects_def exp_type_def)
  have hd: "hd s = hd (enc_resp r)" using r(3) assms(3) by (metis hd_append2)
  have tl: "tl s @ t = tl (enc_resp r)" using r(3) assms(3) by (metis tl_append2)
  note defs = progress_def parse_type_def expects_def Let_def nv d re h tl
  show ?thesis
  proof (cases r)
    case (RStatus l)
    with r hd show ?thesis by (auto simp: defs exp_result_def)
  next
    case (RError l)
    with r hd show ?thesis by (auto simp: defs exp_result_def)
  next
    case (RInt i)
    with r hd show ?thesis by (auto simp: defs exp_integer_def)
  next
    case (RBulk b)
    then have "hd s = CHR ''$''" using hd by (cases b) simp_all
    moreover have "elems_fit L st [EBulk b]" using r(1) RBulk by (simp add: elems_fit_def)
    ultimately show ?thesis using r(4) RBulk
      by (auto simp: defs exp_length_def push_elems_def empty_reply_def elems_fit_def)
  next
    case (RArray es)
    with r hd show ?thesis
      by (auto simp: defs exp_arraylength_def push_elems_def empty_reply_def)
  next
    case RNilArray
    with r hd show ?thesis by (auto simp: defs exp_arraylength_def)
  qed
qed

lemmas progress_states = progress_type progress_integer progress_result progress_arraylength
  progress_length progress_string

lemma progress_step:
  assumes "expects L st out (s @ t)" "s \<noteq> []"
  shows "progress L st out t (parse_step st s)"
proof -
  have "m_parseState st \<in> {REDIS_PARSE_TYPE, REDIS_PARSE_INTEGER, REDIS_PARSE_RESULT,
      REDIS_PARSE_ARRAYLENGTH, REDIS_PARSE_LENGTH, REDIS_PARSE_STRING}"
    using assms(1) by (auto simp: expects_def split: parse_state.splits)
  then show ?thesis using progress_states [OF _ assms(1)] assms(2)
    by (auto simp: parse_step_def)
qed

section \<open>The loop, and the receive loop\<close>

text \<open>\<open>parse_loop\<close> on what has arrived completes the reply, or stops with a state and a
  tail that expect the rest.\<close>

lemma parse_step_check_length:
  "parse_step st s = Inr (CheckBuf st' s') \<Longrightarrow> length s' \<le> length s"
  by (auto simp: parse_step_def parse_type_def parse_integer_def parse_result_def parse_length_def
      parse_bulk_length_def parse_line_elem_def parse_string_def parse_arraylength_def Let_def
      res_simps split: parse_state.splits if_splits option.splits)

lemma parse_loop_progress:
  assumes "expects L st out (s @ t)" "s \<noteq> []"
  shows "\<exists>st' s'. parse_loop st s = Inr (st', s', True) \<and>
     (m_valid st' \<and> reply st' = out \<and> t = []
      \<or> \<not> m_valid st' \<and> t \<noteq> [] \<and> length s' \<le> length s
        \<and> (\<not> L \<longrightarrow> expects L (st'\<lparr> haveArray := False \<rparr>) out (s' @ t)))"
  using assms
proof (induction st s rule: parse_loop.induct)
  case (1 st s)
  have pr: "progress L st out t (parse_step st s)" by (rule progress_step [OF 1(2,3)])
  show ?case
  proof (cases "parse_step st s")
    case (Inl f)
    with pr show ?thesis by (simp add: progress_def)
  next
    case (Inr x)
    show ?thesis
    proof (cases x)
      case (Next st' s')
      have len: "length (tl s') \<le> length s"
        using parse_step_length [of st s st' s'] Inr Next by simp
      have loop: "parse_loop st s = parse_loop st' (tl s')"
        using Inr Next 1(3) by (subst parse_loop.simps) simp
      from pr Inr Next consider (fin) "m_valid st'" "reply st' = out" "tl s' = []" "t = []"
        | (more) "expects L st' out (tl s' @ t)"
        by (auto simp: progress_def)
      then show ?thesis
      proof cases
        case fin
        then show ?thesis using loop by (simp add: parse_loop.simps)
      next
        case more
        show ?thesis
        proof (cases "tl s' = []")
          case True
          have "t \<noteq> []" using more True expects_not_Nil by auto
          moreover have "\<not> m_valid st'" using more by (simp add: expects_def)
          moreover have "\<not> L \<Longrightarrow> expects L (st'\<lparr> haveArray := False \<rparr>) out t"
            using more True expects_forget by auto
          ultimately show ?thesis using loop True by (simp add: parse_loop.simps)
        next
          case False
          from 1(1) [OF 1(3) Inr Next more False] loop len show ?thesis by fastforce
        qed
      qed
    next
      case (CheckBuf st' s')
      then have "parse_loop st s = Inr (st', s', True)"
        using Inr 1(3) by (subst parse_loop.simps) simp
      moreover have "length s' \<le> length s"
        using parse_step_check_length [of st s st' s'] Inr CheckBuf by simp
      moreover have "\<not> m_valid st" using 1(2) by (simp add: expects_def)
      ultimately show ?thesis using pr Inr CheckBuf by (simp add: progress_def)
    next
      case (RetFalse st')
      with pr Inr show ?thesis by (simp add: progress_def)
    qed
  qed
qed

definition awaits :: "bool \<Rightarrow> parser \<Rightarrow> RedisReplyInfo \<Rightarrow> bytes \<Rightarrow> bool" where
  "awaits L st out s \<longleftrightarrow> expects L
     ((if m_parseState st = REDIS_PARSE_UNKNOWN_STATE then st\<lparr> m_parseState := REDIS_PARSE_TYPE \<rparr>
       else st)\<lparr> haveArray := False \<rparr>) out s"

lemma awaits_known:
  "expects L (st\<lparr> haveArray := False \<rparr>) out s \<Longrightarrow> awaits L (st\<lparr> m_unparse := u \<rparr>) out s"
  by (auto simp: awaits_def expects_def exp_type_def exp_integer_def exp_result_def
      exp_arraylength_def exp_length_def exp_string_def elems_fit_def split: parse_state.splits)

lemma awaits_init:
  "resp_ok r \<Longrightarrow> L \<or> resp_bulks r \<Longrightarrow> awaits L (recv_init empty_reply) (reply_of r) (enc_resp r)"
  by (auto simp: awaits_def recv_init_def expects_def exp_type_def)

lemma awaits_not_valid: "awaits L st out s \<Longrightarrow> \<not> m_valid st"
  by (auto simp: awaits_def expects_def split: if_splits)

lemma awaits_unparse: "awaits L (st\<lparr> m_unparse := u \<rparr>) out s = awaits L st out s"
  by (auto simp: awaits_def expects_def exp_type_def exp_integer_def exp_result_def
      exp_arraylength_def exp_length_def exp_string_def elems_fit_def split: parse_state.splits)

lemma parse_step_unparse:
  "parse_step st s = Inr (Next st' s') \<Longrightarrow> m_unparse st' = m_unparse st"
  "parse_step st s = Inr (CheckBuf st' s') \<Longrightarrow> m_unparse st' = m_unparse st"
  "parse_step st s = Inr (RetFalse st') \<Longrightarrow> m_unparse st' = m_unparse st"
  by (auto simp: parse_step_def parse_type_def parse_integer_def parse_result_def parse_length_def
      parse_bulk_length_def parse_line_elem_def parse_string_def parse_arraylength_def Let_def
      add_elem_def res_simps split: parse_state.splits if_splits option.splits)

lemma parse_loop_unparse:
  "parse_loop st s = Inr (st', s', ok) \<Longrightarrow> m_unparse st' = m_unparse st"
proof (induction st s rule: parse_loop.induct)
  case (1 st s)
  from 1(2) show ?case
    by (subst (asm) parse_loop.simps)
      (auto split: if_splits sum.splits outcome.splits
        simp: parse_step_unparse dest: 1(1) parse_step_unparse)
qed

text \<open>One call of \<open>parse\<close> on the saved tail and the new bytes.\<close>

lemma parse_progress:
  assumes "awaits L st out (s @ t)" "s \<noteq> []" "m_unparse st = []"
  shows "\<exists>st'. parse st s = Inr (st', True) \<and>
     (m_valid st' \<and> reply st' = out \<and> t = []
      \<or> \<not> m_valid st' \<and> t \<noteq> [] \<and> length (m_unparse st') \<le> length s
        \<and> (\<not> L \<longrightarrow> awaits L st' out (m_unparse st' @ t)))"
proof -
  define st0 where "st0 = (if m_parseState st = REDIS_PARSE_UNKNOWN_STATE
      then st\<lparr> m_parseState := REDIS_PARSE_TYPE \<rparr> else st)\<lparr> haveArray := False \<rparr>"
  from parse_loop_progress [of L st0 out s t] assms(1,2) obtain st1 s1 where
    l: "parse_loop st0 s = Inr (st1, s1, True)" and
    alt: "m_valid st1 \<and> reply st1 = out \<and> t = [] \<or> \<not> m_valid st1 \<and> t \<noteq> [] \<and> length s1 \<le> length s
        \<and> (\<not> L \<longrightarrow> expects L (st1\<lparr> haveArray := False \<rparr>) out (s1 @ t))"
    by (auto simp: awaits_def st0_def)
  have u: "m_unparse st1 = []"
    using parse_loop_unparse [OF l] assms(3) by (simp add: st0_def)
  have p: "parse st s = Inr (check_buf st1 s1, True)"
    using l by (simp add: parse_def Let_def st0_def split: if_splits)
  from alt show ?thesis
  proof (elim disjE conjE)
    assume "m_valid st1" "reply st1 = out" "t = []"
    then show ?thesis using p by (simp add: check_buf_def)
  next
    assume a: "\<not> m_valid st1" "t \<noteq> []" "length s1 \<le> length s"
      "\<not> L \<longrightarrow> expects L (st1\<lparr> haveArray := False \<rparr>) out (s1 @ t)"
    have "check_buf st1 s1 = st1\<lparr> m_unparse := s1 \<rparr>"
      using a(1) u by (simp add: check_buf_def)
    then show ?thesis using p a awaits_known by simp
  qed
qed

text \<open>The receive loop, however the reply is cut into reads.\<close>

lemma recv_buf_ok:
  assumes "length (m_unparse st) < nat m" "REDIS_READ_BUFF_SIZE \<le> nat m"
    and "length d < REDIS_READ_BUFF_SIZE" "length (m_unparse st @ d) < 2 ^ 30"
  shows "\<exists>m'. recv_buf m st d = Inr (m', st\<lparr> m_unparse := [] \<rparr>, m_unparse st @ d)
     \<and> length (m_unparse st @ d) < nat m' \<and> REDIS_READ_BUFF_SIZE \<le> nat m'"
proof (cases "m_unparse st = []")
  case True
  then have "st\<lparr> m_unparse := [] \<rparr> = st" by simp
  with True show ?thesis using assms by (auto simp: recv_buf_def Let_def)
next
  case False
  then show ?thesis using assms
    by (auto simp: recv_buf_def Let_def int32_max_def REDIS_READ_BUFF_SIZE_def)
qed

lemma recv_loop_split:
  assumes "awaits False st out (m_unparse st @ concat ds)" "ds \<noteq> []"
    and "\<forall>d \<in> set ds. d \<noteq> [] \<and> length d < REDIS_READ_BUFF_SIZE"
    and "length (m_unparse st) < nat m" "REDIS_READ_BUFF_SIZE \<le> nat m"
    and "length (m_unparse st @ concat ds) < 2 ^ 30"
  shows "\<exists>st'. recv_loop parse m st (map Some ds @ later) = Inr (st', True, later)
     \<and> reply st' = out"
  using assms
proof (induction ds arbitrary: st m)
  case (Cons d ds)
  have nv: "\<not> m_valid st" using Cons.prems(1) by (rule awaits_not_valid)
  let ?s = "m_unparse st @ d" and ?st = "st\<lparr> m_unparse := [] \<rparr>"
  obtain m' where m': "recv_buf m st d = Inr (m', ?st, ?s)" "length ?s < nat m'"
    "REDIS_READ_BUFF_SIZE \<le> nat m'"
    using recv_buf_ok [of st m d] Cons.prems by auto
  have "awaits False ?st out (?s @ concat ds)" "?s \<noteq> []"
    using Cons.prems(1,3) by (auto simp: awaits_unparse)
  from parse_progress [OF this] obtain st' where p: "parse ?st ?s = Inr (st', True)"
    and alt: "m_valid st' \<and> reply st' = out \<and> concat ds = []
      \<or> \<not> m_valid st' \<and> concat ds \<noteq> [] \<and> length (m_unparse st') \<le> length ?s
        \<and> awaits False st' out (m_unparse st' @ concat ds)" by auto
  have loop: "recv_loop parse m st (map Some (d # ds) @ later) = recv_loop parse m' st' (map Some ds @ later)"
    using nv m'(1) p by simp
  from alt show ?case
  proof (elim disjE conjE)
    assume a: "m_valid st'" "reply st' = out" "concat ds = []"
    then have "ds = []" using Cons.prems(3) by (cases ds) auto
    then show ?thesis using a loop by (cases later) auto
  next
    assume a: "\<not> m_valid st'" "concat ds \<noteq> []" "length (m_unparse st') \<le> length ?s"
      "awaits False st' out (m_unparse st' @ concat ds)"
    then have "ds \<noteq> []" by auto
    moreover have "length (m_unparse st') < nat m'" using a(3) m'(2) by simp
    moreover have "length (m_unparse st' @ concat ds) < 2 ^ 30"
      using a(3) Cons.prems(6) by simp
    ultimately show ?thesis
      unfolding loop using Cons.IH a(4) m'(3) Cons.prems(3) by simp
  qed
qed simp

text \<open>A reply that the network cuts anywhere, and one that comes in one read.\<close>

lemma recv_split:
  assumes "resp_ok r" "resp_bulks r" "concat ds = enc_resp r" "length (enc_resp r) < 2 ^ 30"
    and "\<forall>d \<in> set ds. d \<noteq> [] \<and> length d < REDIS_READ_BUFF_SIZE"
  shows "recv empty_reply (map Some ds @ later) = Inr (reply_of r, True, later)"
proof -
  let ?st = "recv_init empty_reply"
  have u: "m_unparse ?st = []" by (simp add: recv_init_def)
  have "ds \<noteq> []" using assms(3) by auto
  then have "\<exists>st'. recv_loop parse (int REDIS_READ_BUFF_SIZE) ?st (map Some ds @ later)
      = Inr (st', True, later) \<and> reply st' = reply_of r"
    using assms awaits_init [of r False]
    by (intro recv_loop_split) (simp_all add: u REDIS_READ_BUFF_SIZE_def)
  then show ?thesis by (auto simp: recv_def)
qed

lemma recv_whole:
  assumes "resp_ok r" "length (enc_resp r) < REDIS_READ_BUFF_SIZE"
  shows "recv empty_reply (Some (enc_resp r) # later) = Inr (reply_of r, True, later)"
proof -
  let ?st = "recv_init empty_reply"
  have "\<exists>st'. parse ?st (enc_resp r) = Inr (st', True) \<and> m_valid st' \<and> reply st' = reply_of r"
    using parse_progress [of True ?st "reply_of r" "enc_resp r" "[]"] awaits_init [of r True] assms(1)
    by (simp add: recv_init_def)
  then obtain st' where p: "parse ?st (enc_resp r) = Inr (st', True)" "m_valid st'"
    "reply st' = reply_of r" by blast
  have "recv_buf (int REDIS_READ_BUFF_SIZE) ?st (enc_resp r)
      = Inr (int REDIS_READ_BUFF_SIZE, ?st, enc_resp r)"
    using assms(2) by (simp add: recv_buf_def recv_init_def Let_def REDIS_READ_BUFF_SIZE_def)
  moreover have "\<not> m_valid ?st" by (simp add: recv_init_def)
  ultimately show ?thesis using p by (cases later) (simp_all add: recv_def)
qed

section \<open>Properties\<close>



text \<open>
  C25. A reply that arrives in one read is parsed exactly, also when its array
  holds status, error and integer lines, as the reply to EXEC does.
\<close>

theorem recv_one_read:
  assumes "resp_ok r" "length (enc_resp r) < REDIS_READ_BUFF_SIZE"
  shows "recv empty_reply (Some (enc_resp r) # later) = Inr (reply_of r, True, later)"
  using assms by (rule recv_whole)

theorem recv_one_read_witness:
  "recv empty_reply [Some (enc_resp (RArray [ELine ''+OK'', ELine '':1'']))]
   = Inr (reply_of (RArray [ELine ''+OK'', ELine '':1'']), True, [])"
  by (rule recv_one_read)
    (simp_all add: line_elem_ok_def line_ok_def int32_max_def REDIS_READ_BUFF_SIZE_def crlf_def
      show_nat.simps)


end
