(* ===== verification/Redis_Scan.thy ===== *)
theory Redis_Scan
  imports Redis_Reply
begin

text \<open>
  The parser of SCAN replies, \<open>parseScanReply\<close> of \<open>redisconnection.cpp\<close>: the new
  cursor and the keys of one batch.  It shares the members and the receive loop of
  the common parser, but each of its branches moves the pointer itself, and an
  ill-formed reply ends the reception with \<open>m_valid\<close> set.
\<close>

section \<open>The parser\<close>

datatype scan_outcome = SNext parser bytes | SCheckBuf parser bytes | SReturn parser bool

definition scan_buf_size :: nat where
  "scan_buf_size = 256"

definition scan_error :: "parser \<Rightarrow> scan_outcome res" where
  "scan_error st = Inr (SReturn (st\<lparr> m_valid := True \<rparr>) False)"

text \<open>The line up to CRLF, copied into \<open>buf\<close>, or a wait for it.\<close>

definition scan_line :: "parser \<Rightarrow> bytes \<Rightarrow> (string \<Rightarrow> bytes \<Rightarrow> scan_outcome res) \<Rightarrow> scan_outcome res" where
  "scan_line st s k =
     (case strstr_crlf s of
        None \<Rightarrow> Inr (SCheckBuf st s)
      | Some p \<Rightarrow> res_bind (line_to_buf scan_buf_size (take p s)) (\<lambda>buf. k buf (drop (p + 2) s)))"

definition scan_type :: "parser \<Rightarrow> bytes \<Rightarrow> scan_outcome res" where
  "scan_type st s =
     (let r = (\<lambda>t. (reply st)\<lparr> replyType := t \<rparr>) in
      if hd s = CHR ''-'' then
        Inr (SNext (st\<lparr> m_parseState := REDIS_PARSE_RESULT, reply := r REDIS_REPLY_ERROR \<rparr>) (tl s))
      else if hd s = CHR ''*'' then
        Inr (SNext (st\<lparr> m_parseState := REDIS_PARSE_ARRAYLENGTH, reply := r REDIS_REPLY_ARRAY \<rparr>) (tl s))
      else scan_error st)"

definition scan_result :: "parser \<Rightarrow> bytes \<Rightarrow> scan_outcome res" where
  "scan_result st s = scan_line st s (\<lambda>buf _.
     Inr (SReturn (st\<lparr> reply := (reply st)\<lparr> resultString := buf \<rparr>, m_valid := True \<rparr>) True))"

definition scan_arraylength :: "parser \<Rightarrow> bytes \<Rightarrow> scan_outcome res" where
  "scan_arraylength st s = scan_line st s (\<lambda>buf s.
     if atoi buf \<noteq> 2 then scan_error st
     else Inr (SNext (st\<lparr> m_parseState := REDIS_PARSE_CURSORLEN \<rparr>) s))"

definition scan_cursorlen :: "parser \<Rightarrow> bytes \<Rightarrow> scan_outcome res" where
  "scan_cursorlen st s =
     (if hd s \<noteq> CHR ''$'' then scan_error st
      else scan_line st (tl s) (\<lambda>buf s.
        if atoi buf < 0 then scan_error st
        else Inr (SNext (st\<lparr> m_parseState := REDIS_PARSE_CURSOR \<rparr>) s)))"

definition scan_cursor :: "parser \<Rightarrow> bytes \<Rightarrow> scan_outcome res" where
  "scan_cursor st s = scan_line st s (\<lambda>buf s.
     if atoi buf < 0 then scan_error st
     else Inr (SNext (st\<lparr> m_parseState := REDIS_PARSE_KEYSLEN,
                          reply := (reply st)\<lparr> intValue := atoi buf \<rparr> \<rparr>) s))"

definition scan_keyslen :: "parser \<Rightarrow> bytes \<Rightarrow> scan_outcome res" where
  "scan_keyslen st s =
     (if hd s \<noteq> CHR ''*'' then scan_error st
      else scan_line st (tl s) (\<lambda>buf s.
        let st = st\<lparr> m_arrayNum := atoi buf \<rparr> in
        if m_arrayNum st < 0 then scan_error st
        else if m_arrayNum st = 0 then Inr (SReturn (st\<lparr> m_valid := True \<rparr>) True)
        else Inr (SNext (st\<lparr> m_parseState := REDIS_PARSE_KEYLEN \<rparr>) s)))"

definition scan_keylen :: "parser \<Rightarrow> bytes \<Rightarrow> scan_outcome res" where
  "scan_keylen st s =
     (if hd s \<noteq> CHR ''$'' then scan_error st
      else scan_line st (tl s) (\<lambda>buf s.
        if atoi buf < 0 then scan_error st
        else Inr (SNext (st\<lparr> m_parseState := REDIS_PARSE_KEY \<rparr>) s)))"

definition scan_key :: "parser \<Rightarrow> bytes \<Rightarrow> scan_outcome res" where
  "scan_key st s = scan_line st s (\<lambda>buf s.
     let e = \<lparr> elemType = REDIS_REPLY_STRING, arrayValue = Some buf, arrayLen = int (length buf) \<rparr>;
         st = st\<lparr> reply := (reply st)\<lparr> arrayList := arrayList (reply st) @ [e] \<rparr>,
                  m_doneNum := m_doneNum st + 1 \<rparr> in
     if m_doneNum st < m_arrayNum st then Inr (SNext (st\<lparr> m_parseState := REDIS_PARSE_KEYLEN \<rparr>) s)
     else Inr (SReturn (st\<lparr> m_valid := True \<rparr>) True))"

definition scan_step :: "parser \<Rightarrow> bytes \<Rightarrow> scan_outcome res" where
  "scan_step st s =
     (case m_parseState st of
        REDIS_PARSE_TYPE \<Rightarrow> scan_type st s
      | REDIS_PARSE_RESULT \<Rightarrow> scan_result st s
      | REDIS_PARSE_ARRAYLENGTH \<Rightarrow> scan_arraylength st s
      | REDIS_PARSE_CURSORLEN \<Rightarrow> scan_cursorlen st s
      | REDIS_PARSE_CURSOR \<Rightarrow> scan_cursor st s
      | REDIS_PARSE_KEYSLEN \<Rightarrow> scan_keyslen st s
      | REDIS_PARSE_KEYLEN \<Rightarrow> scan_keylen st s
      | REDIS_PARSE_KEY \<Rightarrow> scan_key st s
      | _ \<Rightarrow> scan_error st)"

lemma scan_line_length:
  assumes "scan_line st s k = Inr (SNext st' s')"
    and "\<And>buf u. k buf u = Inr (SNext st' s') \<Longrightarrow> length s' \<le> length u"
  shows "length s' < length s"
proof -
  from assms(1) obtain p buf where p: "strstr_crlf s = Some p" "k buf (drop (p + 2) s) = Inr (SNext st' s')"
    by (auto simp: scan_line_def res_simps split: option.splits)
  from assms(2) [OF p(2)] strstr_crlf_bound [OF p(1)] show ?thesis by simp
qed

lemma scan_step_length:
  assumes "scan_step st s = Inr (SNext st' s')" "s \<noteq> []"
  shows "length s' < length s"
proof -
  have "length (tl s) < length s" using assms(2) by (cases s) simp_all
  then show ?thesis using assms(1)
    by (auto simp: scan_step_def scan_type_def scan_result_def scan_arraylength_def
        scan_cursorlen_def scan_cursor_def scan_keyslen_def scan_keylen_def scan_key_def
        scan_error_def Let_def
        split: parse_state.splits if_splits dest!: scan_line_length intro: less_trans)
qed

function scan_loop :: "parser \<Rightarrow> bytes \<Rightarrow> (parser \<times> bytes \<times> bool) res" where
  "scan_loop st s =
     (if s = [] then Inr (st, [], True)
      else case scan_step st s of
        Inl f \<Rightarrow> Inl f
      | Inr (SNext st' s') \<Rightarrow> scan_loop st' s'
      | Inr (SCheckBuf st' s') \<Rightarrow> Inr (st', s', True)
      | Inr (SReturn st' ok) \<Rightarrow> Inr (st', [], ok))"
  by pat_completeness auto
termination
  by (relation "measure (\<lambda>(st, s). length s)") (auto intro: scan_step_length)

declare scan_loop.simps [simp del]

definition parseScanReply :: "parser \<Rightarrow> bytes \<Rightarrow> (parser \<times> bool) res" where
  "parseScanReply st s =
     (let st = (if m_parseState st = REDIS_PARSE_UNKNOWN_STATE
                then st\<lparr> m_parseState := REDIS_PARSE_TYPE \<rparr> else st) in
      res_bind (scan_loop st s) (\<lambda>(st, s, ok). Inr (check_buf st s, ok)))"

definition recv_scan :: "RedisReplyInfo \<Rightarrow> bytes option list
    \<Rightarrow> (RedisReplyInfo \<times> bool \<times> bytes option list) res" where
  "recv_scan r reads =
     res_bind (recv_loop parseScanReply (int REDIS_READ_BUFF_SIZE) (recv_init r) reads)
       (\<lambda>(st, ok, reads). Inr (reply st, ok, reads))"

section \<open>SCAN replies in one read\<close>

definition enc_scan :: "nat \<Rightarrow> string list \<Rightarrow> bytes" where
  "enc_scan cursor keys = ''*2'' @ crlf @ enc_bulk (show_nat cursor)
     @ ''*'' @ show_nat (length keys) @ crlf @ concat (map enc_bulk keys)"

definition scan_key_ok :: "string \<Rightarrow> bool" where
  "scan_key_ok k \<longleftrightarrow> line_ok k \<and> length k < scan_buf_size"

definition scan_reply :: "nat \<Rightarrow> string list \<Rightarrow> RedisReplyInfo" where
  "scan_reply cursor keys = empty_reply\<lparr> replyType := REDIS_REPLY_ARRAY, intValue := int cursor,
     arrayList := map (\<lambda>k. elem_info (EBulk (Some k))) keys \<rparr>"

lemma scan_line_whole:
  "line_ok l \<Longrightarrow> length l < scan_buf_size \<Longrightarrow> scan_line st (l @ crlf @ u) k = k l u"
  by (simp add: scan_line_def strstr_crlf_line line_to_buf_def) (simp add: crlf_def)

lemma scan_line_nat:
  "int n \<le> int32_max \<Longrightarrow> scan_line st (show_nat n @ crlf @ u) k = k (show_nat n) u"
  using show_nat_length_int32 [of n] by (intro scan_line_whole) (simp_all add: scan_buf_size_def)

lemma scan_loop_next:
  "scan_step st s = Inr (SNext st' s') \<Longrightarrow> s \<noteq> [] \<Longrightarrow> scan_loop st s = scan_loop st' s'"
  by (subst scan_loop.simps) simp

lemma scan_loop_return:
  "scan_step st s = Inr (SReturn st' ok) \<Longrightarrow> s \<noteq> [] \<Longrightarrow> scan_loop st s = Inr (st', [], ok)"
  by (subst scan_loop.simps) simp

lemma scan_key_size: "scan_key_ok k \<Longrightarrow> int (length k) \<le> int32_max"
  by (simp add: scan_key_ok_def scan_buf_size_def int32_max_def)

text \<open>The length line of a key leads to the key.\<close>

lemma scan_loop_keylen:
  assumes "m_parseState st = REDIS_PARSE_KEYLEN" "scan_key_ok k"
  shows "scan_loop st (enc_bulk k @ u) = scan_loop (st\<lparr> m_parseState := REDIS_PARSE_KEY \<rparr>) (k @ crlf @ u)"
  using assms scan_key_size [of k]
  by (intro scan_loop_next)
    (simp_all add: scan_step_def scan_keylen_def enc_bulk_def scan_line_nat atoi_show_nat)

lemma scan_loop_keys:
  assumes "m_parseState st = REDIS_PARSE_KEYLEN" "keys \<noteq> []" "list_all scan_key_ok keys"
    and "m_doneNum st + int (length keys) = m_arrayNum st"
  shows "\<exists>st'. scan_loop st (concat (map enc_bulk keys)) = Inr (st', [], True) \<and> m_valid st'
     \<and> reply st' = push_elems (map (\<lambda>k. EBulk (Some k)) keys) (reply st)"
  using assms
proof (induction keys arbitrary: st)
  case (Cons k keys)
  let ?u = "concat (map enc_bulk keys)" and ?st = "st\<lparr> m_parseState := REDIS_PARSE_KEY \<rparr>"
  define st1 where "st1 = ?st\<lparr> reply := push_elems [EBulk (Some k)] (reply st),
      m_doneNum := m_doneNum st + 1 \<rparr>"
  have k: "line_ok k" "length k < scan_buf_size" "scan_key_ok k"
    using Cons.prems(3) by (simp_all add: scan_key_ok_def)
  have step: "scan_step ?st (k @ crlf @ ?u) =
      (if m_doneNum st1 < m_arrayNum st1 then Inr (SNext (st1\<lparr> m_parseState := REDIS_PARSE_KEYLEN \<rparr>) ?u)
       else Inr (SReturn (st1\<lparr> m_valid := True \<rparr>) True))"
    by (simp add: scan_step_def scan_key_def scan_line_whole k(1,2) Let_def st1_def push_elems_def)
  have loop: "scan_loop st (concat (map enc_bulk (k # keys))) = scan_loop ?st (k @ crlf @ ?u)"
    using scan_loop_keylen [OF Cons.prems(1) k(3), of ?u] by simp
  show ?case
  proof (cases "keys = []")
    case True
    then have "scan_step ?st (k @ crlf @ ?u) = Inr (SReturn (st1\<lparr> m_valid := True \<rparr>) True)"
      using step Cons.prems(4) by (simp add: st1_def)
    from scan_loop_return [OF this] loop True show ?thesis
      by (simp add: crlf_def st1_def push_elems_def)
  next
    case False
    then have "scan_step ?st (k @ crlf @ ?u)
        = Inr (SNext (st1\<lparr> m_parseState := REDIS_PARSE_KEYLEN \<rparr>) ?u)"
      using step Cons.prems(4) by (cases keys) (simp_all add: st1_def)
    from scan_loop_next [OF this] have "scan_loop ?st (k @ crlf @ ?u)
        = scan_loop (st1\<lparr> m_parseState := REDIS_PARSE_KEYLEN \<rparr>) ?u" by (simp add: crlf_def)
    moreover have "m_doneNum (st1\<lparr> m_parseState := REDIS_PARSE_KEYLEN \<rparr>) + int (length keys)
        = m_arrayNum (st1\<lparr> m_parseState := REDIS_PARSE_KEYLEN \<rparr>)"
      using Cons.prems(4) by (simp add: st1_def)
    ultimately show ?thesis
      using Cons.IH [of "st1\<lparr> m_parseState := REDIS_PARSE_KEYLEN \<rparr>"] False Cons.prems(3) loop
      by (simp add: st1_def push_elems_def)
  qed
qed simp

text \<open>From the key count on.\<close>

lemma scan_loop_keyslen:
  assumes "m_parseState st = REDIS_PARSE_KEYSLEN" "m_doneNum st = 0" "list_all scan_key_ok keys"
    and "int (length keys) \<le> int32_max"
  shows "\<exists>st'. scan_loop st (''*'' @ show_nat (length keys) @ crlf @ concat (map enc_bulk keys))
      = Inr (st', [], True) \<and> m_valid st'
     \<and> reply st' = push_elems (map (\<lambda>k. EBulk (Some k)) keys) (reply st)"
proof (cases "keys = []")
  case True
  have "scan_step st (''*'' @ show_nat (length keys) @ crlf @ concat (map enc_bulk keys))
      = Inr (SReturn (st\<lparr> m_arrayNum := 0, m_valid := True \<rparr>) True)"
    using assms(1,4) True scan_line_nat [of 0 st "[]"]
    by (simp add: scan_step_def scan_keyslen_def atoi_show_nat Let_def)
  from scan_loop_return [OF this] True show ?thesis by (simp add: push_elems_def)
next
  case False
  let ?st = "st\<lparr> m_arrayNum := int (length keys), m_parseState := REDIS_PARSE_KEYLEN \<rparr>"
  have "scan_step st (''*'' @ show_nat (length keys) @ crlf @ concat (map enc_bulk keys))
      = Inr (SNext ?st (concat (map enc_bulk keys)))"
    using assms(1,4) False by (simp add: scan_step_def scan_keyslen_def scan_line_nat atoi_show_nat Let_def)
  from scan_loop_next [OF this] scan_loop_keys [of ?st keys] assms False
  show ?thesis by simp
qed

lemma parseScanReply_enc:
  assumes "int cursor \<le> int32_max" "list_all scan_key_ok keys" "int (length keys) \<le> int32_max"
  shows "\<exists>st'. parseScanReply (recv_init empty_reply) (enc_scan cursor keys) = Inr (st', True)
     \<and> m_valid st' \<and> reply st' = scan_reply cursor keys"
proof -
  let ?k = "''*'' @ show_nat (length keys) @ crlf @ concat (map enc_bulk keys)"
  let ?c = "show_nat cursor" and ?st0 = "(recv_init empty_reply)\<lparr> m_parseState := REDIS_PARSE_TYPE \<rparr>"
  define st1 where "st1 = ?st0\<lparr> m_parseState := REDIS_PARSE_ARRAYLENGTH,
      reply := empty_reply\<lparr> replyType := REDIS_REPLY_ARRAY \<rparr> \<rparr>"
  define st2 where "st2 = st1\<lparr> m_parseState := REDIS_PARSE_CURSORLEN \<rparr>"
  define st3 where "st3 = st1\<lparr> m_parseState := REDIS_PARSE_CURSOR \<rparr>"
  define st4 where "st4 = st1\<lparr> m_parseState := REDIS_PARSE_KEYSLEN,
      reply := (reply st1)\<lparr> intValue := int cursor \<rparr> \<rparr>"
  have len: "int (length ?c) \<le> int32_max"
    using show_nat_length_int32 [OF assms(1)] by (simp add: int32_max_def)
  have two: "show_nat 2 = ''2''" by code_simp
  have "scan_step ?st0 (enc_scan cursor keys) = Inr (SNext st1 (''2'' @ crlf @ enc_bulk ?c @ ?k))"
    by (simp add: scan_step_def scan_type_def enc_scan_def Let_def st1_def recv_init_def)
  moreover have "scan_step st1 (''2'' @ crlf @ enc_bulk ?c @ ?k) = Inr (SNext st2 (enc_bulk ?c @ ?k))"
    using scan_line_nat [of 2 st1] two atoi_show_nat [of 2]
    by (simp add: scan_step_def scan_arraylength_def st1_def st2_def int32_max_def)
  moreover have "scan_step st2 (enc_bulk ?c @ ?k) = Inr (SNext st3 (?c @ crlf @ ?k))"
    using len by (simp add: scan_step_def scan_cursorlen_def st2_def st3_def enc_bulk_def
        scan_line_nat atoi_show_nat)
  moreover have "scan_step st3 (?c @ crlf @ ?k) = Inr (SNext st4 ?k)"
    using assms(1) by (simp add: scan_step_def scan_cursor_def st3_def st4_def scan_line_nat
        atoi_show_nat)
  ultimately have "scan_loop ?st0 (enc_scan cursor keys) = scan_loop st4 ?k"
    by (simp add: scan_loop_next enc_scan_def enc_bulk_def)
  moreover obtain st' where "scan_loop st4 ?k = Inr (st', [], True)" "m_valid st'"
    "reply st' = push_elems (map (\<lambda>k. EBulk (Some k)) keys) (reply st4)"
    using scan_loop_keyslen [of st4 keys] assms by (auto simp: st4_def st1_def recv_init_def)
  ultimately show ?thesis
    by (simp add: parseScanReply_def recv_init_def check_buf_def Let_def st4_def st1_def
        scan_reply_def push_elems_def empty_reply_def)
qed

text \<open>A SCAN reply that arrives in one read gives the caller exactly the cursor and the keys the
  server sent, for cursors within \<open>int\<close> and keys shorter than the local buffer that hold no CR
  and no zero byte.\<close>

lemma recv_scan_whole:
  assumes "int cursor \<le> int32_max" "list_all scan_key_ok keys" "int (length keys) \<le> int32_max"
    and "length (enc_scan cursor keys) < REDIS_READ_BUFF_SIZE"
  shows "recv_scan empty_reply (Some (enc_scan cursor keys) # later)
     = Inr (scan_reply cursor keys, True, later)"
proof -
  let ?st = "recv_init empty_reply"
  obtain st' where "parseScanReply ?st (enc_scan cursor keys) = Inr (st', True)"
    "m_valid st'" "reply st' = scan_reply cursor keys"
    using parseScanReply_enc [OF assms(1-3)] by blast
  moreover have "recv_buf (int REDIS_READ_BUFF_SIZE) ?st (enc_scan cursor keys)
      = Inr (int REDIS_READ_BUFF_SIZE, ?st, enc_scan cursor keys)"
    using assms(4) by (simp add: recv_buf_def recv_init_def Let_def REDIS_READ_BUFF_SIZE_def)
  moreover have "\<not> m_valid ?st" by (simp add: recv_init_def)
  ultimately show ?thesis by (cases later) (simp_all add: recv_scan_def)
qed

section \<open>Properties\<close>

text \<open>
  A SCAN reply that is cut right after the type byte of the cursor is taken for a
  complete one: the type byte is consumed before the line is known to be there, the
  next read is refused as ill-formed, \<open>m_valid\<close> is set all the same, and \<open>recv\<close>
  returns true with no key and cursor 0, which the caller reads as the end of the
  iteration.
\<close>

lemma recv_scan_split_loses_keys:
  "take 5 (enc_scan 17 [''gbddr1'', ''gbddr2'']) @ drop 5 (enc_scan 17 [''gbddr1'', ''gbddr2''])
     = enc_scan 17 [''gbddr1'', ''gbddr2''] \<and>
   recv_scan empty_reply [Some (take 5 (enc_scan 17 [''gbddr1'', ''gbddr2''])),
                          Some (drop 5 (enc_scan 17 [''gbddr1'', ''gbddr2'']))]
     = Inr (empty_reply\<lparr> replyType := REDIS_REPLY_ARRAY \<rparr>, True, [])"
  by (intro conjI append_take_drop_id) code_simp

end
