(* ===== verification/Redis_Pool.thy ===== *)
theory Redis_Pool
  imports Redis_Scan
begin

text \<open>
  One command on one connection (\<open>RedisConnection::doRedisCommand\<close>) and the
  connection pool \<open>RedisCluster\<close> of \<open>rediscluster.cpp\<close>.  Connections are objects
  in a heap, so that a pointer to a deleted connection is a value of the model and
  its use a fault.  The sockets and the server behind them are a parameter, the
  record \<open>net\<close>: what the system calls answer, as functions of the outside world
  \<open>'w\<close>.
\<close>

named_theorems pool_simps \<open>lists and heap of the pool\<close>

section \<open>The outside world\<close>

text \<open>A socket is known by its owner (a pool object) and a number of its own.\<close>

type_synonym sock = "nat \<times> nat"

record 'w net =
  net_time :: "'w \<Rightarrow> 32 word"
  net_alive :: "sock \<Rightarrow> 'w \<Rightarrow> bool"
  net_connect :: "sock \<Rightarrow> string \<Rightarrow> nat \<Rightarrow> 'w \<Rightarrow> bool \<times> 'w"
  net_send :: "sock \<Rightarrow> bytes \<Rightarrow> 'w \<Rightarrow> bool \<times> 'w"
  net_reads :: "sock \<Rightarrow> 'w \<Rightarrow> bytes option list \<times> 'w"
  net_close :: "sock \<Rightarrow> 'w \<Rightarrow> 'w"

datatype ReplyParserType = COMMON_PARSER | SCAN_PARSER

definition recv_with :: "ReplyParserType \<Rightarrow> RedisReplyInfo \<Rightarrow> bytes option list
    \<Rightarrow> (RedisReplyInfo \<times> bool \<times> bytes option list) res" where
  "recv_with t = (case t of COMMON_PARSER \<Rightarrow> recv | SCAN_PARSER \<Rightarrow> recv_scan)"

section \<open>The pool and its heap\<close>

record conn =
  m_serverIp :: string
  m_serverPort :: nat
  m_available :: bool
  m_connectTime :: "32 word"
  m_canRelease :: bool

record pool =
  p_obj :: nat
  p_heap :: "nat \<rightharpoonup> conn"
  p_next :: nat
  m_clusterIp :: string
  m_clusterPort :: nat
  m_connectionNum :: nat
  m_connections :: "nat list"
  m_tmpConnections :: "nat list"

definition RedisCluster :: "nat \<Rightarrow> pool" where
  "RedisCluster obj = \<lparr> p_obj = obj, p_heap = Map.empty, p_next = 0, m_clusterIp = [],
     m_clusterPort = 0, m_connectionNum = 0, m_connections = [], m_tmpConnections = [] \<rparr>"

definition CONNECTION_RELEASE_TIME :: "32 word" where
  "CONNECTION_RELEASE_TIME = 10"

definition sock_of :: "pool \<Rightarrow> nat \<Rightarrow> sock" where
  "sock_of p c = (p_obj p, c)"

definition deref :: "pool \<Rightarrow> nat \<Rightarrow> conn res" where
  "deref p c = (case p_heap p c of None \<Rightarrow> Inl Dangling | Some r \<Rightarrow> Inr r)"

definition set_conn :: "nat \<Rightarrow> conn \<Rightarrow> pool \<Rightarrow> pool" where
  "set_conn c r p = p\<lparr> p_heap := (p_heap p)(c \<mapsto> r) \<rparr>"

text \<open>The constructor \<open>RedisConnection\<close>; it leaves \<open>m_available\<close> and
  \<open>m_connectTime\<close> to the pool, which sets them before it reads them.\<close>

definition RedisConnection :: "string \<Rightarrow> nat \<Rightarrow> conn" where
  "RedisConnection ip port = \<lparr> m_serverIp = ip, m_serverPort = port, m_available = False,
     m_connectTime = 0, m_canRelease = True \<rparr>"

definition new_conn :: "string \<Rightarrow> nat \<Rightarrow> pool \<Rightarrow> nat \<times> pool" where
  "new_conn ip port p = (p_next p,
     p\<lparr> p_heap := (p_heap p)(p_next p \<mapsto> RedisConnection ip port), p_next := Suc (p_next p) \<rparr>)"

text \<open>\<open>close()\<close> and \<open>delete\<close>.\<close>

definition delete_conn :: "'w net \<Rightarrow> nat \<Rightarrow> pool \<Rightarrow> 'w \<Rightarrow> (pool \<times> 'w) res" where
  "delete_conn net c p w =
     res_bind (deref p c) (\<lambda>_.
       Inr (p\<lparr> p_heap := (p_heap p)(c := None) \<rparr>, net_close net (sock_of p c) w))"

fun delete_conns :: "'w net \<Rightarrow> nat list \<Rightarrow> pool \<Rightarrow> 'w \<Rightarrow> (pool \<times> 'w) res" where
  "delete_conns net [] p w = Inr (p, w)"
| "delete_conns net (c # cs) p w =
     res_bind (delete_conn net c p w) (\<lambda>(p, w). delete_conns net cs p w)"

text \<open>\<open>connect()\<close> of a connection.\<close>

definition conn_connect :: "'w net \<Rightarrow> nat \<Rightarrow> pool \<Rightarrow> 'w \<Rightarrow> (bool \<times> 'w) res" where
  "conn_connect net c p w =
     res_bind (deref p c) (\<lambda>r.
       Inr (net_connect net (sock_of p c) (m_serverIp r) (m_serverPort r) w))"

text \<open>\<open>RedisConnection::doRedisCommand\<close>: \<open>checkConnectionStatus\<close> closes a socket whose
  peer is gone; such a connection is opened again before the command is sent.\<close>

definition conn_command ::
  "'w net \<Rightarrow> pool \<Rightarrow> nat \<Rightarrow> RedisCmdParaInfo list \<Rightarrow> int \<Rightarrow> ReplyParserType \<Rightarrow> RedisReplyInfo \<Rightarrow> 'w
   \<Rightarrow> (bool \<times> RedisReplyInfo \<times> 'w) res" where
  "conn_command net p c paraList len t r w =
     res_bind (deref p c) (\<lambda>_.
     res_bind (if net_alive net (sock_of p c) w then Inr (True, w) else conn_connect net c p w)
       (\<lambda>(up, w).
      if \<not> up then Inr (False, r, w)
      else if len < 0 then Inl BadAlloc
      else res_bind (createRedisCommand paraList (nat len)) (\<lambda>(_, buf).
        let (sent, w) = net_send net (sock_of p c) buf w in
        if \<not> sent then Inr (False, r, w)
        else let (reads, w) = net_reads net (sock_of p c) w in
          res_bind (recv_with t r reads) (\<lambda>(r, ok, _). Inr (ok, r, w)))))"

text \<open>The loop of \<open>initConnectPool\<close>; at \<open>CLEAR\<close> the objects are deleted, and the
  vector keeps the pointers.\<close>

fun init_conns :: "'w net \<Rightarrow> string \<Rightarrow> nat \<Rightarrow> nat \<Rightarrow> pool \<Rightarrow> 'w \<Rightarrow> (bool \<times> pool \<times> 'w) res" where
  "init_conns net ip port 0 p w = Inr (True, p, w)"
| "init_conns net ip port (Suc n) p w =
     (let (c, p) = new_conn ip port p in
      res_bind (conn_connect net c p w) (\<lambda>(ok, w).
      if \<not> ok then
        res_bind (delete_conn net c p w) (\<lambda>(p, w).
        res_bind (delete_conns net (m_connections p) p w) (\<lambda>(p, w). Inr (False, p, w)))
      else
        let p = set_conn c ((RedisConnection ip port)\<lparr> m_available := True, m_connectTime := 0 \<rparr>) p in
        init_conns net ip port n (p\<lparr> m_connections := m_connections p @ [c] \<rparr>) w))"

definition initConnectPool ::
  "'w net \<Rightarrow> string \<Rightarrow> nat \<Rightarrow> nat \<Rightarrow> pool \<Rightarrow> 'w \<Rightarrow> (bool \<times> pool \<times> 'w) res" where
  "initConnectPool net ip port connectionNum p w =
     res_bind (init_conns net ip port connectionNum p w) (\<lambda>(ok, p, w).
       Inr (ok, if ok then p\<lparr> m_clusterIp := ip, m_clusterPort := port,
                            m_connectionNum := connectionNum \<rparr> else p, w))"

definition freeConnectPool :: "'w net \<Rightarrow> pool \<Rightarrow> 'w \<Rightarrow> (bool \<times> pool \<times> 'w) res" where
  "freeConnectPool net p w =
     res_bind (delete_conns net (m_connections p) p w) (\<lambda>(p, w).
     res_bind (delete_conns net (m_tmpConnections p) (p\<lparr> m_connections := [] \<rparr>) w) (\<lambda>(p, w).
       Inr (True, p\<lparr> m_tmpConnections := [] \<rparr>, w)))"

text \<open>The index of the first connection of a vector with a property.\<close>

fun find_conn :: "(conn \<Rightarrow> bool) \<Rightarrow> pool \<Rightarrow> nat list \<Rightarrow> nat option res" where
  "find_conn P p [] = Inr None"
| "find_conn P p (c # cs) =
     res_bind (deref p c) (\<lambda>r.
       if P r then Inr (Some 0)
       else res_bind (find_conn P p cs) (\<lambda>i. Inr (map_option Suc i)))"

definition checkIfCanFree :: "pool \<Rightarrow> bool res" where
  "checkIfCanFree p =
     res_bind (find_conn (\<lambda>r. \<not> m_available r) p (m_connections p)) (\<lambda>i. Inr (i = None))"

section \<open>Taking and giving back\<close>

definition stale :: "32 word \<Rightarrow> conn \<Rightarrow> bool" where
  "stale now r \<longleftrightarrow> now \<ge> m_connectTime r + CONNECTION_RELEASE_TIME"

fun free_stale_tmp ::
  "'w net \<Rightarrow> 32 word \<Rightarrow> nat list \<Rightarrow> pool \<Rightarrow> 'w \<Rightarrow> (nat list \<times> pool \<times> 'w) res" where
  "free_stale_tmp net now [] p w = Inr ([], p, w)"
| "free_stale_tmp net now (c # cs) p w =
     res_bind (deref p c) (\<lambda>r.
       if stale now r then
         res_bind (delete_conn net c p w) (\<lambda>(p, w). free_stale_tmp net now cs p w)
       else
         res_bind (free_stale_tmp net now cs p w) (\<lambda>(ks, p, w). Inr (c # ks, p, w)))"

text \<open>Replace the connection at an index of the vector by a fresh one.  When the
  connect fails the old pointer stays in the vector.\<close>

definition recreate ::
  "'w net \<Rightarrow> 32 word \<Rightarrow> nat \<Rightarrow> pool \<Rightarrow> 'w \<Rightarrow> (nat option \<times> pool \<times> 'w) res" where
  "recreate net now i p w =
     res_bind (delete_conn net (m_connections p ! i) p w) (\<lambda>(p, w).
     let (c, p) = new_conn (m_clusterIp p) (m_clusterPort p) p in
     res_bind (conn_connect net c p w) (\<lambda>(ok, w).
       if \<not> ok then Inr (None, p, w)
       else Inr (Some c,
         (set_conn c ((RedisConnection (m_clusterIp p) (m_clusterPort p))\<lparr> m_connectTime := now \<rparr>) p)
           \<lparr> m_connections := (m_connections p)[i := c] \<rparr>, w)))"

definition getAvailableConnection ::
  "'w net \<Rightarrow> pool \<Rightarrow> 'w \<Rightarrow> (nat option \<times> pool \<times> 'w) res" where
  "getAvailableConnection net p w =
     (let now = net_time net w in
     res_bind (free_stale_tmp net now (m_tmpConnections p) p w) (\<lambda>(tmp, p, w).
     let p = p\<lparr> m_tmpConnections := tmp \<rparr> in
     res_bind (find_conn m_available p (m_connections p)) (\<lambda>a.
     case a of
       Some i \<Rightarrow>
         let c = m_connections p ! i in
         res_bind (deref p c) (\<lambda>r.
           Inr (Some c, set_conn c (r\<lparr> m_available := False, m_connectTime := now \<rparr>) p, w))
     | None \<Rightarrow>
         res_bind (find_conn (\<lambda>r. m_canRelease r \<and> stale now r) p (m_connections p)) (\<lambda>b.
         case b of
           Some i \<Rightarrow> recreate net now i p w
         | None \<Rightarrow> Inr (None, p, w)))))"

definition releaseConnection :: "'w net \<Rightarrow> nat \<Rightarrow> pool \<Rightarrow> 'w \<Rightarrow> (pool \<times> 'w) res" where
  "releaseConnection net c p w =
     (if c \<in> set (m_connections p) then
        res_bind (deref p c) (\<lambda>r. Inr (set_conn c (r\<lparr> m_available := True \<rparr>) p, w))
      else if c \<in> set (m_tmpConnections p) then
        res_bind (delete_conn net c p w) (\<lambda>(p, w).
          Inr (p\<lparr> m_tmpConnections := remove1 c (m_tmpConnections p) \<rparr>, w))
      else Inr (p, w))"

text \<open>The position of the first occurrence.\<close>

fun index_of :: "nat \<Rightarrow> nat list \<Rightarrow> nat option" where
  "index_of c [] = None"
| "index_of c (d # ds) = (if d = c then Some 0 else map_option Suc (index_of c ds))"

definition freeConnection :: "'w net \<Rightarrow> nat \<Rightarrow> pool \<Rightarrow> 'w \<Rightarrow> (pool \<times> 'w) res" where
  "freeConnection net c p w =
     (case index_of c (m_connections p) of
        None \<Rightarrow> Inr (p, w)
      | Some i \<Rightarrow> res_bind (recreate net (net_time net w) i p w) (\<lambda>(_, p, w). Inr (p, w)))"

definition checkConnectionAlive :: "nat \<Rightarrow> pool \<Rightarrow> (bool \<times> pool) res" where
  "checkConnectionAlive c p =
     (if c \<in> set (m_connections p) then
        res_bind (deref p c) (\<lambda>r.
          Inr (True, if m_available r then set_conn c (r\<lparr> m_available := False \<rparr>) p else p))
      else Inr (False, p))"

section \<open>Commands through the pool\<close>

text \<open>\<open>RedisCluster::doRedisCommand\<close>: on a pooled connection, or on one that is opened
  for this command only.\<close>

definition pool_command ::
  "'w net \<Rightarrow> RedisCmdParaInfo list \<Rightarrow> int \<Rightarrow> ReplyParserType \<Rightarrow> RedisReplyInfo \<Rightarrow> pool \<Rightarrow> 'w
   \<Rightarrow> (bool \<times> RedisReplyInfo \<times> pool \<times> 'w) res" where
  "pool_command net paraList len t r p w =
     res_bind (getAvailableConnection net p w) (\<lambda>(a, p, w).
     case a of
       Some c \<Rightarrow>
         res_bind (conn_command net p c paraList len t r w) (\<lambda>(ok, r, w).
         res_bind (releaseConnection net c p w) (\<lambda>(p, w). Inr (ok, r, p, w)))
     | None \<Rightarrow>
         let (c, p) = new_conn (m_clusterIp p) (m_clusterPort p) p in
         res_bind (conn_connect net c p w) (\<lambda>(up, w).
         if \<not> up then
           res_bind (delete_conn net c p w) (\<lambda>(p, w). Inr (False, r, p, w))
         else
           res_bind (conn_command net p c paraList len t r w) (\<lambda>(ok, r, w).
           res_bind (delete_conn net c p w) (\<lambda>(p, w). Inr (ok, r, p, w)))))"

text \<open>\<open>doRedisCommandOneConnection\<close>: the connection is kept for the caller, who passes
  it back with the next command.\<close>

definition one_conn_command ::
  "'w net \<Rightarrow> RedisCmdParaInfo list \<Rightarrow> int \<Rightarrow> RedisReplyInfo \<Rightarrow> bool \<Rightarrow> nat option \<Rightarrow> pool \<Rightarrow> 'w
   \<Rightarrow> (bool \<times> RedisReplyInfo \<times> nat option \<times> pool \<times> 'w) res" where
  "one_conn_command net paraList len r release con p w =
     res_bind (case con of
         Some c \<Rightarrow> Inr (Some c, p, w)
       | None \<Rightarrow> getAvailableConnection net p w) (\<lambda>(con, p, w).
     case con of
       Some c \<Rightarrow>
         res_bind (conn_command net p c paraList len COMMON_PARSER r w) (\<lambda>(ok, r, w).
         if release then
           res_bind (releaseConnection net c p w) (\<lambda>(p, w). Inr (ok, r, Some c, p, w))
         else Inr (ok, r, Some c, p, w))
     | None \<Rightarrow>
         let (c, p) = new_conn (m_clusterIp p) (m_clusterPort p) p in
         res_bind (conn_connect net c p w) (\<lambda>(up, w).
         if \<not> up then Inr (False, r, Some c, p, w)
         else
           let p = set_conn c ((RedisConnection (m_clusterIp p) (m_clusterPort p))
                     \<lparr> m_connectTime := net_time net w \<rparr>) p in
           res_bind (conn_command net p c paraList len COMMON_PARSER r w) (\<lambda>(ok, r, w).
           let p = p\<lparr> m_tmpConnections := m_tmpConnections p @ [c] \<rparr> in
           if release then
             res_bind (releaseConnection net c p w) (\<lambda>(p, w). Inr (ok, r, Some c, p, w))
           else Inr (ok, r, Some c, p, w))))"

section \<open>The invariant of the pool\<close>

text \<open>No pointer is held twice or dangles, and \<open>new\<close> gives a fresh address.\<close>

definition pool_inv :: "pool \<Rightarrow> bool" where
  "pool_inv p \<longleftrightarrow> distinct (m_connections p @ m_tmpConnections p)
     \<and> set (m_connections p @ m_tmpConnections p) \<subseteq> dom (p_heap p)
     \<and> (\<forall>c \<in> dom (p_heap p). c < p_next p)"

definition in_use :: "pool \<Rightarrow> nat \<Rightarrow> bool" where
  "in_use p c \<longleftrightarrow> c \<in> set (m_connections p) \<and> (\<exists>r. p_heap p c = Some r \<and> \<not> m_available r)"

lemma pool_inv_init [simp]: "pool_inv (RedisCluster obj)"
  by (simp add: pool_inv_def RedisCluster_def)

lemma deref_Some [simp]: "p_heap p c = Some r \<Longrightarrow> deref p c = Inr r"
  by (simp add: deref_def)

lemma deref_dom: "c \<in> dom (p_heap p) \<Longrightarrow> deref p c = Inr (the (p_heap p c))"
  by (auto simp: deref_def)

lemma set_conn_simps [simp]:
  "p_heap (set_conn c r p) = (p_heap p)(c \<mapsto> r)" "p_next (set_conn c r p) = p_next p"
  "m_connections (set_conn c r p) = m_connections p" "p_obj (set_conn c r p) = p_obj p"
  "m_tmpConnections (set_conn c r p) = m_tmpConnections p"
  "m_clusterIp (set_conn c r p) = m_clusterIp p" "m_clusterPort (set_conn c r p) = m_clusterPort p"
  by (simp_all add: set_conn_def)

lemma pool_inv_set_conn: "pool_inv p \<Longrightarrow> c \<in> dom (p_heap p) \<Longrightarrow> pool_inv (set_conn c r p)"
  by (auto simp: pool_inv_def)

lemma find_conn_spec:
  assumes "set cs \<subseteq> dom (p_heap p)"
  obtains (found) i where "find_conn P p cs = Inr (Some i)" "i < length cs" "P (the (p_heap p (cs ! i)))"
    | (none) "find_conn P p cs = Inr None" "\<forall>c \<in> set cs. \<not> P (the (p_heap p c))"
proof -
  have "(\<exists>i. find_conn P p cs = Inr (Some i) \<and> i < length cs \<and> P (the (p_heap p (cs ! i))))
      \<or> find_conn P p cs = Inr None \<and> (\<forall>c \<in> set cs. \<not> P (the (p_heap p c)))"
    using assms
  proof (induction cs)
    case (Cons c cs)
    then show ?case by (auto simp: deref_dom)
  qed simp
  then show thesis using that by blast
qed

lemma free_stale_tmp_spec:
  assumes "distinct cs" "set cs \<subseteq> dom (p_heap p)"
  shows "\<exists>w'. free_stale_tmp net now cs p w
     = Inr (filter (\<lambda>c. \<not> stale now (the (p_heap p c))) cs,
            p\<lparr> p_heap := p_heap p |` (- {c \<in> set cs. stale now (the (p_heap p c))}) \<rparr>, w')"
  using assms
proof (induction cs arbitrary: p w)
  case Nil
  then show ?case by simp
next
  case (Cons c cs)
  let ?q = "p\<lparr> p_heap := (p_heap p)(c := None) \<rparr>"
  have c: "deref p c = Inr (the (p_heap p c))" using Cons.prems by (auto simp: deref_dom)
  show ?case
  proof (cases "stale now (the (p_heap p c))")
    case True
    have "distinct cs" "set cs \<subseteq> dom (p_heap ?q)" using Cons.prems by auto
    from Cons.IH [OF this] obtain w' where "free_stale_tmp net now cs ?q (net_close net (sock_of p c) w)
        = Inr (filter (\<lambda>d. \<not> stale now (the (p_heap ?q d))) cs,
            ?q\<lparr> p_heap := p_heap ?q |` (- {d \<in> set cs. stale now (the (p_heap ?q d))}) \<rparr>, w')"
      by blast
    moreover have "filter (\<lambda>d. \<not> stale now (the (p_heap ?q d))) cs
        = filter (\<lambda>d. \<not> stale now (the (p_heap p d))) cs"
      using Cons.prems by (auto intro!: filter_cong)
    moreover have "p_heap ?q |` (- {d \<in> set cs. stale now (the (p_heap ?q d))})
        = p_heap p |` (- {d \<in> set (c # cs). stale now (the (p_heap p d))})"
      using Cons.prems True by (auto simp: restrict_map_def fun_eq_iff)
    ultimately show ?thesis using c True by (simp add: delete_conn_def)
  next
    case False
    have "{d \<in> set cs. stale now (the (p_heap p d))} = {d. (d = c \<or> d \<in> set cs) \<and> stale now (the (p_heap p d))}"
      using False by auto
    then show ?thesis using Cons.IH [of p w] Cons.prems c False by auto
  qed
qed

text \<open>The pool after the stale temporary connections are gone.\<close>

lemma pool_inv_drop_tmp:
  assumes "pool_inv p" "S \<subseteq> set (m_tmpConnections p)"
  shows "pool_inv (p\<lparr> p_heap := p_heap p |` (- S),
     m_tmpConnections := filter (\<lambda>c. c \<notin> S) (m_tmpConnections p) \<rparr>)"
  using assms by (auto simp: pool_inv_def)

lemma delete_conn_ok:
  "c \<in> dom (p_heap p) \<Longrightarrow> delete_conn net c p w
     = Inr (p\<lparr> p_heap := (p_heap p)(c := None) \<rparr>, net_close net (sock_of p c) w)"
  by (simp add: delete_conn_def deref_dom)

lemma pool_inv_recreate:
  assumes inv: "pool_inv p" and i: "i < length (m_connections p)"
  shows "\<exists>w'. recreate net now i p w = Inr (None,
       snd (new_conn (m_clusterIp p) (m_clusterPort p)
         (p\<lparr> p_heap := (p_heap p)(m_connections p ! i := None) \<rparr>)), w')
     \<or> (\<exists>p'. recreate net now i p w = Inr (Some (p_next p), p', w') \<and> pool_inv p'
        \<and> m_connections p' = (m_connections p)[i := p_next p]
        \<and> m_tmpConnections p' = m_tmpConnections p
        \<and> p_heap p' = (p_heap p)(m_connections p ! i := None, p_next p \<mapsto>
            (RedisConnection (m_clusterIp p) (m_clusterPort p))\<lparr> m_connectTime := now \<rparr>))"
proof -
  let ?c = "m_connections p ! i" and ?n = "p_next p"
  let ?q = "p\<lparr> p_heap := (p_heap p)(?c := None) \<rparr>"
  let ?p = "snd (new_conn (m_clusterIp p) (m_clusterPort p) ?q)"
  have c: "?c \<in> dom (p_heap p)"
    using inv nth_mem [OF i] unfolding pool_inv_def by (metis Un_iff set_append subsetD)
  have n: "?n \<notin> dom (p_heap p)" "?n \<notin> set (m_connections p)" "?n \<notin> set (m_tmpConnections p)"
    using inv by (auto simp: pool_inv_def)
  obtain ok w' where cw: "conn_connect net ?n ?p (net_close net (sock_of p ?c) w) = Inr (ok, w')"
    by (cases "net_connect net (sock_of ?p ?n) (m_clusterIp p) (m_clusterPort p)
        (net_close net (sock_of p ?c) w)")
      (simp add: conn_connect_def deref_def new_conn_def RedisConnection_def)
  define p' where "p' = (set_conn ?n ((RedisConnection (m_clusterIp p) (m_clusterPort p))
      \<lparr> m_connectTime := now \<rparr>) ?p)\<lparr> m_connections := (m_connections p)[i := ?n] \<rparr>"
  have "recreate net now i p w = (if ok then Inr (Some ?n, p', w') else Inr (None, ?p, w'))"
    using cw by (simp add: recreate_def delete_conn_ok [OF c] new_conn_def p'_def)
  moreover have "pool_inv p'"
  proof -
    have "distinct ((m_connections p)[i := ?n])"
      using inv n(2) by (simp add: pool_inv_def distinct_list_update)
    moreover have "set ((m_connections p)[i := ?n]) \<subseteq> insert ?n (set (m_connections p) - {?c})"
      using inv i by (auto simp: pool_inv_def distinct_list_update set_update_distinct)
    moreover have "?c \<notin> set (m_tmpConnections p)"
      using inv nth_mem [OF i] by (auto simp: pool_inv_def)
    moreover have "\<forall>c \<in> dom (p_heap p). c < Suc ?n"
      using inv by (auto simp: pool_inv_def intro: less_SucI)
    ultimately show ?thesis
      using inv n by (auto simp: pool_inv_def p'_def new_conn_def)
  qed
  ultimately show ?thesis by (auto simp: p'_def new_conn_def)
qed

text \<open>\<open>getAvailableConnection\<close> after the stale temporary connections are gone: the pool
  \<open>q\<close> it goes on with differs from \<open>p\<close> in the temporary connections only.\<close>

lemma getAvailableConnection_step:
  assumes inv: "pool_inv p"
  obtains q w1 where "pool_inv q" "m_connections q = m_connections p" "p_next q = p_next p"
    "m_clusterIp q = m_clusterIp p" "m_clusterPort q = m_clusterPort p" "p_obj q = p_obj p"
    "\<forall>d \<in> set (m_connections p). p_heap q d = p_heap p d"
    "\<exists>ks p1. free_stale_tmp net (net_time net w) (m_tmpConnections p) p w = Inr (ks, p1, w1)"
    "getAvailableConnection net p w =
     res_bind (find_conn m_available q (m_connections q)) (\<lambda>a.
     case a of
       Some i \<Rightarrow>
         res_bind (deref q (m_connections q ! i)) (\<lambda>r. Inr (Some (m_connections q ! i),
           set_conn (m_connections q ! i) (r\<lparr> m_available := False, m_connectTime := net_time net w \<rparr>) q, w1))
     | None \<Rightarrow>
         res_bind (find_conn (\<lambda>r. m_canRelease r \<and> stale (net_time net w) r) q (m_connections q)) (\<lambda>b.
         case b of Some i \<Rightarrow> recreate net (net_time net w) i q w1 | None \<Rightarrow> Inr (None, q, w1)))"
proof -
  let ?now = "net_time net w"
  define S where "S = {c \<in> set (m_tmpConnections p). stale ?now (the (p_heap p c))}"
  define q where "q = p\<lparr> p_heap := p_heap p |` (- S),
     m_tmpConnections := filter (\<lambda>c. c \<notin> S) (m_tmpConnections p) \<rparr>"
  have flt: "filter (\<lambda>c. \<not> stale ?now (the (p_heap p c))) (m_tmpConnections p)
      = filter (\<lambda>c. c \<notin> S) (m_tmpConnections p)"
    by (rule filter_cong) (simp_all add: S_def)
  have dt: "distinct (m_tmpConnections p)" "set (m_tmpConnections p) \<subseteq> dom (p_heap p)"
    using inv by (auto simp: pool_inv_def)
  obtain w1 where tmp: "free_stale_tmp net ?now (m_tmpConnections p) p w
      = Inr (m_tmpConnections q, p\<lparr> p_heap := p_heap p |` (- S) \<rparr>, w1)"
    using free_stale_tmp_spec [OF dt, of net ?now w] by (auto simp: flt S_def q_def)
  have qe: "p\<lparr> p_heap := p_heap p |` (- S), m_tmpConnections := m_tmpConnections q \<rparr> = q"
    by (simp add: q_def)
  show thesis
  proof (rule that [of q w1])
    show "pool_inv q" "m_connections q = m_connections p" "p_next q = p_next p"
      "m_clusterIp q = m_clusterIp p" "m_clusterPort q = m_clusterPort p" "p_obj q = p_obj p"
      using pool_inv_drop_tmp [OF inv, of S] by (auto simp: q_def S_def)
    show "\<forall>d \<in> set (m_connections p). p_heap q d = p_heap p d"
      using inv by (auto simp: q_def S_def pool_inv_def restrict_map_def)
  qed (use tmp in \<open>auto simp only: getAvailableConnection_def Let_def res_bind.simps prod.case qe\<close>)
qed

text \<open>What \<open>getAvailableConnection\<close> may give: a connection that was free, a fresh one
  in the place of one that was given up, or nothing.\<close>

lemma getAvailableConnection_cases:
  assumes inv: "pool_inv p"
  obtains
    (free) c r p' w' where "getAvailableConnection net p w = Inr (Some c, p', w')" "pool_inv p'"
      "m_connections p' = m_connections p" "c \<in> set (m_connections p)"
      "p_heap p c = Some r" "m_available r"
      "p_heap p' c = Some (r\<lparr> m_available := False, m_connectTime := net_time net w \<rparr>)"
      "\<forall>d \<in> set (m_connections p). d \<noteq> c \<longrightarrow> p_heap p' d = p_heap p d"
  | (fresh) i p' w' where "getAvailableConnection net p w = Inr (Some (p_next p), p', w')" "pool_inv p'"
      "i < length (m_connections p)" "m_connections p' = (m_connections p)[i := p_next p]"
      "p_heap p' (p_next p) = Some ((RedisConnection (m_clusterIp p) (m_clusterPort p))
         \<lparr> m_connectTime := net_time net w \<rparr>)"
      "\<forall>d \<in> set (m_connections p). d \<noteq> m_connections p ! i \<longrightarrow> p_heap p' d = p_heap p d"
  | (nothing) p' w' where "getAvailableConnection net p w = Inr (None, p', w')"
proof -
  let ?now = "net_time net w"
  obtain q w1 where q: "pool_inv q" "m_connections q = m_connections p" "p_next q = p_next p"
    "m_clusterIp q = m_clusterIp p" "m_clusterPort q = m_clusterPort p"
    and hq: "\<forall>d \<in> set (m_connections p). p_heap q d = p_heap p d"
    and step: "getAvailableConnection net p w =
     res_bind (find_conn m_available q (m_connections q)) (\<lambda>a.
     case a of
       Some i \<Rightarrow>
         res_bind (deref q (m_connections q ! i)) (\<lambda>r. Inr (Some (m_connections q ! i),
           set_conn (m_connections q ! i) (r\<lparr> m_available := False, m_connectTime := ?now \<rparr>) q, w1))
     | None \<Rightarrow>
         res_bind (find_conn (\<lambda>r. m_canRelease r \<and> stale ?now r) q (m_connections q)) (\<lambda>b.
         case b of Some i \<Rightarrow> recreate net ?now i q w1 | None \<Rightarrow> Inr (None, q, w1)))"
    using inv by (rule getAvailableConnection_step [of p net w]) blast
  have heap: "p_heap q d = p_heap p d" if "d \<in> set (m_connections p)" for d using hq that by blast
  have sub: "set (m_connections q) \<subseteq> dom (p_heap q)" using q(1) by (simp add: pool_inv_def)
  show thesis
  proof (rule find_conn_spec [OF sub, of m_available])
    fix i assume i: "find_conn m_available q (m_connections q) = Inr (Some i)"
      "i < length (m_connections q)" "m_available (the (p_heap q (m_connections q ! i)))"
    let ?c = "m_connections p ! i"
    have c: "?c \<in> set (m_connections p)" using i(2) q(2) by simp
    then obtain r where r: "p_heap q ?c = Some r" using sub q(2) by auto
    show thesis
    proof (rule free)
      show "getAvailableConnection net p w = Inr (Some ?c,
          set_conn ?c (r\<lparr> m_available := False, m_connectTime := ?now \<rparr>) q, w1)"
        using step i(1) r q(2) by simp
      show "pool_inv (set_conn ?c (r\<lparr> m_available := False, m_connectTime := ?now \<rparr>) q)"
        using q(1) r by (intro pool_inv_set_conn) auto
    qed (use c r i(3) q heap in auto)
  next
    assume none: "find_conn m_available q (m_connections q) = Inr None"
    show thesis
    proof (rule find_conn_spec [OF sub, of "\<lambda>r. m_canRelease r \<and> stale ?now r"])
      fix i assume i: "find_conn (\<lambda>r. m_canRelease r \<and> stale ?now r) q (m_connections q) = Inr (Some i)"
        "i < length (m_connections q)"
      have rec: "getAvailableConnection net p w = recreate net ?now i q w1"
        using step none i(1) by simp
      have new: "p_next p \<notin> set (m_connections p)" using inv by (auto simp: pool_inv_def)
      from pool_inv_recreate [OF q(1) i(2), of net ?now w1] rec show thesis
      proof (elim exE disjE conjE)
        fix p' w'
        assume p': "recreate net ?now i q w1 = Inr (Some (p_next q), p', w')" "pool_inv p'"
          "m_connections p' = (m_connections q)[i := p_next q]"
          "p_heap p' = (p_heap q)(m_connections q ! i := None, p_next q \<mapsto>
            (RedisConnection (m_clusterIp q) (m_clusterPort q))\<lparr> m_connectTime := ?now \<rparr>)"
        show thesis
          by (rule fresh [of p' w' i]) (use p' rec q i(2) heap new in auto)
      qed (rule nothing, simp)
    next
      assume "find_conn (\<lambda>r. m_canRelease r \<and> stale ?now r) q (m_connections q) = Inr None"
      then have "getAvailableConnection net p w = Inr (None, q, w1)" using step none by simp
      then show thesis by (rule nothing)
    qed
  qed
qed

lemma releaseConnection_ok:
  assumes "pool_inv p" "c \<in> set (m_connections p)"
  obtains r where "p_heap p c = Some r"
    "releaseConnection net c p w = Inr (set_conn c (r\<lparr> m_available := True \<rparr>) p, w)"
    "pool_inv (set_conn c (r\<lparr> m_available := True \<rparr>) p)"
proof -
  from assms obtain r where r: "p_heap p c = Some r" by (auto simp: pool_inv_def)
  with assms show thesis
    by (intro that [of r]) (auto simp: releaseConnection_def intro!: pool_inv_set_conn)
qed

section \<open>Properties\<close>

text \<open>
  C26. On a well-formed pool \<open>getAvailableConnection\<close> never faults, and a connection
  it gives was not in use: it was free, or it is a new object; it is in use
  afterwards, the pool is well-formed, and nobody else's connection becomes used.
\<close>

theorem getAvailableConnection_exclusive:
  assumes inv: "pool_inv p"
  shows "\<exists>a p' w'. getAvailableConnection net p w = Inr (a, p', w') \<and>
     (\<forall>c. a = Some c \<longrightarrow> pool_inv p' \<and> in_use p' c \<and> \<not> in_use p c
        \<and> (\<forall>d. d \<noteq> c \<longrightarrow> in_use p' d \<longrightarrow> in_use p d))"
  using inv
proof (cases rule: getAvailableConnection_cases [of p net w])
  case (free c r p' w')
  then show ?thesis by (auto simp: in_use_def)
next
  case (fresh i p' w')
  have new: "\<not> in_use p (p_next p)" using inv by (auto simp: in_use_def pool_inv_def)
  have gone: "p_heap p' d = p_heap p d" "d \<in> set (m_connections p)"
    if "d \<in> set (m_connections p')" "d \<noteq> p_next p" for d
  proof -
    have "d \<in> set (m_connections p) - {m_connections p ! i}"
      using that fresh(3,4) inv by (auto simp: pool_inv_def set_update_distinct)
    then show "p_heap p' d = p_heap p d" "d \<in> set (m_connections p)" using fresh(6) by auto
  qed
  have "p_next p \<in> set (m_connections p')" using fresh(3,4) by (simp add: set_update_memI)
  then have "in_use p' (p_next p)" using fresh(5) by (simp add: in_use_def RedisConnection_def)
  with new gone fresh show ?thesis by (auto simp: in_use_def)
next
  case (nothing p' w')
  then show ?thesis by simp
qed

text \<open>A network whose connects succeed or fail as a list says, at the time that the world
  shows.\<close>

definition script_net :: "(32 word \<times> bool list) net" where
  "script_net = \<lparr> net_time = fst, net_alive = (\<lambda>_ _. True),
     net_connect = (\<lambda>_ _ _ (t, bs). (bs \<noteq> [] \<and> hd bs, (t, tl bs))),
     net_send = (\<lambda>_ _ w. (False, w)), net_reads = (\<lambda>_ w. ([], w)), net_close = (\<lambda>_ w. w) \<rparr>"

theorem getAvailableConnection_exclusive_witness:
  "\<exists>p. pool_inv p \<and> m_connections p = [0, 1] \<and>
     (\<exists>a p' w'. getAvailableConnection script_net p (3, []) = Inr (a, p', w') \<and>
       (\<forall>c. a = Some c \<longrightarrow> pool_inv p' \<and> in_use p' c \<and> \<not> in_use p c
        \<and> (\<forall>d. d \<noteq> c \<longrightarrow> in_use p' d \<longrightarrow> in_use p d)))"
proof -
  let ?p = "(RedisCluster 0)\<lparr> p_heap := [0 \<mapsto> RedisConnection ''10.0.0.1'' 6379,
      1 \<mapsto> (RedisConnection ''10.0.0.1'' 6379)\<lparr> m_available := True \<rparr>],
      p_next := 2, m_connections := [0, 1] \<rparr>"
  have "pool_inv ?p" by (auto simp: pool_inv_def RedisCluster_def)
  from this getAvailableConnection_exclusive [OF this, of script_net "(3, [])"]
  show ?thesis by (intro exI [of _ ?p]) simp
qed


end
