(* ===== verification/Redis_Commands.thy ===== *)
theory Redis_Commands
  imports Redis_Base
begin

text \<open>
  The commands of \<open>redisclient.cpp\<close>: for every operation of the client the
  parameters it sends and the number of bytes it reserves for the encoded request.
  The connection allocates that many bytes and \<open>createRedisCommand\<close> writes without
  a check, so the reserved length must always suffice.
\<close>

named_theorems cmd_defs \<open>definitions of the client's commands\<close>

section \<open>Parameters\<close>

definition fillCommandPara :: "bytes \<Rightarrow> int \<Rightarrow> RedisCmdParaInfo list \<Rightarrow> RedisCmdParaInfo list" where
  "fillCommandPara v n paraList =
     paraList @ [\<lparr> paraValue = Some (take (nat n) v @ [NUL]), paraLen = n \<rparr>]"

type_synonym cmd = "RedisCmdParaInfo list \<times> int"

text \<open>\<open>fillCommandPara(v, n, paraList); paraLen += extra;\<close>\<close>

definition add_para :: "bytes \<Rightarrow> int \<Rightarrow> int \<Rightarrow> cmd \<Rightarrow> cmd" where
  "add_para v n extra c = (fillCommandPara v n (fst c), snd c + extra)"

definition add_str :: "bytes \<Rightarrow> int \<Rightarrow> cmd \<Rightarrow> cmd" where
  "add_str v extra = add_para v (int (length v)) (int (length v) + extra)"

definition no_paras :: cmd where
  "no_paras = ([], 0)"

definition toStr_u32 :: "32 word \<Rightarrow> string" where
  "toStr_u32 d = (if d = -1 then ''-1'' else show_nat (unat d))"

section \<open>Keys and values\<close>

definition get_cmd :: "string \<Rightarrow> cmd" where
  "get_cmd key = add_str key 20 (add_para ''get'' 3 15 no_paras)"

definition exists_cmd :: "string \<Rightarrow> cmd" where
  "exists_cmd key = add_str key 20 (add_para ''exists'' 6 15 no_paras)"

definition set_cmd :: "string \<Rightarrow> bytes \<Rightarrow> cmd" where
  "set_cmd key v = add_str v 20 (add_str key 20 (add_para ''set'' 3 15 no_paras))"

definition setex_cmd :: "string \<Rightarrow> 32 word \<Rightarrow> bytes \<Rightarrow> cmd" where
  "setex_cmd key expireTime v =
     add_str v 20 (add_str (toStr_u32 expireTime) 20 (add_str key 20 (add_para ''setex'' 5 17 no_paras)))"

definition del_cmd :: "string \<Rightarrow> cmd" where
  "del_cmd key = add_str key 20 (add_para ''del'' 3 15 no_paras)"

definition expire_cmd :: "string \<Rightarrow> 32 word \<Rightarrow> cmd" where
  "expire_cmd key expireTime =
     add_str (toStr_u32 expireTime) 20 (add_str key 20 (add_para ''expire'' 6 15 no_paras))"

definition dbsize_cmd :: cmd where
  "dbsize_cmd = add_str ''DBSIZE'' 11 no_paras"

section \<open>Sets and sorted sets\<close>

definition sadd_cmd :: "string \<Rightarrow> string \<Rightarrow> cmd" where
  "sadd_cmd key member = add_str member 20 (add_str key 20 (add_str ''sadd'' 11 no_paras))"

definition srem_cmd :: "string \<Rightarrow> string \<Rightarrow> cmd" where
  "srem_cmd key member = add_str member 20 (add_str key 20 (add_str ''srem'' 11 no_paras))"

definition scard_cmd :: "string \<Rightarrow> cmd" where
  "scard_cmd key = add_str key 20 (add_str ''scard'' 11 no_paras)"

definition sismember_cmd :: "string \<Rightarrow> string \<Rightarrow> cmd" where
  "sismember_cmd key member = add_str member 20 (add_str key 20 (add_str ''sismember'' 11 no_paras))"

definition smembers_cmd :: "string \<Rightarrow> cmd" where
  "smembers_cmd key = add_str key 11 (add_str ''smembers'' 11 no_paras)"

definition zadd_cmd :: "string \<Rightarrow> string \<Rightarrow> int \<Rightarrow> cmd" where
  "zadd_cmd key member score =
     add_str member 20 (add_str (show_int score) 20 (add_str key 20 (add_para ''zadd'' 4 16 no_paras)))"

definition zrem_cmd :: "string \<Rightarrow> string \<Rightarrow> cmd" where
  "zrem_cmd key member = add_str member 20 (add_str key 20 (add_para ''zrem'' 4 16 no_paras))"

definition zincrby_cmd :: "string \<Rightarrow> string \<Rightarrow> int \<Rightarrow> cmd" where
  "zincrby_cmd key member inc =
     add_str member 20 (add_str (show_int inc) 20 (add_str key 20 (add_para ''zincrby'' 7 19 no_paras)))"

definition zcount_cmd :: "string \<Rightarrow> int \<Rightarrow> int \<Rightarrow> cmd" where
  "zcount_cmd key start e =
     add_str (show_int e) 20 (add_str (show_int start) 20 (add_str key 20 (add_para ''zcount'' 6 18 no_paras)))"

definition zcard_cmd :: "string \<Rightarrow> cmd" where
  "zcard_cmd key = add_str key 20 (add_str ''zcard'' 11 no_paras)"

definition zscore_cmd :: "string \<Rightarrow> string \<Rightarrow> cmd" where
  "zscore_cmd key member = add_str member 20 (add_str key 20 (add_para ''zscore'' 6 18 no_paras))"

definition zrangebyscore_cmd :: "string \<Rightarrow> int \<Rightarrow> int \<Rightarrow> cmd" where
  "zrangebyscore_cmd key start e = add_str (show_int e) 20 (add_str (show_int start) 20
     (add_str key 20 (add_para ''zrangebyscore'' 13 25 no_paras)))"

definition zremrangebyscore_cmd :: "string \<Rightarrow> int \<Rightarrow> int \<Rightarrow> cmd" where
  "zremrangebyscore_cmd key start e = add_str (show_int e) 20 (add_str (show_int start) 20
     (add_str key 20 (add_para ''zremrangebyscore'' 16 28 no_paras)))"

section \<open>Transactions and locks\<close>

definition watch_cmd :: "string \<Rightarrow> cmd" where
  "watch_cmd key = add_str key 20 (add_para ''watch'' 5 18 no_paras)"

definition unwatch_lock_cmd :: cmd where
  "unwatch_lock_cmd = add_para ''unwatch'' 7 20 no_paras"

text \<open>\<open>Unwatch\<close> passes 6 as the length of \<open>unwatch\<close>.\<close>

definition unwatch_cmd :: cmd where
  "unwatch_cmd = add_para ''unwatch'' 6 20 no_paras"

definition multi_cmd :: cmd where
  "multi_cmd = add_para ''multi'' 5 18 no_paras"

definition discard_cmd :: cmd where
  "discard_cmd = add_para ''discard'' 7 18 no_paras"

definition exec_cmd :: cmd where
  "exec_cmd = add_para ''exec'' 4 18 no_paras"

definition tsadd_cmd :: "string \<Rightarrow> string \<Rightarrow> cmd" where
  "tsadd_cmd setKey member = add_str member 20 (add_str setKey 20 (add_para ''sadd'' 4 15 no_paras))"

definition tsrem_cmd :: "string \<Rightarrow> string \<Rightarrow> cmd" where
  "tsrem_cmd setKey member = add_str member 20 (add_str setKey 20 (add_para ''srem'' 4 15 no_paras))"

section \<open>Key iteration, authentication and topology\<close>

definition keys_cmd :: "string \<Rightarrow> cmd" where
  "keys_cmd queryKey = add_str (queryKey @ ''*'') 20 (add_para ''keys'' 4 15 no_paras)"

datatype ScanMode = SCAN_LOOP | SCAN_NOLOOP

definition scan_cmd :: "int \<Rightarrow> string \<Rightarrow> int \<Rightarrow> ScanMode \<Rightarrow> cmd" where
  "scan_cmd cursor queryKey count mode =
     (let cursor = (if mode = SCAN_NOLOOP then 0 else cursor) in
      add_str (show_int count) 11 (add_str ''COUNT'' 11 (add_str (queryKey @ ''*'') 11
        (add_str ''MATCH'' 11 (add_str (show_int cursor) 11 (add_str ''scan'' 11 no_paras))))))"

definition auth_cmd :: "string \<Rightarrow> cmd" where
  "auth_cmd passwd = add_str passwd 20 (add_para ''auth'' 4 15 no_paras)"

definition sentinel_master_cmd :: "string \<Rightarrow> cmd" where
  "sentinel_master_cmd masterName = add_str masterName 10
     (add_str ''get-master-addr-by-name'' 10 (add_str ''sentinel'' 10 no_paras))"

definition sentinel_slaves_cmd :: "string \<Rightarrow> cmd" where
  "sentinel_slaves_cmd masterName = add_str masterName 20
     (add_str ''slaves'' 10 (add_str ''sentinel'' 10 no_paras))"

definition subscribe_cmd :: cmd where
  "subscribe_cmd = add_str ''+switch-master'' 10 (add_str ''subscribe'' 10 no_paras)"

definition info_cmd :: cmd where
  "info_cmd = add_str ''replication'' 10 (add_str ''info'' 10 no_paras)"

definition cluster_nodes_cmd :: cmd where
  "cluster_nodes_cmd = add_para ''nodes'' 5 23 (add_para ''cluster'' 7 7 no_paras)"

section \<open>All commands\<close>

datatype command =
    CGet string | CExists string | CSet string bytes | CSetex string "32 word" bytes | CDel string
  | CExpire string "32 word" | CDbsize
  | CSadd string string | CSrem string string | CScard string | CSismember string string
  | CSmembers string
  | CZadd string string int | CZrem string string | CZincrby string string int
  | CZcount string int int | CZcard string | CZscore string string
  | CZrangebyscore string int int | CZremrangebyscore string int int
  | CWatch string | CUnwatchLock | CMulti | CDiscard | CExec
  | CTSadd string string | CTSrem string string
  | CKeys string | CScan int string int ScanMode | CAuth string
  | CSentinelMaster string | CSentinelSlaves string | CSubscribe | CInfo | CClusterNodes

fun build :: "command \<Rightarrow> cmd" where
  "build (CGet k) = get_cmd k"
| "build (CExists k) = exists_cmd k"
| "build (CSet k v) = set_cmd k v"
| "build (CSetex k t v) = setex_cmd k t v"
| "build (CDel k) = del_cmd k"
| "build (CExpire k t) = expire_cmd k t"
| "build CDbsize = dbsize_cmd"
| "build (CSadd k m) = sadd_cmd k m"
| "build (CSrem k m) = srem_cmd k m"
| "build (CScard k) = scard_cmd k"
| "build (CSismember k m) = sismember_cmd k m"
| "build (CSmembers k) = smembers_cmd k"
| "build (CZadd k m i) = zadd_cmd k m i"
| "build (CZrem k m) = zrem_cmd k m"
| "build (CZincrby k m i) = zincrby_cmd k m i"
| "build (CZcount k i j) = zcount_cmd k i j"
| "build (CZcard k) = zcard_cmd k"
| "build (CZscore k m) = zscore_cmd k m"
| "build (CZrangebyscore k i j) = zrangebyscore_cmd k i j"
| "build (CZremrangebyscore k i j) = zremrangebyscore_cmd k i j"
| "build (CWatch k) = watch_cmd k"
| "build CUnwatchLock = unwatch_lock_cmd"
| "build CMulti = multi_cmd"
| "build CDiscard = discard_cmd"
| "build CExec = exec_cmd"
| "build (CTSadd k m) = tsadd_cmd k m"
| "build (CTSrem k m) = tsrem_cmd k m"
| "build (CKeys k) = keys_cmd k"
| "build (CScan c k n m) = scan_cmd c k n m"
| "build (CAuth p) = auth_cmd p"
| "build (CSentinelMaster n) = sentinel_master_cmd n"
| "build (CSentinelSlaves n) = sentinel_slaves_cmd n"
| "build CSubscribe = subscribe_cmd"
| "build CInfo = info_cmd"
| "build CClusterNodes = cluster_nodes_cmd"

text \<open>The words of each command, as the Redis documentation spells it.\<close>

fun args :: "command \<Rightarrow> bytes list" where
  "args (CGet k) = [''get'', k]"
| "args (CExists k) = [''exists'', k]"
| "args (CSet k v) = [''set'', k, v]"
| "args (CSetex k t v) = [''setex'', k, toStr_u32 t, v]"
| "args (CDel k) = [''del'', k]"
| "args (CExpire k t) = [''expire'', k, toStr_u32 t]"
| "args CDbsize = [''DBSIZE'']"
| "args (CSadd k m) = [''sadd'', k, m]"
| "args (CSrem k m) = [''srem'', k, m]"
| "args (CScard k) = [''scard'', k]"
| "args (CSismember k m) = [''sismember'', k, m]"
| "args (CSmembers k) = [''smembers'', k]"
| "args (CZadd k m i) = [''zadd'', k, show_int i, m]"
| "args (CZrem k m) = [''zrem'', k, m]"
| "args (CZincrby k m i) = [''zincrby'', k, show_int i, m]"
| "args (CZcount k i j) = [''zcount'', k, show_int i, show_int j]"
| "args (CZcard k) = [''zcard'', k]"
| "args (CZscore k m) = [''zscore'', k, m]"
| "args (CZrangebyscore k i j) = [''zrangebyscore'', k, show_int i, show_int j]"
| "args (CZremrangebyscore k i j) = [''zremrangebyscore'', k, show_int i, show_int j]"
| "args (CWatch k) = [''watch'', k]"
| "args CUnwatchLock = [''unwatch'']"
| "args CMulti = [''multi'']"
| "args CDiscard = [''discard'']"
| "args CExec = [''exec'']"
| "args (CTSadd k m) = [''sadd'', k, m]"
| "args (CTSrem k m) = [''srem'', k, m]"
| "args (CKeys k) = [''keys'', k @ ''*'']"
| "args (CScan c k n m) = [''scan'', show_int (if m = SCAN_NOLOOP then 0 else c), ''MATCH'', k @ ''*'',
     ''COUNT'', show_int n]"
| "args (CAuth p) = [''auth'', p]"
| "args (CSentinelMaster n) = [''sentinel'', ''get-master-addr-by-name'', n]"
| "args (CSentinelSlaves n) = [''sentinel'', ''slaves'', n]"
| "args CSubscribe = [''subscribe'', ''+switch-master'']"
| "args CInfo = [''info'', ''replication'']"
| "args CClusterNodes = [''cluster'', ''nodes'']"

section \<open>Lemmas\<close>

definition arg_small :: "bytes \<Rightarrow> bool" where
  "arg_small v \<longleftrightarrow> length v < 10 ^ 6"

lemmas cmd_unfold =
  get_cmd_def exists_cmd_def set_cmd_def setex_cmd_def del_cmd_def expire_cmd_def dbsize_cmd_def
  sadd_cmd_def srem_cmd_def scard_cmd_def sismember_cmd_def smembers_cmd_def zadd_cmd_def
  zrem_cmd_def zincrby_cmd_def zcount_cmd_def zcard_cmd_def zscore_cmd_def zrangebyscore_cmd_def
  zremrangebyscore_cmd_def watch_cmd_def unwatch_lock_cmd_def multi_cmd_def discard_cmd_def
  exec_cmd_def tsadd_cmd_def tsrem_cmd_def keys_cmd_def scan_cmd_def auth_cmd_def
  sentinel_master_cmd_def sentinel_slaves_cmd_def subscribe_cmd_def info_cmd_def
  cluster_nodes_cmd_def

lemma build_paras: "fst (build c) = map para (args c)"
  by (cases c) (simp_all add: cmd_unfold add_str_def add_para_def fillCommandPara_def no_paras_def
      para_def Let_def)

lemma enc_bulk_small: "length v < 10 ^ 6 \<Longrightarrow> length (enc_bulk v) \<le> length v + 11"
  using show_nat_length [of "length v" 6] by (simp add: length_enc_bulk)

lemma enc_bulk_digit: "length v < 10 \<Longrightarrow> length (enc_bulk v) = length v + 6"
  by (simp add: length_enc_bulk show_nat.simps)

lemma length_enc_request:
  "length vs < 10 \<Longrightarrow> length (enc_request vs) = 4 + sum_list (map (\<lambda>v. length (enc_bulk v)) vs)"
  by (simp add: enc_request_def crlf_def show_nat.simps length_concat comp_def)

lemma enc_bulk_two:
  "10 \<le> length v \<Longrightarrow> length v < 100 \<Longrightarrow> length (enc_bulk v) = length v + 7"
  by (simp add: length_enc_bulk show_nat.simps)

lemma args_count: "length (args c) < 10" "args c \<noteq> []"
  by (cases c; simp)+

lemma build_fits_int:
  assumes "\<forall>v \<in> set (args c). arg_small v"
  shows "int (length (enc_request (args c))) \<le> snd (build c)"
proof -
  have "\<forall>v \<in> set (args c). length (enc_bulk v) \<le> length v + 11"
    using assms enc_bulk_small by (auto simp: arg_small_def)
  then show ?thesis
    by (cases c)
      (auto simp: length_enc_request cmd_unfold add_str_def add_para_def no_paras_def Let_def
        enc_bulk_digit enc_bulk_two)
qed

lemma build_fits:
  assumes "\<forall>v \<in> set (args c). arg_small v"
  shows "length (enc_request (args c)) \<le> nat (snd (build c))"
  using build_fits_int [OF assms] by linarith

lemma build_request:
  assumes "\<forall>v \<in> set (args c). arg_small v"
  shows "createRedisCommand (fst (build c)) (nat (snd (build c))) = Inr (True, enc_request (args c))"
  using create_request [OF args_count(2) build_fits [OF assms]] by (simp add: build_paras)

section \<open>Properties\<close>



text \<open>
  \<open>Unwatch\<close> sends the word \<open>unwatc\<close>: it passes 6 as the length of
  \<open>unwatch\<close>, so a server never sees an UNWATCH.
\<close>

lemma unwatch_is_misspelt:
  "\<exists>buf. createRedisCommand (fst unwatch_cmd) (nat (snd unwatch_cmd)) = Inr (True, buf)
     \<and> dec_request buf = Some [''unwatc'']"
proof -
  have "fst unwatch_cmd = map para [''unwatc'']" "snd unwatch_cmd = 20"
    by (simp_all add: unwatch_cmd_def add_para_def no_paras_def fillCommandPara_def para_def)
  moreover have "length (enc_request [''unwatc'']) \<le> nat 20"
    by (simp add: length_enc_request enc_bulk_digit)
  ultimately show ?thesis
    using create_request [of "[''unwatc'']" "nat 20"] dec_enc_request by (metis list.distinct(1))
qed

end
