(* ===== verification/DB_Stream.thy ===== *)
theory DB_Stream
  imports Prelude
begin

text \<open>
  The byte streams of \<open>dbstream.h\<close> and \<open>dbstream.cpp\<close> in which entities are
  written to and read from Redis: \<open>DBOutStream\<close> with its growing buffer,
  \<open>DBInStream\<close> with its load-error flag, and the base class \<open>DBSerialize\<close>.
  Integers are stored as the host lays them out, little endian.
\<close>

named_theorems stream_simps \<open>reading what was written\<close>

section \<open>Integers in memory\<close>

fun le_of_nat :: "nat \<Rightarrow> nat \<Rightarrow> bytes" where
  "le_of_nat 0 x = []"
| "le_of_nat (Suc n) x = char_of (x mod 256) # le_of_nat n (x div 256)"

fun nat_of_le :: "bytes \<Rightarrow> nat" where
  "nat_of_le [] = 0"
| "nat_of_le (c # s) = of_char c + 256 * nat_of_le s"

definition word_bytes :: "'a::len word \<Rightarrow> bytes" where
  "word_bytes w = le_of_nat (LENGTH('a) div 8) (unat w)"

definition bytes_word :: "bytes \<Rightarrow> 'a::len word" where
  "bytes_word s = word_of_nat (nat_of_le s)"

section \<open>The output stream\<close>

record db_out =
  m_data :: bytes
  m_cursor :: nat
  m_capacity :: int

definition max_block_size :: nat where
  "max_block_size = 4096"

definition DBOutStream :: db_out where
  "DBOutStream = \<lparr> m_data = replicate max_block_size NUL, m_cursor = 0,
                   m_capacity = int max_block_size \<rparr>"

definition getSize :: "db_out \<Rightarrow> nat" where
  "getSize out = m_cursor out"

text \<open>The loop that doubles the buffer; \<open>None\<close> would be a loop that never ends.\<close>

partial_function (option) out_grow :: "nat \<Rightarrow> db_out \<Rightarrow> db_out res option" where
  "out_grow sz out =
     (if int (m_cursor out) + int sz > m_capacity out then
        if \<not> in_int32 (m_capacity out * 2) then Some (Inl SignedOverflow)
        else if m_capacity out * 2 < 0 then Some (Inl BadAlloc)
        else out_grow sz
          (out\<lparr> m_capacity := m_capacity out * 2,
                m_data := take (getSize out) (m_data out) @
                          replicate (nat (m_capacity out * 2) - getSize out) NUL \<rparr>)
      else Some (Inr out))"

declare out_grow.simps [code]

definition out_save :: "bytes \<Rightarrow> db_out \<Rightarrow> db_out res" where
  "out_save p out =
     (case out_grow (length p) out of
        None \<Rightarrow> Inl Diverges
      | Some r \<Rightarrow> res_bind r (\<lambda>o1.
          if m_cursor o1 + length p > length (m_data o1) then Inl Overrun
          else Inr (o1\<lparr> m_data := take (m_cursor o1) (m_data o1) @ p @
                                   drop (m_cursor o1 + length p) (m_data o1),
                         m_cursor := m_cursor o1 + length p \<rparr>)))"

definition out_word :: "'a::len word \<Rightarrow> db_out \<Rightarrow> db_out res" where
  "out_word i out = out_save (word_bytes i) out"

definition out_string :: "string \<Rightarrow> db_out \<Rightarrow> db_out res" where
  "out_string str out = out_save (cstr str @ [NUL]) out"

fun out_strings :: "string list \<Rightarrow> db_out \<Rightarrow> db_out res" where
  "out_strings [] out = Inr out"
| "out_strings (s # ss) out = res_bind (out_string s out) (out_strings ss)"

definition out_strlist :: "string list \<Rightarrow> db_out \<Rightarrow> db_out res" where
  "out_strlist strList out =
     res_bind (out_word (word_of_nat (length strList) :: 16 word) out) (out_strings strList)"

section \<open>The input stream\<close>

record db_in =
  i_data :: bytes
  i_cursor :: nat
  i_datalen :: nat
  m_loadError :: int

text \<open>
  \<open>i_data\<close> is the allocation behind the pointer the constructor gets; the client
  allocates one byte more than the value and zeroes it.
\<close>

definition DBInStream :: "bytes \<Rightarrow> nat \<Rightarrow> db_in" where
  "DBInStream d n = \<lparr> i_data = d, i_cursor = 0, i_datalen = n, m_loadError = 0 \<rparr>"

definition in_load :: "nat \<Rightarrow> db_in \<Rightarrow> (bytes option \<times> db_in) res" where
  "in_load sz inp =
     (if i_cursor inp + sz > i_datalen inp then Inr (None, inp\<lparr> m_loadError := 1 \<rparr>)
      else if i_cursor inp + sz > length (i_data inp) then Inl Overrun
      else Inr (Some (take sz (drop (i_cursor inp) (i_data inp))),
                inp\<lparr> i_cursor := i_cursor inp + sz \<rparr>))"

text \<open>A failed load leaves the variable as it was.\<close>

definition in_word :: "'a::len word \<Rightarrow> db_in \<Rightarrow> ('a word \<times> db_in) res" where
  "in_word old inp =
     res_bind (in_load (LENGTH('a) div 8) inp) (\<lambda>(b, inp1).
       Inr (case b of None \<Rightarrow> old | Some s \<Rightarrow> bytes_word s, inp1))"

definition in_string :: "db_in \<Rightarrow> (string \<times> db_in) res" where
  "in_string inp =
     (let rest = drop (i_cursor inp) (i_data inp); str = cstr rest in
      if length str = length rest then Inl Overrun
      else Inr (str, inp\<lparr> i_cursor := i_cursor inp + length str + 1 \<rparr>))"

fun in_strings :: "nat \<Rightarrow> db_in \<Rightarrow> (string list \<times> db_in) res" where
  "in_strings 0 inp = Inr ([], inp)"
| "in_strings (Suc n) inp =
     res_bind (in_string inp) (\<lambda>(s, inp1).
     res_bind (in_strings n inp1) (\<lambda>(ss, inp2). Inr (s # ss, inp2)))"

text \<open>\<open>junk\<close> is the value of the uninitialised \<open>num\<close>, used when its load fails.\<close>

definition in_strlist :: "16 word \<Rightarrow> db_in \<Rightarrow> (string list \<times> db_in) res" where
  "in_strlist junk inp =
     res_bind (in_word junk inp) (\<lambda>(num, inp1). in_strings (unat num) inp1)"

section \<open>The serialisable base class\<close>

record db_serialize =
  m_data_version :: "64 word"
  support_data_version :: bool

definition save_with_version ::
  "('a db_serialize_scheme \<Rightarrow> db_out \<Rightarrow> db_out res) \<Rightarrow> 'a db_serialize_scheme \<Rightarrow> db_out \<Rightarrow> db_out res"
where
  "save_with_version save x out = res_bind (save x out) (out_word (m_data_version x))"

definition load_with_version ::
  "('a db_serialize_scheme \<Rightarrow> db_in \<Rightarrow> ('a db_serialize_scheme \<times> db_in) res) \<Rightarrow>
   'a db_serialize_scheme \<Rightarrow> db_in \<Rightarrow> ('a db_serialize_scheme \<times> db_in) res"
where
  "load_with_version load x inp =
     res_bind (load x inp) (\<lambda>(y, inp1).
     res_bind (in_word (m_data_version y) inp1) (\<lambda>(v, inp2).
       Inr (y\<lparr> m_data_version := v \<rparr>, inp2)))"

section \<open>Lemmas: integers\<close>

lemma length_le_of_nat [simp]: "length (le_of_nat n x) = n"
  by (induction n arbitrary: x) simp_all

lemma nat_of_le_of_nat: "nat_of_le (le_of_nat n x) = x mod 256 ^ n"
proof (induction n arbitrary: x)
  case (Suc n)
  have "x mod 256 + 256 * (x div 256 mod 256 ^ n) = x mod (256 * 256 ^ n)"
    by (simp add: mod_mult2_eq)
  with Suc show ?case by simp
qed simp

lemma length_word_bytes [simp]: "length (word_bytes (w :: 'a::len word)) = LENGTH('a) div 8"
  by (simp add: word_bytes_def)

lemma bytes_word_bytes [stream_simps]:
  assumes "8 dvd LENGTH('a::len)"
  shows "bytes_word (word_bytes (w :: 'a word)) = w"
proof -
  have "(256 :: nat) ^ (LENGTH('a) div 8) = (2 ^ 8) ^ (LENGTH('a) div 8)" by simp
  also have "\<dots> = 2 ^ LENGTH('a)"
    using assms by (simp only: power_mult [symmetric] dvd_mult_div_cancel)
  finally have "unat w mod 256 ^ (LENGTH('a) div 8) = unat w"
    using unsigned_less [where ?'a = nat, of w] by simp
  then show ?thesis
    by (simp add: bytes_word_def word_bytes_def nat_of_le_of_nat)
qed

section \<open>Lemmas: the output stream appends\<close>

definition out_inv :: "db_out \<Rightarrow> bool" where
  "out_inv out \<longleftrightarrow> m_capacity out > 0 \<and> length (m_data out) = nat (m_capacity out)
     \<and> m_cursor out \<le> length (m_data out)"

definition out_bytes :: "db_out \<Rightarrow> bytes" where
  "out_bytes out = take (m_cursor out) (m_data out)"

lemma out_inv_init [simp]: "out_inv DBOutStream"
  by (simp add: out_inv_def DBOutStream_def max_block_size_def)

lemma out_bytes_init [simp]: "out_bytes DBOutStream = []"
  by (simp add: out_bytes_def DBOutStream_def)

lemma length_out_bytes: "out_inv out \<Longrightarrow> length (out_bytes out) = getSize out"
  by (simp add: out_bytes_def out_inv_def getSize_def)

definition stream_limit :: nat where
  "stream_limit = 2 ^ 30"

lemma out_grow_ok:
  assumes "out_inv out" and "m_cursor out + sz \<le> stream_limit"
  shows "\<exists>o1. out_grow sz out = Some (Inr o1) \<and> out_inv o1 \<and> out_bytes o1 = out_bytes out
     \<and> m_cursor o1 = m_cursor out \<and> int (m_cursor o1) + int sz \<le> m_capacity o1"
  using assms
proof (induction "nat (int (m_cursor out) + int sz - m_capacity out)"
    arbitrary: out rule: less_induct)
  case less
  show ?case
  proof (cases "int (m_cursor out) + int sz > m_capacity out")
    case False
    then show ?thesis using less.prems by (subst out_grow.simps) auto
  next
    case True
    let ?o = "out\<lparr> m_capacity := m_capacity out * 2,
                m_data := take (getSize out) (m_data out) @
                          replicate (nat (m_capacity out * 2) - getSize out) NUL \<rparr>"
    have cap: "m_capacity out > 0" "m_capacity out < 2 ^ 30"
      using less.prems True by (auto simp: out_inv_def stream_limit_def)
    have inv: "out_inv ?o" "m_cursor ?o + sz \<le> stream_limit"
      and eq: "out_bytes ?o = out_bytes out" "m_cursor ?o = m_cursor out"
      using less.prems by (auto simp: out_inv_def out_bytes_def getSize_def)
    have "nat (int (m_cursor ?o) + int sz - m_capacity ?o)
        < nat (int (m_cursor out) + int sz - m_capacity out)"
      using cap True by simp
    from less.hyps [OF this inv] obtain o1 where o1: "out_grow sz ?o = Some (Inr o1)"
      "out_inv o1" "out_bytes o1 = out_bytes out" "m_cursor o1 = m_cursor out"
      "int (m_cursor o1) + int sz \<le> m_capacity o1"
      unfolding eq by blast
    have "out_grow sz out = out_grow sz ?o"
      using True cap by (subst out_grow.simps)
        (simp add: in_int32_def int32_min_def int32_max_def)
    with o1 show ?thesis by auto
  qed
qed

lemma out_save_ok:
  assumes "out_inv out" and "length (out_bytes out) + length p \<le> stream_limit"
  shows "\<exists>o1. out_save p out = Inr o1 \<and> out_inv o1 \<and> out_bytes o1 = out_bytes out @ p"
proof -
  obtain o1 where o1: "out_grow (length p) out = Some (Inr o1)" "out_inv o1"
    "out_bytes o1 = out_bytes out" "int (m_cursor o1) + int (length p) \<le> m_capacity o1"
    using out_grow_ok [of out "length p"] assms by (auto simp: length_out_bytes getSize_def)
  then have le: "m_cursor o1 + length p \<le> length (m_data o1)"
    by (auto simp: out_inv_def)
  define o2 where "o2 = o1\<lparr> m_data := take (m_cursor o1) (m_data o1) @ p @
      drop (m_cursor o1 + length p) (m_data o1), m_cursor := m_cursor o1 + length p \<rparr>"
  have "out_save p out = Inr o2"
    using o1(1) le by (simp add: out_save_def o2_def)
  moreover have "out_inv o2" "out_bytes o2 = out_bytes o1 @ p"
    using le o1(2) by (simp_all add: o2_def out_inv_def out_bytes_def)
  ultimately show ?thesis using o1(3) by auto
qed

text \<open>A writer that appends \<open>p\<close> from every good stream with room for it.\<close>

definition appends :: "(db_out \<Rightarrow> db_out res) \<Rightarrow> bytes \<Rightarrow> bool" where
  "appends f p \<longleftrightarrow> (\<forall>out. out_inv out \<longrightarrow> length (out_bytes out) + length p \<le> stream_limit \<longrightarrow>
     (\<exists>o1. f out = Inr o1 \<and> out_inv o1 \<and> out_bytes o1 = out_bytes out @ p))"

lemma appends_save [intro]: "appends (out_save p) p"
  by (simp add: appends_def out_save_ok)

lemma appends_word [intro]: "appends (out_word w) (word_bytes w)"
  unfolding out_word_def by (rule appends_save)

lemma appends_string [intro]: "appends (out_string s) (cstr s @ [NUL])"
  unfolding out_string_def by (rule appends_save)

lemma appends_bind [intro]:
  assumes "appends f p" "appends g q"
  shows "appends (\<lambda>out. res_bind (f out) g) (p @ q)"
  unfolding appends_def
proof (intro allI impI)
  fix out
  assume "out_inv out" "length (out_bytes out) + length (p @ q) \<le> stream_limit"
  with assms(1) obtain o1 where "f out = Inr o1" "out_inv o1" "out_bytes o1 = out_bytes out @ p"
    by (fastforce simp: appends_def)
  moreover from this assms(2) \<open>length (out_bytes out) + length (p @ q) \<le> stream_limit\<close>
  obtain o2 where "g o1 = Inr o2" "out_inv o2" "out_bytes o2 = out_bytes o1 @ q"
    by (fastforce simp: appends_def)
  ultimately show "\<exists>o1. res_bind (f out) g = Inr o1 \<and> out_inv o1
      \<and> out_bytes o1 = out_bytes out @ p @ q" by simp
qed

lemma appends_strings: "appends (out_strings ss) (concat (map (\<lambda>s. cstr s @ [NUL]) ss))"
proof (induction ss)
  case (Cons s ss)
  have "appends (\<lambda>out. res_bind (out_string s out) (out_strings ss))
     ((cstr s @ [NUL]) @ concat (map (\<lambda>s. cstr s @ [NUL]) ss))"
    by (rule appends_bind [OF appends_string Cons])
  then show ?case by (simp add: appends_def)
qed (simp add: appends_def)

section \<open>Lemmas: the input stream consumes\<close>

definition in_wf :: "db_in \<Rightarrow> bool" where
  "in_wf inp \<longleftrightarrow> i_cursor inp \<le> i_datalen inp \<and> i_datalen inp \<le> length (i_data inp)"

definition in_rest :: "db_in \<Rightarrow> bytes" where
  "in_rest inp = drop (i_cursor inp) (take (i_datalen inp) (i_data inp))"

definition advance :: "nat \<Rightarrow> db_in \<Rightarrow> db_in" where
  "advance n inp = inp\<lparr> i_cursor := i_cursor inp + n \<rparr>"

text \<open>The stream stands before \<open>s\<close>.\<close>

definition in_at :: "db_in \<Rightarrow> bytes \<Rightarrow> bool" where
  "in_at inp s \<longleftrightarrow> in_wf inp \<and> in_rest inp = s"

lemma in_at_advance: "in_at inp (p @ s) \<Longrightarrow> in_at (advance (length p) inp) s"
proof -
  assume a: "in_at inp (p @ s)"
  then have "length p \<le> i_datalen inp - i_cursor inp"
    by (auto simp: in_at_def in_wf_def in_rest_def dest: arg_cong [of _ _ length])
  with a have "in_wf (advance (length p) inp)"
    by (auto simp: in_at_def in_wf_def advance_def)
  moreover have "in_rest (advance (length p) inp) = drop (length p) (in_rest inp)"
    by (simp add: in_rest_def advance_def add.commute)
  ultimately show ?thesis using a by (simp add: in_at_def)
qed

lemma advance_advance [simp]: "advance n (advance m inp) = advance (m + n) inp"
  by (simp add: advance_def add.assoc)

lemma advance_0 [simp]: "advance 0 inp = inp"
  by (simp add: advance_def)

lemma drop_take_split:
  assumes "c \<le> d" "d \<le> length xs"
  shows "drop c xs = drop c (take d xs) @ drop d xs"
proof -
  have "drop c xs = drop c (take d xs @ drop d xs)" by (simp only: append_take_drop_id)
  also have "\<dots> = drop c (take d xs) @ drop d xs"
    using assms by (simp add: drop_append del: append_take_drop_id)
  finally show ?thesis .
qed

lemma in_at_split:
  assumes "in_at inp s"
  shows "\<exists>t. drop (i_cursor inp) (i_data inp) = s @ t"
  using assms drop_take_split [of "i_cursor inp" "i_datalen inp" "i_data inp"]
  by (auto simp: in_at_def in_wf_def in_rest_def)

lemma in_load_at [stream_simps]:
  assumes "in_at inp (p @ s)" and "n = length p"
  shows "in_load n inp = Inr (Some p, advance n inp)"
proof -
  have "length (in_rest inp) \<le> i_datalen inp - i_cursor inp"
    by (simp add: in_rest_def)
  with assms have le: "i_cursor inp + n \<le> i_datalen inp" "i_cursor inp + n \<le> length (i_data inp)"
    by (auto simp: in_at_def in_wf_def)
  obtain t where "drop (i_cursor inp) (i_data inp) = (p @ s) @ t"
    using in_at_split [OF assms(1)] by blast
  with le assms(2) show ?thesis by (simp add: in_load_def advance_def)
qed

lemma in_word_at [stream_simps]:
  assumes "in_at inp (word_bytes (w :: 'a::len word) @ s)" and "8 dvd LENGTH('a)"
  shows "in_word old inp = Inr (w, advance (LENGTH('a) div 8) inp)"
  by (simp add: in_word_def in_load_at [OF assms(1)] bytes_word_bytes assms(2))

lemma in_string_at [stream_simps]:
  assumes "in_at inp (str @ NUL # s)" and "NUL \<notin> set str"
  shows "in_string inp = Inr (str, advance (length str + 1) inp)"
proof -
  obtain t where "drop (i_cursor inp) (i_data inp) = (str @ NUL # s) @ t"
    using in_at_split [OF assms(1)] by blast
  moreover have "cstr ((str @ NUL # s) @ t) = str"
    using assms(2) by (simp add: cstr_append_nul)
  ultimately show ?thesis by (simp add: in_string_def Let_def advance_def)
qed

text \<open>A reader that, standing before \<open>p\<close>, returns \<open>x\<close> and stands after it.\<close>

definition consumes :: "(db_in \<Rightarrow> ('a \<times> db_in) res) \<Rightarrow> bytes \<Rightarrow> 'a \<Rightarrow> bool" where
  "consumes f p x \<longleftrightarrow>
     (\<forall>inp s. in_at inp (p @ s) \<longrightarrow> f inp = Inr (x, advance (length p) inp))"

lemma consumes_word [intro]:
  "8 dvd LENGTH('a::len) \<Longrightarrow> consumes (in_word old) (word_bytes (w :: 'a word)) w"
  by (simp add: consumes_def in_word_at)

lemma consumes_string [intro]: "NUL \<notin> set s \<Longrightarrow> consumes in_string (s @ [NUL]) s"
  by (simp add: consumes_def in_string_at)

lemma consumes_return: "consumes (\<lambda>inp. Inr (x, inp)) [] x"
  by (simp add: consumes_def)

lemma consumes_bind:
  assumes "consumes f p x" "consumes (g x) q y"
  shows "consumes (\<lambda>inp. res_bind (f inp) (\<lambda>(v, inp1). g v inp1)) (p @ q) y"
  unfolding consumes_def
proof (intro allI impI)
  fix inp s
  assume at: "in_at inp ((p @ q) @ s)"
  then have "f inp = Inr (x, advance (length p) inp)"
    using assms(1) by (auto simp: consumes_def)
  moreover have "g x (advance (length p) inp) = Inr (y, advance (length q) (advance (length p) inp))"
    using assms(2) in_at_advance [of inp p "q @ s"] at
    by (auto simp: consumes_def simp del: advance_advance)
  ultimately show "res_bind (f inp) (\<lambda>(v, inp1). g v inp1) = Inr (y, advance (length (p @ q)) inp)"
    by simp
qed

lemma consumes_map:
  assumes "consumes f p x"
  shows "consumes (\<lambda>inp. res_bind (f inp) (\<lambda>(v, inp1). Inr (h v, inp1))) p (h x)"
  using assms by (simp add: consumes_def)

lemma consumes_strings:
  "\<forall>s \<in> set ss. NUL \<notin> set s \<Longrightarrow>
   consumes (in_strings (length ss)) (concat (map (\<lambda>s. s @ [NUL]) ss)) ss"
proof (induction ss)
  case (Cons s ss)
  have "consumes (\<lambda>inp. res_bind (in_string inp) (\<lambda>(v, inp1).
     res_bind (in_strings (length ss) inp1) (\<lambda>(vs, inp2). Inr (v # vs, inp2))))
     ((s @ [NUL]) @ concat (map (\<lambda>s. s @ [NUL]) ss)) (s # ss)"
  proof (rule consumes_bind)
    show "consumes in_string (s @ [NUL]) s" using Cons.prems by auto
    show "consumes (\<lambda>inp1. res_bind (in_strings (length ss) inp1)
       (\<lambda>(vs, inp2). Inr (s # vs, inp2))) (concat (map (\<lambda>s. s @ [NUL]) ss)) (s # ss)"
      using Cons by (intro consumes_map [where h = "(#) s"]) simp
  qed
  then show ?case by (simp add: consumes_def)
qed (simp add: consumes_def)

lemma appends_strlist:
  "appends (out_strlist ss)
     (word_bytes (word_of_nat (length ss) :: 16 word) @ concat (map (\<lambda>s. cstr s @ [NUL]) ss))"
  unfolding out_strlist_def [abs_def] by (rule appends_bind [OF appends_word appends_strings])

lemma consumes_strlist:
  assumes "\<forall>s \<in> set ss. NUL \<notin> set s" and "length ss < 2 ^ 16"
  shows "consumes (in_strlist junk)
     (word_bytes (word_of_nat (length ss) :: 16 word) @ concat (map (\<lambda>s. s @ [NUL]) ss)) ss"
proof -
  let ?n = "word_of_nat (length ss) :: 16 word"
  have "unat ?n = length ss" using assms(2) by (simp add: unat_of_nat take_bit_nat_eq_self)
  then have "consumes (in_strings (unat ?n)) (concat (map (\<lambda>s. s @ [NUL]) ss)) ss"
    using consumes_strings [OF assms(1)] by simp
  then have "consumes (\<lambda>inp. res_bind (in_word junk inp) (\<lambda>(num, inp1). in_strings (unat num) inp1))
      (word_bytes ?n @ concat (map (\<lambda>s. s @ [NUL]) ss)) ss"
    by (intro consumes_bind [where x = ?n] consumes_word) simp_all
  then show ?thesis by (simp add: in_strlist_def [abs_def])
qed

lemma in_at_DBInStream: "in_at (DBInStream (p @ [NUL]) (length p)) p"
  by (simp add: in_at_def in_wf_def in_rest_def DBInStream_def)

text \<open>Writing to a fresh stream and reading the allocation the client makes of it.\<close>

lemma fresh_write:
  assumes "appends f p" and "length p \<le> stream_limit"
  shows "\<exists>out. f DBOutStream = Inr out \<and> out_bytes out = p \<and> getSize out = length p"
  using assms length_out_bytes unfolding appends_def by (metis append_Nil list.size(3) add_0
      out_bytes_init out_inv_init)

lemma fresh_read:
  assumes "consumes f p x"
  shows "f (DBInStream (p @ [NUL]) (length p))
     = Inr (x, advance (length p) (DBInStream (p @ [NUL]) (length p)))"
  using assms in_at_DBInStream [of p] unfolding consumes_def by (metis append_Nil2)

lemma advance_no_error: "m_loadError (advance n inp) = m_loadError inp"
  by (simp add: advance_def)

end
