(* ===== verification/Entities.thy ===== *)
theory Entities
  imports DB_Stream
begin

text \<open>
  The three kinds of data the restorer keeps in Redis: \<open>device.cpp\<close>,
  \<open>channel.cpp\<close> and \<open>executinginvitecmd.cpp\<close>.  Each is a record that extends
  \<open>db_serialize\<close>, with its identifier, its \<open>save\<close> and its \<open>load\<close>.  The locale
  \<open>serial\<close> is the contract between an entity and the stream; the managers rely
  on it only.
\<close>

section \<open>The entities\<close>

definition ToString :: "32 word \<Rightarrow> string" where
  "ToString i = show_int (sint i)"

record device = db_serialize +
  device_id :: string
  device_sip_ip :: string
  device_sip_port :: "16 word"
  device_state :: "32 word"

definition Device :: "string \<Rightarrow> device" where
  "Device i = \<lparr> m_data_version = 0, support_data_version = False, device_id = i,
     device_sip_ip = [], device_sip_port = 0, device_state = 0 \<rparr>"

definition GetDeviceId :: "device \<Rightarrow> string" where
  "GetDeviceId d = device_id d"

definition device_save :: "device \<Rightarrow> db_out \<Rightarrow> db_out res" where
  "device_save d out =
     res_bind (out_string (device_id d) out) (\<lambda>out.
     res_bind (out_string (device_sip_ip d) out) (\<lambda>out.
     res_bind (out_word (device_sip_port d) out)
       (out_word (device_state d))))"

definition device_load :: "device \<Rightarrow> db_in \<Rightarrow> (device \<times> db_in) res" where
  "device_load d inp =
     res_bind (in_string inp) (\<lambda>(a, inp).
     res_bind (in_string inp) (\<lambda>(b, inp).
     res_bind (in_word (device_sip_port d) inp) (\<lambda>(c, inp).
     res_bind (in_word (device_state d) inp) (\<lambda>(e, inp).
       Inr (d\<lparr> device_id := a, device_sip_ip := b, device_sip_port := c, device_state := e \<rparr>, inp)))))"

record channel = db_serialize +
  channel_id :: string
  chn_device_id :: string
  chn_device_sip_ip :: string
  chn_device_sip_port :: string
  channel_device_id :: string
  channel_name :: string

definition Channel :: "string \<Rightarrow> string \<Rightarrow> channel" where
  "Channel d c = \<lparr> m_data_version = 0, support_data_version = False, channel_id = [],
     chn_device_id = d, chn_device_sip_ip = [], chn_device_sip_port = [],
     channel_device_id = c, channel_name = [] \<rparr>"

definition GetChannelId :: "channel \<Rightarrow> string" where
  "GetChannelId c = chn_device_id c @ channel_device_id c"

definition channel_save :: "channel \<Rightarrow> db_out \<Rightarrow> db_out res" where
  "channel_save c out =
     res_bind (out_string (chn_device_id c) out) (\<lambda>out.
     res_bind (out_string (chn_device_sip_ip c) out) (\<lambda>out.
     res_bind (out_string (chn_device_sip_port c) out) (\<lambda>out.
     res_bind (out_string (channel_device_id c) out)
       (out_string (channel_name c)))))"

definition channel_load :: "channel \<Rightarrow> db_in \<Rightarrow> (channel \<times> db_in) res" where
  "channel_load c inp =
     res_bind (in_string inp) (\<lambda>(a, inp).
     res_bind (in_string inp) (\<lambda>(b, inp).
     res_bind (in_string inp) (\<lambda>(d, inp).
     res_bind (in_string inp) (\<lambda>(e, inp).
     res_bind (in_string inp) (\<lambda>(f, inp).
       Inr (c\<lparr> chn_device_id := a, chn_device_sip_ip := b, chn_device_sip_port := d,
               channel_device_id := e, channel_name := f \<rparr>, inp))))))"

record executing_invite_cmd = db_serialize +
  cmd_sender_id :: string
  cmd_device_id :: string
  cmd_type :: "32 word"
  cmd_seq :: "32 word"
  sip_restarted :: bool

text \<open>The constructors leave \<open>cmd_type\<close> and \<open>sip_restarted_\<close> (and one of them
  \<open>cmd_seq_\<close>) uninitialised: \<open>junk\<close> is what the memory holds.\<close>

definition ExecutingInviteCmd :: "executing_invite_cmd \<Rightarrow> 32 word \<Rightarrow> executing_invite_cmd" where
  "ExecutingInviteCmd junk seq = junk\<lparr> m_data_version := 0, support_data_version := False,
     cmd_sender_id := [], cmd_device_id := [], cmd_seq := seq \<rparr>"

definition GetId :: "executing_invite_cmd \<Rightarrow> string" where
  "GetId c = cmd_sender_id c @ cmd_device_id c @ ToString (cmd_seq c)"

definition SetSipRestarted :: "bool \<Rightarrow> executing_invite_cmd \<Rightarrow> executing_invite_cmd" where
  "SetSipRestarted b c = c\<lparr> sip_restarted := b \<rparr>"

definition cmd_save :: "executing_invite_cmd \<Rightarrow> db_out \<Rightarrow> db_out res" where
  "cmd_save c out =
     res_bind (out_string (cmd_sender_id c) out) (\<lambda>out.
     res_bind (out_string (cmd_device_id c) out) (\<lambda>out.
     res_bind (out_word (cmd_type c) out)
       (out_word (cmd_seq c))))"

definition cmd_load :: "executing_invite_cmd \<Rightarrow> db_in \<Rightarrow> (executing_invite_cmd \<times> db_in) res" where
  "cmd_load c inp =
     res_bind (in_string inp) (\<lambda>(a, inp).
     res_bind (in_string inp) (\<lambda>(b, inp).
     res_bind (in_word (cmd_type c) inp) (\<lambda>(d, inp).
     res_bind (in_word (cmd_seq c) inp) (\<lambda>(e, inp).
       Inr (c\<lparr> cmd_sender_id := a, cmd_device_id := b, cmd_type := d, cmd_seq := e \<rparr>, inp)))))"

section \<open>The contract of a serialisable entity\<close>

text \<open>
  \<open>enc x\<close> are the bytes \<open>save\<close> appends; \<open>ok x\<close> says that \<open>x\<close> survives, and
  \<open>merge old x\<close> is what \<open>load\<close> makes of the object \<open>old\<close> it is called on.
\<close>

locale serial =
  fixes save :: "'a db_serialize_scheme \<Rightarrow> db_out \<Rightarrow> db_out res"
    and load :: "'a db_serialize_scheme \<Rightarrow> db_in \<Rightarrow> ('a db_serialize_scheme \<times> db_in) res"
    and enc :: "'a db_serialize_scheme \<Rightarrow> bytes"
    and ok :: "'a db_serialize_scheme \<Rightarrow> bool"
    and merge :: "'a db_serialize_scheme \<Rightarrow> 'a db_serialize_scheme \<Rightarrow> 'a db_serialize_scheme"
  assumes save_appends: "appends (save x) (enc x)"
    and load_consumes: "ok x \<Longrightarrow> consumes (load old) (enc x) (merge old x)"
    and merge_version: "m_data_version (merge old x) = m_data_version old"
begin

lemma save_fresh:
  "length (enc x) \<le> stream_limit \<Longrightarrow>
     \<exists>out. save x DBOutStream = Inr out \<and> out_bytes out = enc x \<and> getSize out = length (enc x)"
  by (rule fresh_write [OF save_appends])

lemma load_fresh:
  assumes "ok x"
  shows "\<exists>inp. load old (DBInStream (enc x @ [NUL]) (length (enc x))) = Inr (merge old x, inp)
     \<and> m_loadError inp = 0"
  using fresh_read [OF load_consumes [OF assms, of old]]
  by (simp add: advance_no_error DBInStream_def)

lemma versioned_appends:
  "appends (save_with_version save x) (enc x @ word_bytes (m_data_version x))"
  unfolding save_with_version_def [abs_def] by (rule appends_bind [OF save_appends appends_word])

lemma versioned_consumes:
  assumes "ok x"
  shows "consumes (load_with_version load old) (enc x @ word_bytes v)
     (merge old x\<lparr> m_data_version := v \<rparr>)"
proof -
  have "consumes (\<lambda>inp. res_bind (load old inp) (\<lambda>(y, inp1).
      res_bind (in_word (m_data_version y) inp1) (\<lambda>(v, inp2).
        Inr (y\<lparr> m_data_version := v \<rparr>, inp2)))) (enc x @ word_bytes v)
      (merge old x\<lparr> m_data_version := v \<rparr>)"
  proof (rule consumes_bind [OF load_consumes [OF assms]])
    show "consumes (\<lambda>inp1. res_bind (in_word (m_data_version (merge old x)) inp1)
       (\<lambda>(v, inp2). Inr (merge old x\<lparr> m_data_version := v \<rparr>, inp2))) (word_bytes v)
       (merge old x\<lparr> m_data_version := v \<rparr>)"
      by (rule consumes_map [where h = "\<lambda>v. merge old x\<lparr> m_data_version := v \<rparr>"]) auto
  qed
  then show ?thesis by (simp add: load_with_version_def [abs_def])
qed

end

section \<open>The entities meet the contract\<close>

definition str_ok :: "string \<Rightarrow> bool" where
  "str_ok s \<longleftrightarrow> NUL \<notin> set s"

definition device_enc :: "device \<Rightarrow> bytes" where
  "device_enc d = (cstr (device_id d) @ [NUL]) @ (cstr (device_sip_ip d) @ [NUL]) @
     word_bytes (device_sip_port d) @ word_bytes (device_state d)"

definition device_ok :: "device \<Rightarrow> bool" where
  "device_ok d \<longleftrightarrow> str_ok (device_id d) \<and> str_ok (device_sip_ip d)"

definition device_merge :: "device \<Rightarrow> device \<Rightarrow> device" where
  "device_merge old d = old\<lparr> device_id := device_id d, device_sip_ip := device_sip_ip d,
     device_sip_port := device_sip_port d, device_state := device_state d \<rparr>"

text \<open>The last field of a record is read and put with the others by a map.\<close>

lemma consumes_last_word:
  "8 dvd LENGTH('a::len) \<Longrightarrow>
   consumes (\<lambda>inp. res_bind (in_word old inp) (\<lambda>(v, inp1). Inr (h v, inp1)))
     (word_bytes (w :: 'a word)) (h w)"
  by (rule consumes_map) (rule consumes_word)

lemma consumes_last_string:
  "NUL \<notin> set s \<Longrightarrow>
   consumes (\<lambda>inp. res_bind (in_string inp) (\<lambda>(v, inp1). Inr (h v, inp1))) (s @ [NUL]) (h s)"
  by (rule consumes_map) (rule consumes_string)

lemmas consumes_fields =
  consumes_bind [OF consumes_string] consumes_bind [OF consumes_word]
  consumes_last_word consumes_last_string

lemma device_merge_version: "m_data_version (device_merge old x) = m_data_version old"
  by (simp add: device_merge_def)

lemma device_save_appends: "appends (device_save d) (device_enc d)"
  unfolding device_save_def [abs_def] device_enc_def
  by (intro appends_bind appends_string appends_word)

lemma device_load_consumes:
  assumes "device_ok d"
  shows "consumes (device_load old) (device_enc d) (device_merge old d)"
proof -
  have ok: "NUL \<notin> set (device_id d)" "NUL \<notin> set (device_sip_ip d)"
    using assms by (simp_all add: device_ok_def str_ok_def)
  show ?thesis
    unfolding device_load_def [abs_def] device_enc_def device_merge_def ok [THEN cstr_id]
    by (rule consumes_fields ok | simp)+
qed

definition channel_enc :: "channel \<Rightarrow> bytes" where
  "channel_enc c = (cstr (chn_device_id c) @ [NUL]) @ (cstr (chn_device_sip_ip c) @ [NUL]) @
     (cstr (chn_device_sip_port c) @ [NUL]) @ (cstr (channel_device_id c) @ [NUL]) @
     (cstr (channel_name c) @ [NUL])"

definition channel_ok :: "channel \<Rightarrow> bool" where
  "channel_ok c \<longleftrightarrow> str_ok (chn_device_id c) \<and> str_ok (chn_device_sip_ip c) \<and>
     str_ok (chn_device_sip_port c) \<and> str_ok (channel_device_id c) \<and> str_ok (channel_name c)"

definition channel_merge :: "channel \<Rightarrow> channel \<Rightarrow> channel" where
  "channel_merge old c = old\<lparr> chn_device_id := chn_device_id c,
     chn_device_sip_ip := chn_device_sip_ip c, chn_device_sip_port := chn_device_sip_port c,
     channel_device_id := channel_device_id c, channel_name := channel_name c \<rparr>"

lemma channel_merge_version: "m_data_version (channel_merge old x) = m_data_version old"
  by (simp add: channel_merge_def)

lemma channel_save_appends: "appends (channel_save c) (channel_enc c)"
  unfolding channel_save_def [abs_def] channel_enc_def
  by (intro appends_bind appends_string)

lemma channel_load_consumes:
  assumes "channel_ok c"
  shows "consumes (channel_load old) (channel_enc c) (channel_merge old c)"
proof -
  have ok: "NUL \<notin> set (chn_device_id c)" "NUL \<notin> set (chn_device_sip_ip c)"
    "NUL \<notin> set (chn_device_sip_port c)" "NUL \<notin> set (channel_device_id c)"
    "NUL \<notin> set (channel_name c)"
    using assms by (simp_all add: channel_ok_def str_ok_def)
  show ?thesis
    unfolding channel_load_def [abs_def] channel_enc_def channel_merge_def ok [THEN cstr_id]
    by (rule consumes_fields ok | simp)+
qed

definition cmd_enc :: "executing_invite_cmd \<Rightarrow> bytes" where
  "cmd_enc c = (cstr (cmd_sender_id c) @ [NUL]) @ (cstr (cmd_device_id c) @ [NUL]) @
     word_bytes (cmd_type c) @ word_bytes (cmd_seq c)"

definition cmd_ok :: "executing_invite_cmd \<Rightarrow> bool" where
  "cmd_ok c \<longleftrightarrow> str_ok (cmd_sender_id c) \<and> str_ok (cmd_device_id c)"

definition cmd_merge :: "executing_invite_cmd \<Rightarrow> executing_invite_cmd \<Rightarrow> executing_invite_cmd" where
  "cmd_merge old c = old\<lparr> cmd_sender_id := cmd_sender_id c, cmd_device_id := cmd_device_id c,
     cmd_type := cmd_type c, cmd_seq := cmd_seq c \<rparr>"

lemma cmd_merge_version: "m_data_version (cmd_merge old x) = m_data_version old"
  by (simp add: cmd_merge_def)

lemma cmd_save_appends: "appends (cmd_save c) (cmd_enc c)"
  unfolding cmd_save_def [abs_def] cmd_enc_def
  by (intro appends_bind appends_string appends_word)

lemma cmd_load_consumes:
  assumes "cmd_ok c"
  shows "consumes (cmd_load old) (cmd_enc c) (cmd_merge old c)"
proof -
  have ok: "NUL \<notin> set (cmd_sender_id c)" "NUL \<notin> set (cmd_device_id c)"
    using assms by (simp_all add: cmd_ok_def str_ok_def)
  show ?thesis
    unfolding cmd_load_def [abs_def] cmd_enc_def cmd_merge_def ok [THEN cstr_id]
    by (rule consumes_fields ok | simp)+
qed

interpretation device: serial device_save device_load device_enc device_ok device_merge
  by unfold_locales (intro device_save_appends device_load_consumes device_merge_version; assumption?)+

interpretation channel: serial channel_save channel_load channel_enc channel_ok channel_merge
  by unfold_locales (intro channel_save_appends channel_load_consumes channel_merge_version; assumption?)+

interpretation cmd: serial cmd_save cmd_load cmd_enc cmd_ok cmd_merge
  by unfold_locales (intro cmd_save_appends cmd_load_consumes cmd_merge_version; assumption?)+

end
