(* ===== verification/Client_Replies.thy ===== *)
theory Client_Replies
  imports Redis_Pool Redis_Commands Entities Crc16
begin

text \<open>
  What \<open>redisclient.cpp\<close> makes of a reply: the \<open>parse...Reply\<close> functions, and the two
  \<open>switch\<close> statements that turn a reply into the result of a command, one for the
  stand-alone and sentinel modes and one for cluster mode.
\<close>

section \<open>Commands and results\<close>

datatype RedisCommandType =
    REDIS_COMMAND_UNKNOWN | REDIS_COMMAND_AUTH
  | REDIS_COMMAND_READ_TYPE_START | REDIS_COMMAND_GET | REDIS_COMMAND_EXISTS | REDIS_COMMAND_DBSIZE
  | REDIS_COMMAND_ZCOUNT | REDIS_COMMAND_ZCARD | REDIS_COMMAND_ZSCORE | REDIS_COMMAND_ZRANGEBYSCORE
  | REDIS_COMMAND_SCARD | REDIS_COMMAND_SISMEMBER | REDIS_COMMAND_SMEMBERS
  | REDIS_COMMAND_READ_TYPE_END
  | REDIS_COMMAND_WRITE_TYPE_START | REDIS_COMMAND_SET | REDIS_COMMAND_DEL | REDIS_COMMAND_EXPIRE
  | REDIS_COMMAND_ZADD | REDIS_COMMAND_ZREM | REDIS_COMMAND_ZINCRBY
  | REDIS_COMMAND_ZREMRANGEBYSCORE | REDIS_COMMAND_SADD | REDIS_COMMAND_SREM
  | REDIS_COMMAND_WRITE_TYPE_END
  | REDIS_COMMAND_FOR_STAND_ALONE_MODE_START | REDIS_COMMAND_WATCH | REDIS_COMMAND_UNWATCH
  | REDIS_COMMAND_MULTI | REDIS_COMMAND_EXEC | REDIS_COMMAND_DISCARD
  | REDIS_COMMAND_FOR_STAND_ALONE_MODE_END
  | REDIS_COMMAND_TO_SENTINEL_NODES_START | REDIS_COMMAND_SENTINEL_GET_MASTER_ADDR
  | REDIS_COMMAND_INFO_REPLICATION | REDIS_COMMAND_TO_SENTINEL_NODES_END

definition IsCommandWriteType :: "RedisCommandType \<Rightarrow> bool" where
  "IsCommandWriteType t \<longleftrightarrow> t \<in> {REDIS_COMMAND_SET, REDIS_COMMAND_DEL, REDIS_COMMAND_EXPIRE,
     REDIS_COMMAND_ZADD, REDIS_COMMAND_ZREM, REDIS_COMMAND_ZINCRBY,
     REDIS_COMMAND_ZREMRANGEBYSCORE, REDIS_COMMAND_SADD, REDIS_COMMAND_SREM}"

text \<open>The reference and pointer arguments a command fills in; \<open>None\<close> is \<open>NULL\<close>.\<close>

record 'e out =
  o_members :: "string list"
  o_serial :: "'e option"
  o_count :: "int option"

type_synonym 'e loader = "'e \<Rightarrow> db_in \<Rightarrow> ('e \<times> db_in) res"

text \<open>\<open>needRedirect\<close> and \<open>redirectInfo\<close>.\<close>

type_synonym redir = "bool \<times> string"

section \<open>Parsing single replies\<close>

definition lower :: "char \<Rightarrow> char" where
  "lower c = (if 65 \<le> (of_char c :: nat) \<and> (of_char c :: nat) \<le> 90
              then char_of ((of_char c :: nat) + 32) else c)"

definition starts_moved :: "string \<Rightarrow> bool" where
  "starts_moved s \<longleftrightarrow> map lower (take 5 (cstr s)) = ''moved''"

definition checkIfNeedRedirect :: "RedisMode \<Rightarrow> RedisReplyInfo \<Rightarrow> redir \<Rightarrow> bool \<times> redir" where
  "checkIfNeedRedirect mode r rd =
     (if mode = STAND_ALONE_OR_PROXY_MODE then (False, rd)
      else if replyType r = REDIS_REPLY_ERROR \<and> starts_moved (resultString r) then
        case rfind_char (CHR '' '') (resultString r) of
          Some findPos \<Rightarrow> (True, (True, drop (findPos + 1) (resultString r)))
        | None \<Rightarrow> (False, (True, snd rd))
      else (False, rd))"

definition parseGetSerialReply ::
  "RedisMode \<Rightarrow> 'e loader \<Rightarrow> RedisReplyInfo \<Rightarrow> 'e \<Rightarrow> redir \<Rightarrow> (bool \<times> 'e \<times> redir) res" where
  "parseGetSerialReply mode load r sr rd =
     (case checkIfNeedRedirect mode r rd of
        (True, rd) \<Rightarrow> Inr (True, sr, rd)
      | (False, rd) \<Rightarrow>
          if replyType r \<noteq> REDIS_REPLY_STRING then Inr (False, sr, rd)
          else case arrayList r of
            [] \<Rightarrow> Inr (False, sr, rd)
          | e # _ \<Rightarrow>
              if elemType e = REDIS_REPLY_NIL then Inr (False, sr, rd)
              else case arrayValue e of
                None \<Rightarrow> Inl NullDeref
              | Some v \<Rightarrow>
                  res_bind (load sr (DBInStream (v @ [NUL]) (nat (arrayLen e)))) (\<lambda>(sr, inp).
                    Inr (m_loadError inp = 0, sr, rd)))"

definition parseFindReply :: "RedisMode \<Rightarrow> RedisReplyInfo \<Rightarrow> redir \<Rightarrow> bool \<times> redir" where
  "parseFindReply mode r rd =
     (case checkIfNeedRedirect mode r rd of
        (True, rd) \<Rightarrow> (True, rd)
      | (False, rd) \<Rightarrow> (replyType r = REDIS_REPLY_INTEGER, rd))"

definition parseSetSerialReply :: "RedisMode \<Rightarrow> RedisReplyInfo \<Rightarrow> redir \<Rightarrow> bool \<times> redir" where
  "parseSetSerialReply mode r rd =
     (case checkIfNeedRedirect mode r rd of
        (True, rd) \<Rightarrow> (True, rd)
      | (False, rd) \<Rightarrow> (replyType r = REDIS_REPLY_STATUS, rd))"

definition string_elems :: "ReplyArrayInfo list \<Rightarrow> string list" where
  "string_elems es = map (\<lambda>e. cstr (the (arrayValue e))) (filter (\<lambda>e. elemType e = REDIS_REPLY_STRING) es)"

definition parseGetKeysReply :: "RedisReplyInfo \<Rightarrow> string list \<Rightarrow> bool \<times> string list" where
  "parseGetKeysReply r keys =
     (if replyType r = REDIS_REPLY_ERROR then (True, keys)
      else if replyType r \<noteq> REDIS_REPLY_ARRAY then (False, keys)
      else (True, keys @ string_elems (arrayList r)))"

definition parseScanKeysReply :: "RedisReplyInfo \<Rightarrow> string list \<Rightarrow> bool \<times> string list \<times> int" where
  "parseScanKeysReply r keys =
     (if replyType r \<noteq> REDIS_REPLY_ARRAY then (False, keys, -1)
      else (True, keys @ string_elems (arrayList r), intValue r))"

definition parseStatusResponseReply :: "RedisMode \<Rightarrow> RedisReplyInfo \<Rightarrow> redir \<Rightarrow> bool \<times> redir" where
  "parseStatusResponseReply mode r rd =
     (case checkIfNeedRedirect mode r rd of
        (True, rd) \<Rightarrow> (True, rd)
      | (False, rd) \<Rightarrow> (replyType r = REDIS_REPLY_STATUS, rd))"

definition parseQueuedResponseReply :: "RedisReplyInfo \<Rightarrow> bool" where
  "parseQueuedResponseReply r \<longleftrightarrow> replyType r = REDIS_REPLY_STATUS"

text \<open>\<open>strncmp(arrayValue, p, strlen(p)) == 0\<close>\<close>

definition has_prefix :: "string \<Rightarrow> bytes \<Rightarrow> bool" where
  "has_prefix p v \<longleftrightarrow> take (length p) (cstr v) = p"

text \<open>The results of the commands of a transaction: an error or a nil makes it fail,
  and \<open>:0\<close> ends the check with success.\<close>

fun exec_elems_ok :: "ReplyArrayInfo list \<Rightarrow> bool" where
  "exec_elems_ok [] = True"
| "exec_elems_ok (e # es) =
     (if elemType e = REDIS_REPLY_STRING then
        let v = the (arrayValue e) in
        if has_prefix ''-'' v then False
        else if has_prefix '':0'' v then True
        else if has_prefix ''$-1'' v \<or> has_prefix ''*-1'' v then False
        else exec_elems_ok es
      else exec_elems_ok es)"

definition parseExecReply :: "RedisReplyInfo \<Rightarrow> bool" where
  "parseExecReply r \<longleftrightarrow> replyType r = REDIS_REPLY_ARRAY \<and> intValue r \<noteq> -1
     \<and> exec_elems_ok (arrayList r)"

text \<open>The overload for the optimistic lock of cluster mode, where \<open>:0\<close> is a failure.\<close>

definition parseExecReply_cluster :: "RedisMode \<Rightarrow> RedisReplyInfo \<Rightarrow> redir \<Rightarrow> bool \<times> redir" where
  "parseExecReply_cluster mode r rd =
     (case checkIfNeedRedirect mode r rd of
        (True, rd) \<Rightarrow> (True, rd)
      | (False, rd) \<Rightarrow> (replyType r = REDIS_REPLY_ARRAY \<and> intValue r \<noteq> -1 \<and>
          (\<forall>e \<in> set (arrayList r). elemType e = REDIS_REPLY_STRING \<longrightarrow>
             \<not> (has_prefix ''-'' (the (arrayValue e)) \<or> has_prefix '':0'' (the (arrayValue e)))), rd))"

definition freeReplyInfo :: "RedisReplyInfo \<Rightarrow> RedisReplyInfo" where
  "freeReplyInfo r = r\<lparr> arrayList := [] \<rparr>"

section \<open>The two switches\<close>

text \<open>A branch returns a value or breaks out of the switch.\<close>

datatype branch = Ret bool | Break

definition is_int :: "RedisReplyInfo \<Rightarrow> (int \<Rightarrow> bool) \<Rightarrow> bool" where
  "is_int r P \<longleftrightarrow> replyType r = REDIS_REPLY_INTEGER \<and> P (intValue r)"

definition int_branch :: "RedisMode \<Rightarrow> RedisReplyInfo \<Rightarrow> (int \<Rightarrow> bool) \<Rightarrow> redir \<Rightarrow> branch \<times> redir" where
  "int_branch mode r P rd =
     (case parseFindReply mode r rd of
        (False, rd) \<Rightarrow> (Ret False, rd)
      | (True, rd) \<Rightarrow>
          (if is_int r P then Ret True else if is_int r (\<lambda>i. i = 0) then Ret False else Break, rd))"

definition count_branch ::
  "RedisMode \<Rightarrow> RedisReplyInfo \<Rightarrow> branch \<Rightarrow> redir \<Rightarrow> 'e out \<Rightarrow> branch \<times> redir \<times> 'e out" where
  "count_branch mode r other rd out =
     (case parseFindReply mode r rd of
        (False, rd) \<Rightarrow> (Ret False, rd, out)
      | (True, rd) \<Rightarrow>
          if replyType r = REDIS_REPLY_INTEGER then
            (Ret True, rd, case o_count out of None \<Rightarrow> out | Some _ \<Rightarrow> out\<lparr> o_count := Some (intValue r) \<rparr>)
          else (other, rd, out))"

text \<open>ZSCORE: the score is copied to a zeroed buffer of 64 bytes and read as a number;
  a score that fills the buffer leaves it without a terminator.\<close>

definition score_branch :: "RedisReplyInfo \<Rightarrow> bool \<Rightarrow> 'e out \<Rightarrow> (bool \<times> 'e out) res" where
  "score_branch r need_count out =
     (if replyType r \<noteq> REDIS_REPLY_STRING then Inr (False, out)
      else case arrayList r of
        [] \<Rightarrow> Inr (False, out)
      | e # _ \<Rightarrow>
          if elemType e = REDIS_REPLY_NIL then Inr (False, out)
          else case arrayValue e of
            None \<Rightarrow> Inl NullDeref
          | Some v \<Rightarrow>
              res_bind (line_to_buf 64 (take (nat (arrayLen e)) v)) (\<lambda>score.
                case o_count out of
                  None \<Rightarrow> Inr (\<not> need_count, out)
                | Some _ \<Rightarrow> Inr (True, out\<lparr> o_count := Some (atoi score) \<rparr>)))"

definition get_branch ::
  "RedisMode \<Rightarrow> 'e loader \<Rightarrow> RedisReplyInfo \<Rightarrow> redir \<Rightarrow> 'e out \<Rightarrow> (branch \<times> redir \<times> 'e out) res" where
  "get_branch mode load r rd out =
     (case o_serial out of
        None \<Rightarrow> Inl NullDeref
      | Some sr \<Rightarrow>
          res_bind (parseGetSerialReply mode load r sr rd) (\<lambda>(ok, sr, rd).
            Inr (if ok then Break else Ret False, rd, out\<lparr> o_serial := Some sr \<rparr>)))"

text \<open>\<open>ParseRedisReplyForStandAloneAndMasterMode\<close>\<close>

definition standalone_switch ::
  "RedisMode \<Rightarrow> 'e loader \<Rightarrow> RedisCommandType \<Rightarrow> RedisReplyInfo \<Rightarrow> redir \<Rightarrow> 'e out
   \<Rightarrow> (branch \<times> redir \<times> 'e out) res" where
  "standalone_switch mode load t r rd out =
     (let int_case = (\<lambda>P. case int_branch mode r P rd of (b, rd) \<Rightarrow> Inr (b, rd, out)) in
      case t of
        REDIS_COMMAND_GET \<Rightarrow> get_branch mode load r rd out
      | REDIS_COMMAND_SET \<Rightarrow>
          (case parseSetSerialReply mode r rd of (ok, rd) \<Rightarrow> Inr (if ok then Break else Ret False, rd, out))
      | REDIS_COMMAND_AUTH \<Rightarrow>
          (case parseSetSerialReply mode r rd of (ok, rd) \<Rightarrow> Inr (if ok then Break else Ret False, rd, out))
      | REDIS_COMMAND_EXISTS \<Rightarrow> int_case (\<lambda>i. i = 1)
      | REDIS_COMMAND_DEL \<Rightarrow> int_case (\<lambda>i. i = 1)
      | REDIS_COMMAND_EXPIRE \<Rightarrow> int_case (\<lambda>i. i = 1)
      | REDIS_COMMAND_ZADD \<Rightarrow> int_case (\<lambda>i. i = 1)
      | REDIS_COMMAND_ZREM \<Rightarrow> int_case (\<lambda>i. i = 1)
      | REDIS_COMMAND_ZREMRANGEBYSCORE \<Rightarrow> int_case (\<lambda>i. i > 0)
      | REDIS_COMMAND_ZINCRBY \<Rightarrow> Inr (Ret (replyType r = REDIS_REPLY_STRING), rd, out)
      | REDIS_COMMAND_ZCOUNT \<Rightarrow> Inr (count_branch mode r (Ret False) rd out)
      | REDIS_COMMAND_DBSIZE \<Rightarrow> Inr (count_branch mode r (Ret False) rd out)
      | REDIS_COMMAND_ZCARD \<Rightarrow> Inr (count_branch mode r (Ret False) rd out)
      | REDIS_COMMAND_SCARD \<Rightarrow> Inr (count_branch mode r (Ret False) rd out)
      | REDIS_COMMAND_SADD \<Rightarrow> Inr (count_branch mode r (Ret False) rd out)
      | REDIS_COMMAND_SREM \<Rightarrow> Inr (count_branch mode r (Ret False) rd out)
      | REDIS_COMMAND_SISMEMBER \<Rightarrow> Inr (count_branch mode r (Ret False) rd out)
      | REDIS_COMMAND_ZSCORE \<Rightarrow>
          res_bind (score_branch r True out) (\<lambda>(ok, out). Inr (Ret ok, rd, out))
      | REDIS_COMMAND_ZRANGEBYSCORE \<Rightarrow>
          (case parseGetKeysReply r (o_members out) of
             (ok, ms) \<Rightarrow> Inr (if ok then Break else Ret False, rd, out\<lparr> o_members := ms \<rparr>))
      | REDIS_COMMAND_SMEMBERS \<Rightarrow>
          (case parseGetKeysReply r (o_members out) of
             (ok, ms) \<Rightarrow> Inr (if ok then Break else Ret False, rd, out\<lparr> o_members := ms \<rparr>))
      | _ \<Rightarrow> Inr (Ret False, rd, out))"

definition standalone_reply ::
  "RedisMode \<Rightarrow> 'e loader \<Rightarrow> RedisCommandType \<Rightarrow> RedisReplyInfo \<Rightarrow> 'e out \<Rightarrow> (bool \<times> 'e out) res" where
  "standalone_reply mode load t r out =
     res_bind (standalone_switch mode load t r (False, []) out) (\<lambda>(b, _, out).
       Inr (case b of Ret ok \<Rightarrow> ok | Break \<Rightarrow> True, out))"

text \<open>The switch of \<open>doRedisCommandCluster\<close>.\<close>

definition cluster_switch ::
  "'e loader \<Rightarrow> RedisCommandType \<Rightarrow> RedisReplyInfo \<Rightarrow> 'e out \<Rightarrow> (branch \<times> redir \<times> 'e out) res" where
  "cluster_switch load t r out =
     (let rd0 = (False, []); moved = checkIfNeedRedirect CLUSTER_MODE r rd0;
          keys = (if fst moved then (Break, snd moved, out)
                  else (Break, snd moved, out\<lparr> o_members := snd (parseGetKeysReply r (o_members out)) \<rparr>)) in
      if t = REDIS_COMMAND_ZINCRBY then
        Inr (if fst moved then Break else Ret (replyType r = REDIS_REPLY_STRING), snd moved, out)
      else if t = REDIS_COMMAND_ZSCORE then
        if fst moved then Inr (Break, snd moved, out)
        else res_bind (score_branch r False out) (\<lambda>(ok, out). Inr (Ret ok, snd moved, out))
      else if t \<in> {REDIS_COMMAND_ZRANGEBYSCORE, REDIS_COMMAND_SMEMBERS} then Inr keys
      else if t \<in> {REDIS_COMMAND_ZCOUNT, REDIS_COMMAND_DBSIZE, REDIS_COMMAND_ZCARD, REDIS_COMMAND_SCARD,
                   REDIS_COMMAND_SADD, REDIS_COMMAND_SREM, REDIS_COMMAND_SISMEMBER} then
        Inr (count_branch CLUSTER_MODE r Break rd0 out)
      else if t \<in> {REDIS_COMMAND_GET, REDIS_COMMAND_SET, REDIS_COMMAND_AUTH, REDIS_COMMAND_EXISTS,
                   REDIS_COMMAND_DEL, REDIS_COMMAND_EXPIRE, REDIS_COMMAND_ZADD, REDIS_COMMAND_ZREM,
                   REDIS_COMMAND_ZREMRANGEBYSCORE} then
        standalone_switch CLUSTER_MODE load t r rd0 out
      else Inr (Break, rd0, out))"

end
