(* ===== verification/Redis_Client.thy ===== *)
theory Redis_Client
  imports Client_Replies
begin

text \<open>
  The client of \<open>redisclient.cpp\<close>: its state, the routing of a command to a
  connection pool in each of the three modes, the operations built on it, and the
  transactions of stand-alone mode.  Pools are objects in a heap; \<open>None\<close> is a
  \<open>NULL\<close> handler.
\<close>

section \<open>State\<close>

record RedisClusterInfo =
  clusterId :: string
  connectIp :: string
  connectPort :: nat
  connectionNum :: nat
  isMaster :: bool
  isAlived :: bool
  masterClusterId :: string
  slotMap :: "(nat \<times> nat) list"
  bakClusterList :: "string list"
  clusterHandler :: "nat option"
  scanCursor :: int

record RedisProxyInfo =
  proxyId :: string
  px_connectIp :: string
  px_connectPort :: nat
  px_connectionNum :: nat
  px_clusterHandler :: "nat option"
  px_isAlived :: bool
  subscribed :: bool

definition empty_proxy :: RedisProxyInfo where
  "empty_proxy = \<lparr> proxyId = [], px_connectIp = [], px_connectPort = 0, px_connectionNum = 0,
     px_clusterHandler = None, px_isAlived = False, subscribed = False \<rparr>"

text \<open>A \<open>std::map\<close> is the list of its entries in the order of an iterator.\<close>

record client =
  m_redisMode :: RedisMode
  cl_connectionNum :: nat
  m_redisProxy :: RedisProxyInfo
  m_slotMap :: "(nat \<times> string) list"
  m_clusterMap :: "(string \<times> RedisClusterInfo) list"
  m_signalQueue :: "int list"
  m_dataNodes :: "(string \<times> RedisProxyInfo) list"
  m_masterClusterId :: string
  cl_pools :: "nat \<rightharpoonup> pool"
  cl_next :: nat
  m_connected :: bool
  m_passwd :: string
  m_serverList :: "(string \<times> nat) list"
  m_unusedHandlers :: "(string \<times> nat option) list"
  m_checkClusterNodesThreadStarted :: bool
  m_sentinelList :: "(string \<times> nat) list"
  m_masterName :: string
  m_sentinelHandlers :: "(string \<times> RedisProxyInfo) list"
  m_initMasterAddr :: "string \<times> nat"
  m_threadArg :: "(nat \<times> nat) option"
  m_subscribeThreadIdList :: "nat list"
  m_sentinelHealthCheckThreadStarted :: bool

definition REDIS_SLOT_NUM :: nat where
  "REDIS_SLOT_NUM = 16384"

text \<open>The order of \<open>std::string\<close>, and \<open>operator[]\<close> on a map for a key that is
  not there: a new entry in its place.\<close>

fun str_less :: "string \<Rightarrow> string \<Rightarrow> bool" where
  "str_less _ [] = False"
| "str_less [] (_ # _) = True"
| "str_less (x # xs) (y # ys) =
     (if x = y then str_less xs ys else (of_char x :: nat) < of_char y)"

fun map_insert :: "string \<Rightarrow> 'v \<Rightarrow> (string \<times> 'v) list \<Rightarrow> (string \<times> 'v) list" where
  "map_insert k v [] = [(k, v)]"
| "map_insert k v ((k', v') # es) =
     (if k = k' then (k, v) # es
      else if str_less k k' then (k, v) # (k', v') # es
      else (k', v') # map_insert k v es)"

section \<open>A command to one node\<close>

text \<open>\<open>handler->doRedisCommand(commandList, commandLen, replyInfo)\<close>\<close>

definition handler_command ::
  "'w net \<Rightarrow> cmd \<Rightarrow> ReplyParserType \<Rightarrow> RedisReplyInfo \<Rightarrow> nat option \<Rightarrow> client \<Rightarrow> 'w
   \<Rightarrow> (bool \<times> RedisReplyInfo \<times> client \<times> 'w) res" where
  "handler_command net cmd t r h c w =
     (case h of
        None \<Rightarrow> Inl NullDeref
      | Some a \<Rightarrow>
          (case cl_pools c a of
             None \<Rightarrow> Inl Dangling
           | Some p \<Rightarrow>
               res_bind (pool_command net (fst cmd) (snd cmd) t r p w) (\<lambda>(ok, r, p, w).
                 Inr (ok, r, c\<lparr> cl_pools := (cl_pools c)(a \<mapsto> p) \<rparr>, w))))"

section \<open>Stand-alone and sentinel mode\<close>

definition doRedisCommandStandAlone ::
  "'w net \<Rightarrow> 'e loader \<Rightarrow> cmd \<Rightarrow> RedisCommandType \<Rightarrow> 'e out \<Rightarrow> client \<Rightarrow> 'w
   \<Rightarrow> (bool \<times> 'e out \<times> client \<times> 'w) res" where
  "doRedisCommandStandAlone net load cmd t out c w =
     (if px_clusterHandler (m_redisProxy c) = None then Inr (False, out, c, w)
      else res_bind (handler_command net cmd COMMON_PARSER empty_reply
                       (px_clusterHandler (m_redisProxy c)) c w) (\<lambda>(sent, r, c, w).
        if \<not> sent then Inr (False, out, c, w)
        else res_bind (standalone_reply (m_redisMode c) load t r out) (\<lambda>(ok, out).
          Inr (ok, out, c, w))))"

text \<open>The slaves are tried in the order of the map until one answers.\<close>

fun try_slaves ::
  "'w net \<Rightarrow> cmd \<Rightarrow> (string \<times> RedisProxyInfo) list \<Rightarrow> RedisReplyInfo \<Rightarrow> client \<Rightarrow> 'w
   \<Rightarrow> (bool \<times> RedisReplyInfo \<times> client \<times> 'w) res" where
  "try_slaves net cmd [] r c w = Inr (False, r, c, w)"
| "try_slaves net cmd ((_, node) # nodes) r c w =
     (if proxyId node = m_masterClusterId c then try_slaves net cmd nodes r c w
      else if \<not> px_isAlived node then try_slaves net cmd nodes (freeReplyInfo r) c w
      else res_bind (handler_command net cmd COMMON_PARSER r (px_clusterHandler node) c w)
        (\<lambda>(sent, r, c, w).
          if sent then Inr (True, r, c, w)
          else try_slaves net cmd nodes (freeReplyInfo r) c w))"

definition master_node :: "client \<Rightarrow> RedisProxyInfo \<times> client" where
  "master_node c =
     (case map_of (m_dataNodes c) (m_masterClusterId c) of
        Some n \<Rightarrow> (n, c)
      | None \<Rightarrow> (empty_proxy,
          c\<lparr> m_dataNodes := map_insert (m_masterClusterId c) empty_proxy (m_dataNodes c) \<rparr>))"

definition doRedisCommandMaster ::
  "'w net \<Rightarrow> 'e loader \<Rightarrow> cmd \<Rightarrow> RedisCommandType \<Rightarrow> 'e out \<Rightarrow> client \<Rightarrow> 'w
   \<Rightarrow> (bool \<times> 'e out \<times> client \<times> 'w) res" where
  "doRedisCommandMaster net load cmd t out c w =
     (let (node, c) = master_node c in
      if px_clusterHandler node = None \<or> \<not> px_isAlived node then Inr (False, out, c, w)
      else
        res_bind (handler_command net cmd COMMON_PARSER empty_reply (px_clusterHandler node) c w)
          (\<lambda>(sent, r, c, w).
        res_bind (if sent then Inr (True, r, c, w)
                  else if IsCommandWriteType t then Inr (False, freeReplyInfo r, c, w)
                  else try_slaves net cmd (m_dataNodes c) (freeReplyInfo r) c w) (\<lambda>(sent, r, c, w).
          if \<not> sent then Inr (False, out, c, w)
          else res_bind (standalone_reply (m_redisMode c) load t r out) (\<lambda>(ok, out).
            Inr (ok, out, c, w)))))"

section \<open>Cluster mode\<close>

definition getClusterIdBySlot :: "client \<Rightarrow> nat \<Rightarrow> string option" where
  "getClusterIdBySlot c slotNum = map_of (m_slotMap c) slotNum"

definition getRedisClusterInfo :: "client \<Rightarrow> string \<Rightarrow> RedisClusterInfo option" where
  "getRedisClusterInfo c cid = map_of (m_clusterMap c) cid"

definition SignalToDoClusterNodes :: "client \<Rightarrow> client" where
  "SignalToDoClusterNodes c =
     (if m_signalQueue c = [] then c\<lparr> m_signalQueue := [1] \<rparr> else c)"

text \<open>The next node to try when a node does not answer: \<open>None\<close> for \<open>bak\<close> is an empty
  \<open>bakClusterList\<close>, \<open>Some rest\<close> what follows the iterator.\<close>

definition next_bak ::
  "RedisCommandType \<Rightarrow> RedisClusterInfo \<Rightarrow> string list option \<Rightarrow> (string \<times> string list) option" where
  "next_bak t info bak =
     (if IsCommandWriteType t then None
      else case (case bak of Some rest \<Rightarrow> rest | None \<Rightarrow> bakClusterList info) of
        [] \<Rightarrow> None
      | b # rest \<Rightarrow> Some (b, rest))"

lemma handler_command_frame:
  assumes "handler_command net cmd t r h c w = Inr (ok, r', c', w')"
  shows "m_clusterMap c' = m_clusterMap c" "m_slotMap c' = m_slotMap c" "m_redisMode c' = m_redisMode c"
    "m_dataNodes c' = m_dataNodes c" "m_redisProxy c' = m_redisProxy c"
    "m_masterClusterId c' = m_masterClusterId c" "m_signalQueue c' = m_signalQueue c"
  using assms
  by (auto simp: handler_command_def res_bind_Inr_iff split: option.splits)

text \<open>The loop at the label \<open>REDIS_COMMAND\<close>.\<close>

function cluster_loop ::
  "'w net \<Rightarrow> 'e loader \<Rightarrow> cmd \<Rightarrow> RedisCommandType \<Rightarrow> string \<Rightarrow> string list \<Rightarrow> string list option
   \<Rightarrow> RedisReplyInfo \<Rightarrow> 'e out \<Rightarrow> client \<Rightarrow> 'w \<Rightarrow> (bool \<times> 'e out \<times> client \<times> 'w) res" where
  "cluster_loop net load cmd t cid redirects bak r out c w =
     (case getRedisClusterInfo c cid of
        None \<Rightarrow> Inr (False, out, c, w)
      | Some info \<Rightarrow>
          (case handler_command net cmd COMMON_PARSER r (clusterHandler info) c w of
             Inl f \<Rightarrow> Inl f
           | Inr (sent, r, c, w) \<Rightarrow>
               if \<not> sent then
                 (case next_bak t info bak of
                    None \<Rightarrow> Inr (False, out, c, w)
                  | Some (b, rest) \<Rightarrow>
                      cluster_loop net load cmd t b redirects (Some rest) (freeReplyInfo r) out c w)
               else
                 (case cluster_switch load t r out of
                    Inl f \<Rightarrow> Inl f
                  | Inr (Ret ok, _, out) \<Rightarrow> Inr (ok, out, c, w)
                  | Inr (Break, (needRedirect, redirectInfo), out) \<Rightarrow>
                      if \<not> needRedirect then Inr (True, out, c, w)
                      else if redirectInfo \<in> set redirects then
                        Inr (False, out, SignalToDoClusterNodes c, w)
                      else cluster_loop net load cmd t redirectInfo (redirects @ [redirectInfo]) None
                             (freeReplyInfo r) out (SignalToDoClusterNodes c) w)))"
  by pat_completeness auto


text \<open>The loop ends: a redirect leads to a node that was not redirected to before or to
  one that is not known, and the spare nodes are a finite list.\<close>

definition known :: "client \<Rightarrow> string set" where
  "known c = fst ` set (m_clusterMap c)"

definition bak_rank :: "string list option \<Rightarrow> nat" where
  "bak_rank bak = (case bak of None \<Rightarrow> 0 | Some rest \<Rightarrow> length rest)"

lemma known_simps [simp]:
  "finite (known c)" "known (SignalToDoClusterNodes c) = known c"
  "m_clusterMap (SignalToDoClusterNodes c) = m_clusterMap c"
  by (simp_all add: known_def SignalToDoClusterNodes_def)

lemma getRedisClusterInfo_known: "getRedisClusterInfo c cid = Some info \<Longrightarrow> cid \<in> known c"
  by (force simp: getRedisClusterInfo_def known_def dest: map_of_SomeD)

lemma handler_command_known:
  "handler_command net cmd t r h c w = Inr (ok, r', c', w') \<Longrightarrow> known c' = known c"
  by (simp add: known_def handler_command_frame)

lemma redirect_decreases:
  assumes "x \<notin> set redirects" "x \<in> known c"
  shows "card (known c - set (redirects @ [x])) < card (known c - set redirects)"
  by (rule psubset_card_mono) (use assms in auto)

termination cluster_loop
proof (relation "measures [
    \<lambda>(net, load, cmd, t, cid, redirects, bak, r, out, c, w). card (known c - set redirects),
    \<lambda>(net, load, cmd, t, cid, redirects, bak, r, out, c, w). if cid \<in> known c then 1 else 0,
    \<lambda>(net, load, cmd, t, cid, redirects, bak, r, out, c, w). if bak = None then 1 else 0,
    \<lambda>(net, load, cmd, t, cid, redirects, bak, r, out, c, w). bak_rank bak]", goal_cases)
  case 1
  then show ?case by simp
next
  case (2 net load cmd t cid redirects bak r out c w info x sent y r' z c' w' v b rest)
  then have "known c' = known c" "cid \<in> known c"
    by (auto dest!: handler_command_known getRedisClusterInfo_known)
  with 2 show ?case by (auto simp: next_bak_def bak_rank_def split: if_splits option.splits list.splits)
next
  case (3 net load cmd t cid redirects bak r out c w info x sent y r' z c' w' u br v out' redir need rinfo)
  then have "known c' = known c" "cid \<in> known c"
    by (auto dest!: handler_command_known getRedisClusterInfo_known)
  with 3 show ?case using redirect_decreases [of rinfo redirects c] by (cases "rinfo \<in> known c") auto
qed

declare cluster_loop.simps [simp del]

definition doRedisCommandCluster ::
  "'w net \<Rightarrow> 'e loader \<Rightarrow> string \<Rightarrow> cmd \<Rightarrow> RedisCommandType \<Rightarrow> 'e out \<Rightarrow> client \<Rightarrow> 'w
   \<Rightarrow> (bool \<times> 'e out \<times> client \<times> 'w) res" where
  "doRedisCommandCluster net load key cmd t out c w =
     (case getClusterIdBySlot c (unat (crc16 key) mod REDIS_SLOT_NUM) of
        None \<Rightarrow> Inr (False, out, c, w)
      | Some cid \<Rightarrow> cluster_loop net load cmd t cid [] None empty_reply out c w)"

definition doRedisCommand ::
  "'w net \<Rightarrow> 'e loader \<Rightarrow> string \<Rightarrow> cmd \<Rightarrow> RedisCommandType \<Rightarrow> 'e out \<Rightarrow> client \<Rightarrow> 'w
   \<Rightarrow> (bool \<times> 'e out \<times> client \<times> 'w) res" where
  "doRedisCommand net load key cmd t out c w =
     (case m_redisMode c of
        CLUSTER_MODE \<Rightarrow> doRedisCommandCluster net load key cmd t out c w
      | STAND_ALONE_OR_PROXY_MODE \<Rightarrow> doRedisCommandStandAlone net load cmd t out c w
      | SENTINEL_MODE \<Rightarrow> doRedisCommandMaster net load cmd t out c w)"

section \<open>Operations\<close>

text \<open>The overloads of \<open>doRedisCommand\<close> for each kind of result.\<close>

abbreviation no_out :: "unit out" where
  "no_out \<equiv> \<lparr> o_members = [], o_serial = None, o_count = None \<rparr>"

definition no_load :: "unit loader" where
  "no_load x inp = Inr (x, inp)"

definition plain_command ::
  "'w net \<Rightarrow> string \<Rightarrow> command \<Rightarrow> RedisCommandType \<Rightarrow> client \<Rightarrow> 'w \<Rightarrow> (bool \<times> client \<times> 'w) res" where
  "plain_command net key k t c w =
     res_bind (doRedisCommand net no_load key (build k) t no_out c w) (\<lambda>(ok, _, c, w). Inr (ok, c, w))"

definition count_command ::
  "'w net \<Rightarrow> string \<Rightarrow> command \<Rightarrow> RedisCommandType \<Rightarrow> int \<Rightarrow> client \<Rightarrow> 'w \<Rightarrow> (int \<times> client \<times> 'w) res" where
  "count_command net key k t count c w =
     res_bind (doRedisCommand net no_load key (build k) t (no_out\<lparr> o_count := Some count \<rparr>) c w)
       (\<lambda>(_, out, c, w). Inr (the (o_count out), c, w))"

definition members_command ::
  "'w net \<Rightarrow> string \<Rightarrow> command \<Rightarrow> RedisCommandType \<Rightarrow> string list \<Rightarrow> client \<Rightarrow> 'w
   \<Rightarrow> (bool \<times> string list \<times> client \<times> 'w) res" where
  "members_command net key k t members c w =
     res_bind (doRedisCommand net no_load key (build k) t (no_out\<lparr> o_members := members \<rparr>) c w)
       (\<lambda>(ok, out, c, w). Inr (ok, o_members out, c, w))"

definition getSerial ::
  "'w net \<Rightarrow> 'e loader \<Rightarrow> string \<Rightarrow> 'e \<Rightarrow> client \<Rightarrow> 'w \<Rightarrow> (bool \<times> 'e \<times> client \<times> 'w) res" where
  "getSerial net load key sr c w =
     res_bind (doRedisCommand net load key (build (CGet key)) REDIS_COMMAND_GET
                 \<lparr> o_members = [], o_serial = Some sr, o_count = None \<rparr> c w)
       (\<lambda>(ok, out, c, w). Inr (ok, the (o_serial out), c, w))"

text \<open>\<open>DBOutStream out; serial.save(out);\<close> and the bytes of \<open>out\<close>.\<close>

definition saved :: "('e \<Rightarrow> db_out \<Rightarrow> db_out res) \<Rightarrow> 'e \<Rightarrow> bytes res" where
  "saved save x = res_bind (save x DBOutStream) (\<lambda>out. Inr (take (getSize out) (m_data out)))"

definition setSerial ::
  "'w net \<Rightarrow> ('e \<Rightarrow> db_out \<Rightarrow> db_out res) \<Rightarrow> string \<Rightarrow> 'e \<Rightarrow> client \<Rightarrow> 'w
   \<Rightarrow> (bool \<times> client \<times> 'w) res" where
  "setSerial net save key sr c w =
     res_bind (saved save sr) (\<lambda>v. plain_command net key (CSet key v) REDIS_COMMAND_SET c w)"

definition setString ::
  "'w net \<Rightarrow> string \<Rightarrow> string \<Rightarrow> client \<Rightarrow> 'w \<Rightarrow> (bool \<times> client \<times> 'w) res" where
  "setString net key v c w = plain_command net key (CSet key v) REDIS_COMMAND_SET c w"

definition setSerialWithExpire ::
  "'w net \<Rightarrow> ('e \<Rightarrow> db_out \<Rightarrow> db_out res) \<Rightarrow> string \<Rightarrow> 'e \<Rightarrow> 32 word \<Rightarrow> client \<Rightarrow> 'w
   \<Rightarrow> (bool \<times> client \<times> 'w) res" where
  "setSerialWithExpire net save key sr expireTime c w =
     res_bind (saved save sr) (\<lambda>v.
       plain_command net key (CSetex key expireTime v) REDIS_COMMAND_SET c w)"

definition find_key :: "'w net \<Rightarrow> string \<Rightarrow> client \<Rightarrow> 'w \<Rightarrow> (bool \<times> client \<times> 'w) res" where
  "find_key net key c w = plain_command net key (CExists key) REDIS_COMMAND_EXISTS c w"

definition del :: "'w net \<Rightarrow> string \<Rightarrow> client \<Rightarrow> 'w \<Rightarrow> (bool \<times> client \<times> 'w) res" where
  "del net key c w = plain_command net key (CDel key) REDIS_COMMAND_DEL c w"

definition setKeyExpireTime ::
  "'w net \<Rightarrow> string \<Rightarrow> 32 word \<Rightarrow> client \<Rightarrow> 'w \<Rightarrow> (bool \<times> client \<times> 'w) res" where
  "setKeyExpireTime net key expireTime c w =
     plain_command net key (CExpire key expireTime) REDIS_COMMAND_EXPIRE c w"

definition dbsize :: "'w net \<Rightarrow> client \<Rightarrow> 'w \<Rightarrow> (int \<times> client \<times> 'w) res" where
  "dbsize net c w = count_command net [] CDbsize REDIS_COMMAND_DBSIZE 0 c w"

definition sadd :: "'w net \<Rightarrow> string \<Rightarrow> string \<Rightarrow> client \<Rightarrow> 'w \<Rightarrow> (bool \<times> client \<times> 'w) res" where
  "sadd net key member c w = plain_command net key (CSadd key member) REDIS_COMMAND_SADD c w"

definition srem :: "'w net \<Rightarrow> string \<Rightarrow> string \<Rightarrow> client \<Rightarrow> 'w \<Rightarrow> (bool \<times> client \<times> 'w) res" where
  "srem net key member c w = plain_command net key (CSrem key member) REDIS_COMMAND_SREM c w"

definition scard :: "'w net \<Rightarrow> string \<Rightarrow> client \<Rightarrow> 'w \<Rightarrow> (int \<times> client \<times> 'w) res" where
  "scard net key c w = count_command net key (CScard key) REDIS_COMMAND_SCARD 0 c w"

definition sismember :: "'w net \<Rightarrow> string \<Rightarrow> string \<Rightarrow> client \<Rightarrow> 'w \<Rightarrow> (bool \<times> client \<times> 'w) res" where
  "sismember net key member c w =
     res_bind (count_command net key (CSismember key member) REDIS_COMMAND_SISMEMBER (-1) c w)
       (\<lambda>(n, c, w). Inr (n = 1, c, w))"

definition smembers ::
  "'w net \<Rightarrow> string \<Rightarrow> string list \<Rightarrow> client \<Rightarrow> 'w \<Rightarrow> (bool \<times> string list \<times> client \<times> 'w) res" where
  "smembers net key members c w =
     members_command net key (CSmembers key) REDIS_COMMAND_SMEMBERS members c w"

definition zadd :: "'w net \<Rightarrow> string \<Rightarrow> string \<Rightarrow> int \<Rightarrow> client \<Rightarrow> 'w \<Rightarrow> (bool \<times> client \<times> 'w) res" where
  "zadd net key member score c w = plain_command net key (CZadd key member score) REDIS_COMMAND_ZADD c w"

definition zrem :: "'w net \<Rightarrow> string \<Rightarrow> string \<Rightarrow> client \<Rightarrow> 'w \<Rightarrow> (bool \<times> client \<times> 'w) res" where
  "zrem net key member c w = plain_command net key (CZrem key member) REDIS_COMMAND_ZREM c w"

definition zincby :: "'w net \<Rightarrow> string \<Rightarrow> string \<Rightarrow> int \<Rightarrow> client \<Rightarrow> 'w \<Rightarrow> (bool \<times> client \<times> 'w) res" where
  "zincby net key member inc c w =
     plain_command net key (CZincrby key member inc) REDIS_COMMAND_ZINCRBY c w"

definition zcount :: "'w net \<Rightarrow> string \<Rightarrow> int \<Rightarrow> int \<Rightarrow> client \<Rightarrow> 'w \<Rightarrow> (int \<times> client \<times> 'w) res" where
  "zcount net key i j c w = count_command net key (CZcount key i j) REDIS_COMMAND_ZCOUNT 0 c w"

definition zcard :: "'w net \<Rightarrow> string \<Rightarrow> client \<Rightarrow> 'w \<Rightarrow> (int \<times> client \<times> 'w) res" where
  "zcard net key c w = count_command net key (CZcard key) REDIS_COMMAND_ZCARD 0 c w"

definition zscore :: "'w net \<Rightarrow> string \<Rightarrow> string \<Rightarrow> client \<Rightarrow> 'w \<Rightarrow> (int \<times> client \<times> 'w) res" where
  "zscore net key member c w = count_command net key (CZscore key member) REDIS_COMMAND_ZSCORE (-1) c w"

definition zrangebyscore ::
  "'w net \<Rightarrow> string \<Rightarrow> int \<Rightarrow> int \<Rightarrow> string list \<Rightarrow> client \<Rightarrow> 'w
   \<Rightarrow> (bool \<times> string list \<times> client \<times> 'w) res" where
  "zrangebyscore net key i j members c w =
     members_command net key (CZrangebyscore key i j) REDIS_COMMAND_ZRANGEBYSCORE members c w"

definition zremrangebyscore ::
  "'w net \<Rightarrow> string \<Rightarrow> int \<Rightarrow> int \<Rightarrow> client \<Rightarrow> 'w \<Rightarrow> (bool \<times> client \<times> 'w) res" where
  "zremrangebyscore net key i j c w =
     plain_command net key (CZremrangebyscore key i j) REDIS_COMMAND_ZREMRANGEBYSCORE c w"

section \<open>Transactions\<close>

text \<open>Access to the pool of the proxy node.\<close>

definition proxy_pool :: "client \<Rightarrow> (nat \<times> pool) res" where
  "proxy_pool c =
     (case px_clusterHandler (m_redisProxy c) of
        None \<Rightarrow> Inl NullDeref
      | Some a \<Rightarrow> (case cl_pools c a of None \<Rightarrow> Inl Dangling | Some p \<Rightarrow> Inr (a, p)))"

definition set_pool :: "nat \<Rightarrow> pool \<Rightarrow> client \<Rightarrow> client" where
  "set_pool a p c = c\<lparr> cl_pools := (cl_pools c)(a \<mapsto> p) \<rparr>"

definition PrepareTransaction :: "'w net \<Rightarrow> client \<Rightarrow> 'w \<Rightarrow> (nat option \<times> client \<times> 'w) res" where
  "PrepareTransaction net c w =
     (if m_redisMode c \<noteq> STAND_ALONE_OR_PROXY_MODE then Inr (None, c, w)
      else res_bind (proxy_pool c) (\<lambda>(a, p).
        res_bind (getAvailableConnection net p w) (\<lambda>(con, p, w).
        case con of
          None \<Rightarrow> Inr (None, set_pool a p c, w)
        | Some k \<Rightarrow> res_bind (deref p k) (\<lambda>r.
            Inr (Some k, set_pool a (set_conn k (r\<lparr> m_canRelease := False \<rparr>) p) c, w)))))"

definition transaction_reply :: "RedisMode \<Rightarrow> RedisCommandType \<Rightarrow> RedisReplyInfo \<Rightarrow> bool" where
  "transaction_reply mode t r \<longleftrightarrow>
     (if t \<in> {REDIS_COMMAND_SET, REDIS_COMMAND_DEL, REDIS_COMMAND_SADD, REDIS_COMMAND_SREM}
      then parseQueuedResponseReply r
      else if t \<in> {REDIS_COMMAND_WATCH, REDIS_COMMAND_UNWATCH, REDIS_COMMAND_MULTI,
                   REDIS_COMMAND_DISCARD}
      then fst (parseStatusResponseReply mode r (False, []))
      else t = REDIS_COMMAND_EXEC \<and> parseExecReply r)"

definition doTransactionCommandInConnection ::
  "'w net \<Rightarrow> cmd \<Rightarrow> RedisCommandType \<Rightarrow> nat option \<Rightarrow> client \<Rightarrow> 'w \<Rightarrow> (bool \<times> client \<times> 'w) res" where
  "doTransactionCommandInConnection net cmd t con c w =
     (if px_clusterHandler (m_redisProxy c) = None then Inr (False, c, w)
      else res_bind (proxy_pool c) (\<lambda>(a, p).
        res_bind (one_conn_command net (fst cmd) (snd cmd) empty_reply False con p w)
          (\<lambda>(sent, r, _, p, w).
            Inr (sent \<and> transaction_reply (m_redisMode c) t r, set_pool a p c, w))))"

definition standalone_only ::
  "(client \<Rightarrow> 'w \<Rightarrow> (bool \<times> client \<times> 'w) res) \<Rightarrow> client \<Rightarrow> 'w \<Rightarrow> (bool \<times> client \<times> 'w) res" where
  "standalone_only f c w =
     (if m_redisMode c \<noteq> STAND_ALONE_OR_PROXY_MODE then Inr (False, c, w) else f c w)"

definition WatchKey :: "'w net \<Rightarrow> string \<Rightarrow> nat option \<Rightarrow> client \<Rightarrow> 'w \<Rightarrow> (bool \<times> client \<times> 'w) res" where
  "WatchKey net key con c w =
     doTransactionCommandInConnection net (build (CWatch key)) REDIS_COMMAND_WATCH con c w"

fun WatchKeys :: "'w net \<Rightarrow> string list \<Rightarrow> nat option \<Rightarrow> client \<Rightarrow> 'w \<Rightarrow> (bool \<times> client \<times> 'w) res" where
  "WatchKeys net [] con c w = Inr (True, c, w)"
| "WatchKeys net (k # ks) con c w =
     res_bind (WatchKey net k con c w) (\<lambda>(ok, c, w).
       if ok then WatchKeys net ks con c w else Inr (False, c, w))"

definition Unwatch :: "'w net \<Rightarrow> nat option \<Rightarrow> client \<Rightarrow> 'w \<Rightarrow> (bool \<times> client \<times> 'w) res" where
  "Unwatch net con c w = doTransactionCommandInConnection net unwatch_cmd REDIS_COMMAND_UNWATCH con c w"

definition StartTransaction :: "'w net \<Rightarrow> nat option \<Rightarrow> client \<Rightarrow> 'w \<Rightarrow> (bool \<times> client \<times> 'w) res" where
  "StartTransaction net con = standalone_only
     (doTransactionCommandInConnection net (build CMulti) REDIS_COMMAND_MULTI con)"

definition DiscardTransaction :: "'w net \<Rightarrow> nat option \<Rightarrow> client \<Rightarrow> 'w \<Rightarrow> (bool \<times> client \<times> 'w) res" where
  "DiscardTransaction net con = standalone_only
     (doTransactionCommandInConnection net (build CDiscard) REDIS_COMMAND_DISCARD con)"

definition ExecTransaction :: "'w net \<Rightarrow> nat option \<Rightarrow> client \<Rightarrow> 'w \<Rightarrow> (bool \<times> client \<times> 'w) res" where
  "ExecTransaction net con = standalone_only
     (doTransactionCommandInConnection net (build CExec) REDIS_COMMAND_EXEC con)"

definition FinishTransaction :: "'w net \<Rightarrow> nat option \<Rightarrow> client \<Rightarrow> 'w \<Rightarrow> (bool \<times> client \<times> 'w) res" where
  "FinishTransaction net con = standalone_only (\<lambda>c w.
     case con of
       None \<Rightarrow> Inr (False, c, w)
     | Some k \<Rightarrow>
         res_bind (proxy_pool c) (\<lambda>(a, p).
         res_bind (releaseConnection net k p w) (\<lambda>(p, w). Inr (True, set_pool a p c, w))))"

definition TSet ::
  "'w net \<Rightarrow> ('e \<Rightarrow> db_out \<Rightarrow> db_out res) \<Rightarrow> nat option \<Rightarrow> string \<Rightarrow> 'e \<Rightarrow> client \<Rightarrow> 'w
   \<Rightarrow> (bool \<times> client \<times> 'w) res" where
  "TSet net save con key sr c w =
     res_bind (saved save sr) (\<lambda>v.
       doTransactionCommandInConnection net (build (CSet key v)) REDIS_COMMAND_SET con c w)"

definition TSetString ::
  "'w net \<Rightarrow> nat option \<Rightarrow> string \<Rightarrow> string \<Rightarrow> client \<Rightarrow> 'w \<Rightarrow> (bool \<times> client \<times> 'w) res" where
  "TSetString net con key v c w =
     doTransactionCommandInConnection net (build (CSet key v)) REDIS_COMMAND_SET con c w"

definition TDel :: "'w net \<Rightarrow> nat option \<Rightarrow> string \<Rightarrow> client \<Rightarrow> 'w \<Rightarrow> (bool \<times> client \<times> 'w) res" where
  "TDel net con key c w =
     doTransactionCommandInConnection net (build (CDel key)) REDIS_COMMAND_DEL con c w"

definition TSadd ::
  "'w net \<Rightarrow> nat option \<Rightarrow> string \<Rightarrow> string \<Rightarrow> client \<Rightarrow> 'w \<Rightarrow> (bool \<times> client \<times> 'w) res" where
  "TSadd net con setKey member c w =
     doTransactionCommandInConnection net (build (CTSadd setKey member)) REDIS_COMMAND_SADD con c w"

definition TSrem ::
  "'w net \<Rightarrow> nat option \<Rightarrow> string \<Rightarrow> string \<Rightarrow> client \<Rightarrow> 'w \<Rightarrow> (bool \<times> client \<times> 'w) res" where
  "TSrem net con setKey member c w =
     doTransactionCommandInConnection net (build (CTSrem setKey member)) REDIS_COMMAND_SREM con c w"

end
