(* ===== verification/Client_Keys.thy ===== *)
theory Client_Keys
  imports Redis_Client
begin

text \<open>
  The operations over the keys of all nodes of a cluster: \<open>scanKeys\<close>, \<open>getKeys\<close> and
  \<open>delKeys\<close> of \<open>redisclient.cpp\<close>.  The loops of \<open>scanKeys\<close> advance only when a node says that
  its scan is complete; their first argument bounds the number of rounds, and \<open>None\<close> means
  that the bound was reached.
\<close>

section \<open>Scanning\<close>

definition updateClusterCursor :: "string \<Rightarrow> int \<Rightarrow> client \<Rightarrow> client" where
  "updateClusterCursor cid cursor c =
     (if cursor < 0 then c
      else case map_of (m_clusterMap c) cid of
        None \<Rightarrow> c
      | Some info \<Rightarrow> c\<lparr> m_clusterMap := map_insert cid (info\<lparr> scanCursor := cursor \<rparr>) (m_clusterMap c) \<rparr>)"

definition SCAN_COUNT :: int where
  "SCAN_COUNT = 10000"

text \<open>A reply to SCAN: the keys are appended and the cursor of the node is remembered.\<close>

definition take_scan :: "string \<Rightarrow> RedisReplyInfo \<Rightarrow> string list \<Rightarrow> client \<Rightarrow> string list \<times> int \<times> client" where
  "take_scan cid r keys c =
     (let (ok, keys, cursor) = parseScanKeysReply r keys in
      (keys, cursor, if ok then updateClusterCursor cid cursor c else c))"

text \<open>The loop over the spare nodes of \<open>cid\<close>: the iterator stays where it is after an
  answer, also when the cursor is 0.\<close>

fun scan_baks ::
  "nat \<Rightarrow> 'w net \<Rightarrow> string \<Rightarrow> nat \<Rightarrow> ScanMode \<Rightarrow> string \<Rightarrow> string list \<Rightarrow> RedisReplyInfo \<Rightarrow> string list \<Rightarrow> client \<Rightarrow> 'w
   \<Rightarrow> (string list \<times> client \<times> 'w) option res" where
  "scan_baks 0 net q count mode cid baks r keys c w = Inr None"
| "scan_baks (Suc n) net q count mode cid baks r keys c w =
     (case baks of
        [] \<Rightarrow> Inr (Some (keys, c, w))
      | b # bs \<Rightarrow>
          (case getRedisClusterInfo c b of
             None \<Rightarrow> scan_baks n net q count mode cid bs r keys c w
           | Some info \<Rightarrow>
               res_bind (handler_command net (scan_cmd (scanCursor info) q SCAN_COUNT mode) SCAN_PARSER r
                           (clusterHandler info) c w) (\<lambda>(sent, r, c, w).
               if \<not> sent then scan_baks n net q count mode cid bs (freeReplyInfo r) keys c w
               else
                 let (keys, cursor, c) = take_scan cid r keys c in
                 if length keys \<ge> count then Inr (Some (keys, c, w))
                 else scan_baks n net q count mode cid baks (freeReplyInfo r) keys c w)))"

text \<open>The loop over the nodes; a node that is gone from the map is asked for again.\<close>

fun scan_nodes ::
  "nat \<Rightarrow> 'w net \<Rightarrow> string \<Rightarrow> nat \<Rightarrow> ScanMode \<Rightarrow> string list \<Rightarrow> string list \<Rightarrow> client \<Rightarrow> 'w
   \<Rightarrow> (string list \<times> client \<times> 'w) option res" where
  "scan_nodes 0 net q count mode cids keys c w = Inr None"
| "scan_nodes (Suc n) net q count mode cids keys c w =
     (case cids of
        [] \<Rightarrow> Inr (Some (keys, c, w))
      | cid # rest \<Rightarrow>
          (case getRedisClusterInfo c cid of
             None \<Rightarrow> scan_nodes n net q count mode cids keys c w
           | Some info \<Rightarrow>
               if isMaster info \<and> isAlived info then
                 res_bind (handler_command net (scan_cmd (scanCursor info) q SCAN_COUNT mode) SCAN_PARSER empty_reply
                             (clusterHandler info) c w) (\<lambda>(sent, r, c, w).
                 if \<not> sent then
                   res_bind (scan_baks n net q count mode cid (bakClusterList info) (freeReplyInfo r) keys c w) (\<lambda>res.
                   case res of
                     None \<Rightarrow> Inr None
                   | Some (keys, c, w) \<Rightarrow>
                       if length keys \<ge> count then Inr (Some (keys, c, w))
                       else scan_nodes n net q count mode rest keys c w)
                 else
                   let (keys, cursor, c) = take_scan cid r keys c in
                   if length keys \<ge> count then Inr (Some (keys, c, w))
                   else if cursor \<noteq> 0 then scan_nodes n net q count mode cids keys c w
                   else scan_nodes n net q count mode rest keys c w)
               else if length keys \<ge> count then Inr (Some (keys, c, w))
               else scan_nodes n net q count mode rest keys c w))"

definition scanKeys ::
  "nat \<Rightarrow> 'w net \<Rightarrow> string \<Rightarrow> nat \<Rightarrow> ScanMode \<Rightarrow> string list \<Rightarrow> client \<Rightarrow> 'w
   \<Rightarrow> (bool \<times> string list \<times> client \<times> 'w) option res" where
  "scanKeys n net queryKey count mode keys c w =
     res_bind (scan_nodes n net queryKey count mode (map fst (m_clusterMap c)) keys c w) (\<lambda>res.
     Inr (map_option (\<lambda>(keys, c, w). (keys \<noteq> [], keys, c, w)) res))"

section \<open>All keys with a prefix\<close>

text \<open>The spare nodes are all asked, and the replies that come are collected in one.\<close>

fun keys_baks ::
  "'w net \<Rightarrow> string \<Rightarrow> string list \<Rightarrow> bool \<Rightarrow> RedisReplyInfo \<Rightarrow> client \<Rightarrow> 'w \<Rightarrow> (bool \<times> RedisReplyInfo \<times> client \<times> 'w) res" where
  "keys_baks net q [] sendBak r c w = Inr (sendBak, r, c, w)"
| "keys_baks net q (b # bs) sendBak r c w =
     (case getRedisClusterInfo c b of
        None \<Rightarrow> keys_baks net q bs sendBak r c w
      | Some info \<Rightarrow>
          res_bind (handler_command net (keys_cmd q) COMMON_PARSER r (clusterHandler info) c w) (\<lambda>(sent, r, c, w).
          if sent then keys_baks net q bs True r c w
          else keys_baks net q bs sendBak (freeReplyInfo r) c w))"

fun keys_nodes :: "'w net \<Rightarrow> string \<Rightarrow> string list \<Rightarrow> string list \<Rightarrow> client \<Rightarrow> 'w \<Rightarrow> (string list \<times> client \<times> 'w) res" where
  "keys_nodes net q [] keys c w = Inr (keys, c, w)"
| "keys_nodes net q (cid # cids) keys c w =
     (case getRedisClusterInfo c cid of
        None \<Rightarrow> keys_nodes net q cids keys c w
      | Some info \<Rightarrow>
          if \<not> (isMaster info \<and> isAlived info) then keys_nodes net q cids keys c w
          else
            res_bind (handler_command net (keys_cmd q) COMMON_PARSER empty_reply (clusterHandler info) c w)
              (\<lambda>(sent, r, c, w).
            if sent \<or> bakClusterList info = [] then
              let r = (if sent then r else freeReplyInfo r) in
              keys_nodes net q cids (snd (parseGetKeysReply r keys)) c w
            else
              res_bind (keys_baks net q (bakClusterList info) False (freeReplyInfo r) c w) (\<lambda>(sendBak, r, c, w).
              keys_nodes net q cids (if sendBak then snd (parseGetKeysReply r keys) else keys) c w)))"

definition getKeys :: "'w net \<Rightarrow> string \<Rightarrow> string list \<Rightarrow> client \<Rightarrow> 'w \<Rightarrow> (bool \<times> string list \<times> client \<times> 'w) res" where
  "getKeys net queryKey keys c w =
     res_bind (keys_nodes net queryKey (map fst (m_clusterMap c)) keys c w) (\<lambda>(keys, c, w). Inr (True, keys, c, w))"

fun del_all :: "'w net \<Rightarrow> string list \<Rightarrow> client \<Rightarrow> 'w \<Rightarrow> (client \<times> 'w) res" where
  "del_all net [] c w = Inr (c, w)"
| "del_all net (k # ks) c w = res_bind (del net k c w) (\<lambda>(_, c, w). del_all net ks c w)"

definition delKeys :: "'w net \<Rightarrow> string \<Rightarrow> client \<Rightarrow> 'w \<Rightarrow> (bool \<times> client \<times> 'w) res" where
  "delKeys net keyPrefix c w =
     res_bind (getKeys net keyPrefix [] c w) (\<lambda>(_, keys, c, w).
     res_bind (del_all net keys c w) (\<lambda>(c, w). Inr (True, c, w)))"

end
