(* ===== verification/Cluster_Topology.thy ===== *)
theory Cluster_Topology
  imports Redis_Client
begin

text \<open>
  The topology of a Redis cluster: the parser of the reply to \<open>CLUSTER NODES\<close>, the start-up
  that connects to every node and fills the map of slots, and the check that follows a
  redirect and replaces the topology when it has changed.  Positions in strings follow the
  source: a search that fails is \<open>None\<close>, and \<open>npos + 1\<close> is 0.
\<close>

section \<open>Parsing a node\<close>

text \<open>\<open>map<uint16_t, \<dots>>\<close>: entries in ascending order of their keys.\<close>

fun num_insert :: "nat \<Rightarrow> 'v \<Rightarrow> (nat \<times> 'v) list \<Rightarrow> (nat \<times> 'v) list" where
  "num_insert k v [] = [(k, v)]"
| "num_insert k v ((k', v') # es) =
     (if k = k' then (k, v) # es
      else if k < k' then (k, v) # (k', v') # es
      else (k', v') # num_insert k v es)"

definition to_u16 :: "int \<Rightarrow> nat" where
  "to_u16 i = nat (i mod 65536)"

definition to_u32 :: "int \<Rightarrow> nat" where
  "to_u32 i = nat (i mod 2 ^ 32)"

definition parseSlotStr :: "string \<Rightarrow> nat \<times> nat \<Rightarrow> nat \<times> nat" where
  "parseSlotStr slotStr se =
     (case str_find ''-'' slotStr 0 of
        None \<Rightarrow> se
      | Some findPos \<Rightarrow>
          (to_u16 (atoi (substr slotStr 0 findPos)),
           to_u16 (atoi (substr slotStr (findPos + 1) (length slotStr - findPos)))))"

text \<open>The loop over the slots of a node, and the last slot after it.\<close>

lemma str_find_bounds: "str_find p s pos = Some i \<Longrightarrow> p \<noteq> [] \<Longrightarrow> pos \<le> i \<and> i < length s"
proof -
  assume "str_find p s pos = Some i" and p: "p \<noteq> []"
  then obtain j where j: "find_sub p (drop pos s) = Some j" "i = pos + j" by (auto simp: str_find_def)
  from find_sub_Some_split [OF j(1)] have "j + length p \<le> length (drop pos s)" by blast
  then show ?thesis using j(2) p by (cases p) auto
qed

function parse_slots :: "string \<Rightarrow> nat \<Rightarrow> (nat \<times> nat) list \<Rightarrow> (nat \<times> nat) list" where
  "parse_slots infoStr startPos slots =
     (case str_find '' '' infoStr startPos of
        Some findPos \<Rightarrow>
          let (a, b) = parseSlotStr (substr infoStr startPos findPos) (65535, 65535) in
          parse_slots infoStr (findPos + 1) (num_insert a b slots)
      | None \<Rightarrow>
          let (a, b) = parseSlotStr (substr infoStr startPos (length infoStr - startPos)) (65535, 65535) in
          num_insert a b slots)"
  by pat_completeness auto
termination
  by (relation "measure (\<lambda>(s, i, m). length s - i)") (auto dest!: str_find_bounds)

declare parse_slots.simps [simp del]

definition REDIS_DEFALUT_SERVER_PORT :: nat where
  "REDIS_DEFALUT_SERVER_PORT = 6379"

definition empty_info :: RedisClusterInfo where
  "empty_info = \<lparr> clusterId = [], connectIp = [], connectPort = 0, connectionNum = 0, isMaster = False,
     isAlived = False, masterClusterId = [], slotMap = [], bakClusterList = [], clusterHandler = None,
     scanCursor = 0 \<rparr>"

definition parse_address :: "string \<Rightarrow> string \<times> nat" where
  "parse_address address =
     (case str_find '':'' address 0 of
        Some findPos \<Rightarrow>
          (substr address 0 findPos, to_u32 (atoi (substr address (findPos + 1) (length address - findPos))))
      | None \<Rightarrow> (address, REDIS_DEFALUT_SERVER_PORT))"

text \<open>\<open>None\<close> is the result false.  A line without a blank leaves the node as it is.\<close>

definition parseOneCluster :: "string \<Rightarrow> RedisClusterInfo \<Rightarrow> RedisClusterInfo option" where
  "parseOneCluster infoStr info =
     (case str_find '' '' infoStr 0 of
        None \<Rightarrow> Some info
      | Some p \<Rightarrow>
     (let info = info\<lparr> clusterId := substr infoStr 0 p \<rparr>; startPos = p + 1 in
      case str_find '' '' infoStr startPos of
        None \<Rightarrow> None
      | Some p \<Rightarrow>
     (let (ip, port) = parse_address (substr infoStr startPos (p - startPos));
          info = info\<lparr> connectIp := ip, connectPort := port \<rparr>; startPos = p + 1 in
      case str_find '' '' infoStr startPos of
        None \<Rightarrow> None
      | Some p \<Rightarrow>
     (let info = (if str_find ''master'' (substr infoStr startPos (p - startPos)) 0 \<noteq> None
                  then info\<lparr> isMaster := True \<rparr> else info); startPos = p + 1 in
      case str_find '' '' infoStr startPos of
        None \<Rightarrow> None
      | Some p \<Rightarrow>
     (let info = (if isMaster info then info
                  else info\<lparr> masterClusterId := substr infoStr startPos (p - startPos) \<rparr>); startPos = p + 1;
          info = info\<lparr> isAlived := (str_find ''disconnected'' infoStr startPos = None) \<rparr> in
      if isMaster info \<and> isAlived info then
        let startPos = (case str_find ''connected'' infoStr startPos of None \<Rightarrow> 0 | Some p \<Rightarrow> p + 1) in
        case str_find '' '' infoStr startPos of
          None \<Rightarrow> None
        | Some p \<Rightarrow> Some (info\<lparr> slotMap := parse_slots infoStr (p + 1) (slotMap info) \<rparr>)
      else Some info)))))"

section \<open>Parsing the reply\<close>

type_synonym cluster_map = "(string \<times> RedisClusterInfo) list"

definition address_of :: "RedisClusterInfo \<Rightarrow> string" where
  "address_of info = connectIp info @ '':'' @ toStr_u32 (of_nat (connectPort info))"

text \<open>The loop over the lines; \<open>bakMap\<close> collects the slaves, by address, with the id of their master.\<close>

function parse_lines ::
  "nat \<Rightarrow> string \<Rightarrow> nat \<Rightarrow> cluster_map \<Rightarrow> (string \<times> string) list \<Rightarrow> (cluster_map \<times> (string \<times> string) list) option" where
  "parse_lines connNum str startPos cm bakMap =
     (case str_find [LF] str startPos of
        None \<Rightarrow> Some (cm, bakMap)
      | Some findPos \<Rightarrow>
          let infoStr = substr str startPos (findPos - startPos) in
          if infoStr = [CR] then Some (cm, bakMap)
          else if str_find ''fail'' infoStr 0 \<noteq> None \<or> str_find ''noaddr'' infoStr 0 \<noteq> None
               \<or> str_find ''disconnected'' infoStr 0 \<noteq> None
          then parse_lines connNum str (findPos + 1) cm bakMap
          else case parseOneCluster infoStr empty_info of
            None \<Rightarrow> None
          | Some info \<Rightarrow>
              let cid = address_of info;
                  bakMap = (if \<not> isMaster info \<and> masterClusterId info \<noteq> []
                            then map_insert cid (masterClusterId info) bakMap else bakMap) in
              parse_lines connNum str (findPos + 1) (map_insert cid (info\<lparr> connectionNum := connNum \<rparr>) cm) bakMap)"
  by pat_completeness auto
termination
  by (relation "measure (\<lambda>(n, s, i, cm, b). length s - i)") (auto dest!: str_find_bounds)

declare parse_lines.simps [simp del]

text \<open>Every slave goes to the list of its master.\<close>

definition add_bak :: "string \<times> string \<Rightarrow> cluster_map \<Rightarrow> cluster_map" where
  "add_bak b cm = map (\<lambda>(cid, info).
     (cid, if clusterId info = snd b then info\<lparr> bakClusterList := bakClusterList info @ [fst b] \<rparr> else info)) cm"

definition parseClusterInfo :: "nat \<Rightarrow> RedisReplyInfo \<Rightarrow> cluster_map \<Rightarrow> (bool \<times> cluster_map) res" where
  "parseClusterInfo connNum r cm =
     (case arrayList r of
        [] \<Rightarrow> Inr (False, cm)
      | e # _ \<Rightarrow>
          if elemType e \<noteq> REDIS_REPLY_STRING \<or> arrayLen e = 0 then Inr (False, cm)
          else case arrayValue e of
            None \<Rightarrow> Inl NullDeref
          | Some v \<Rightarrow>
              (case parse_lines connNum (cstr v) 0 cm [] of
                 None \<Rightarrow> Inr (False, [])
               | Some (cm, bakMap) \<Rightarrow> Inr (True, fold add_bak bakMap cm)))"

section \<open>Start-up\<close>

definition new_pool :: "client \<Rightarrow> nat \<times> client" where
  "new_pool c = (cl_next c, c\<lparr> cl_pools := (cl_pools c)(cl_next c \<mapsto> RedisCluster (cl_next c)), cl_next := Suc (cl_next c) \<rparr>)"

definition with_pool :: "nat \<Rightarrow> (pool \<Rightarrow> ('a \<times> pool \<times> 'w) res) \<Rightarrow> client \<Rightarrow> ('a \<times> client \<times> 'w) res" where
  "with_pool a f c =
     (case cl_pools c a of
        None \<Rightarrow> Inl Dangling
      | Some p \<Rightarrow> res_bind (f p) (\<lambda>(x, p, w). Inr (x, c\<lparr> cl_pools := (cl_pools c)(a \<mapsto> p) \<rparr>, w)))"

definition delete_pool :: "nat \<Rightarrow> client \<Rightarrow> client" where
  "delete_pool a c = c\<lparr> cl_pools := (cl_pools c)(a := None) \<rparr>"

definition free_pool :: "'w net \<Rightarrow> nat \<Rightarrow> client \<Rightarrow> 'w \<Rightarrow> (client \<times> 'w) res" where
  "free_pool net a c w =
     res_bind (with_pool a (\<lambda>p. freeConnectPool net p w) c) (\<lambda>(_, c, w). Inr (delete_pool a c, w))"

definition AuthPasswd :: "'w net \<Rightarrow> string \<Rightarrow> nat \<Rightarrow> client \<Rightarrow> 'w \<Rightarrow> (bool \<times> client \<times> 'w) res" where
  "AuthPasswd net passwd a c w =
     res_bind (handler_command net (auth_cmd passwd) COMMON_PARSER empty_reply (Some a) c w) (\<lambda>(sent, r, c, w).
     Inr (sent \<and> replyType r = REDIS_REPLY_STATUS, c, w))"

definition auth_if_needed :: "'w net \<Rightarrow> nat \<Rightarrow> client \<Rightarrow> 'w \<Rightarrow> (client \<times> 'w) res" where
  "auth_if_needed net a c w =
     (if m_passwd c = [] then Inr (c, w)
      else res_bind (AuthPasswd net (m_passwd c) a c w) (\<lambda>(_, c, w). Inr (c, w)))"

text \<open>The slots of a range, and of a node.\<close>

definition fill_range :: "string \<Rightarrow> nat \<times> nat \<Rightarrow> (nat \<times> string) list \<Rightarrow> (nat \<times> string) list" where
  "fill_range cid ab slots = fold (\<lambda>i. num_insert i cid) [fst ab ..< Suc (snd ab)] slots"

definition fill_slots :: "string \<Rightarrow> RedisClusterInfo \<Rightarrow> client \<Rightarrow> client" where
  "fill_slots cid info c =
     (if isMaster info then c\<lparr> m_slotMap := fold (fill_range cid) (slotMap info) (m_slotMap c) \<rparr> else c)"

definition set_info :: "string \<Rightarrow> RedisClusterInfo \<Rightarrow> client \<Rightarrow> client" where
  "set_info cid info c = c\<lparr> m_clusterMap := map_insert cid info (m_clusterMap c) \<rparr>"

fun init_nodes :: "'w net \<Rightarrow> cluster_map \<Rightarrow> client \<Rightarrow> 'w \<Rightarrow> (bool \<times> client \<times> 'w) res" where
  "init_nodes net [] c w = Inr (True, c, w)"
| "init_nodes net ((cid, info) # cm) c w =
     (let (a, c) = new_pool c in
      res_bind (with_pool a (\<lambda>p. initConnectPool net (connectIp info) (connectPort info) (connectionNum info) p w) c)
        (\<lambda>(ok, c, w).
      if \<not> ok then Inr (False, set_info cid (info\<lparr> clusterHandler := None \<rparr>) (delete_pool a c), w)
      else
        let c = fill_slots cid info (set_info cid (info\<lparr> clusterHandler := Some a \<rparr>) c) in
        res_bind (auth_if_needed net a c w) (\<lambda>(c, w).
        init_nodes net cm c w)))"

definition initRedisCluster :: "'w net \<Rightarrow> client \<Rightarrow> 'w \<Rightarrow> (bool \<times> client \<times> 'w) res" where
  "initRedisCluster net c w = init_nodes net (m_clusterMap c) c w"

text \<open>The loop over the configured servers: a connection of its own per server.  After a
  command that fails \<open>paras\<close> has been freed, and the next server gets an empty one.\<close>

fun ask_servers ::
  "'w net \<Rightarrow> RedisCmdParaInfo list \<Rightarrow> (string \<times> nat) list \<Rightarrow> client \<Rightarrow> 'w \<Rightarrow> (bool \<times> client \<times> 'w) res" where
  "ask_servers net paras [] c w = Inr (False, c, w)"
| "ask_servers net paras ((ip, port) # servers) c w =
     (let (k, p) = new_conn ip port (RedisCluster (cl_next c)); c = c\<lparr> cl_next := Suc (cl_next c) \<rparr> in
      res_bind (conn_connect net k p w) (\<lambda>(up, w).
      if \<not> up then
        res_bind (delete_conn net k p w) (\<lambda>(_, w). ask_servers net paras servers c w)
      else
        res_bind (conn_command net p k paras 30 COMMON_PARSER empty_reply w) (\<lambda>(ok, r, w).
        res_bind (delete_conn net k p w) (\<lambda>(_, w).
        if \<not> ok then ask_servers net [] servers c w
        else if replyType r = REDIS_REPLY_ERROR then Inr (False, c, w)
        else if replyType r \<noteq> REDIS_REPLY_STRING then Inr (False, c, w)
        else
          res_bind (parseClusterInfo (cl_connectionNum c) r []) (\<lambda>(ok, cm).
          Inr (ok, if ok then c\<lparr> m_clusterMap := cm \<rparr> else c, w))))))"

definition getRedisClusterNodes :: "'w net \<Rightarrow> client \<Rightarrow> 'w \<Rightarrow> (bool \<times> client \<times> 'w) res" where
  "getRedisClusterNodes net c w = ask_servers net (fst cluster_nodes_cmd) (m_serverList c) c w"

definition freeRedisProxy :: "'w net \<Rightarrow> client \<Rightarrow> 'w \<Rightarrow> (client \<times> 'w) res" where
  "freeRedisProxy net c w =
     (case px_clusterHandler (m_redisProxy c) of
        None \<Rightarrow> Inr (c, w)
      | Some a \<Rightarrow> res_bind (free_pool net a c w) (\<lambda>(c, w).
          Inr (c\<lparr> m_redisProxy := (m_redisProxy c)\<lparr> px_clusterHandler := None \<rparr> \<rparr>, w)))"

definition initRedisProxy :: "'w net \<Rightarrow> client \<Rightarrow> 'w \<Rightarrow> (bool \<times> client \<times> 'w) res" where
  "initRedisProxy net c w =
     (case m_serverList c of
        [] \<Rightarrow> Inl Dangling
      | (ip, port) # _ \<Rightarrow>
          let c = c\<lparr> m_redisProxy := (m_redisProxy c)\<lparr> px_connectIp := ip, px_connectPort := port,
                proxyId := ip @ '':'' @ toStr_u32 (of_nat port), px_connectionNum := cl_connectionNum c \<rparr> \<rparr> in
          res_bind (freeRedisProxy net c w) (\<lambda>(c, w).
          let (a, c) = new_pool c in
          res_bind (with_pool a (\<lambda>p. initConnectPool net ip port (cl_connectionNum c) p w) c) (\<lambda>(ok, c, w).
          if \<not> ok then
            Inr (False, (delete_pool a c)\<lparr> m_redisProxy := (m_redisProxy c)\<lparr> px_clusterHandler := None \<rparr> \<rparr>, w)
          else
            let c = c\<lparr> m_redisProxy := (m_redisProxy c)\<lparr> px_clusterHandler := Some a \<rparr> \<rparr> in
            res_bind (auth_if_needed net a c w) (\<lambda>(c, w).
            Inr (True, c, w)))))"

fun free_nodes :: "'w net \<Rightarrow> cluster_map \<Rightarrow> client \<Rightarrow> 'w \<Rightarrow> (client \<times> 'w) res" where
  "free_nodes net [] c w = Inr (c, w)"
| "free_nodes net ((_, info) # cm) c w =
     res_bind (case clusterHandler info of None \<Rightarrow> Inr (c, w) | Some a \<Rightarrow> free_pool net a c w) (\<lambda>(c, w).
     free_nodes net cm c w)"

definition freeRedisCluster :: "'w net \<Rightarrow> client \<Rightarrow> 'w \<Rightarrow> (client \<times> 'w) res" where
  "freeRedisCluster net c w =
     res_bind (free_nodes net (m_clusterMap c) c w) (\<lambda>(c, w). Inr (c\<lparr> m_clusterMap := [], m_checkClusterNodesThreadStarted := False \<rparr>, w))"

section \<open>Following a change\<close>

fun ask_nodes ::
  "'w net \<Rightarrow> cluster_map \<Rightarrow> cluster_map \<Rightarrow> client \<Rightarrow> 'w \<Rightarrow> (bool \<times> cluster_map \<times> client \<times> 'w) res" where
  "ask_nodes net [] cm c w = Inr (False, cm, c, w)"
| "ask_nodes net ((cid, _) # old) cm c w =
     (case getRedisClusterInfo c cid of
        None \<Rightarrow> ask_nodes net old cm c w
      | Some info \<Rightarrow>
          res_bind (handler_command net cluster_nodes_cmd COMMON_PARSER empty_reply (clusterHandler info) c w)
            (\<lambda>(sent, r, c, w).
          if \<not> sent then ask_nodes net old cm c w
          else if replyType r = REDIS_REPLY_ERROR then Inr (False, cm, c, w)
          else if replyType r \<noteq> REDIS_REPLY_STRING then Inr (False, cm, c, w)
          else case arrayList r of
            [] \<Rightarrow> Inl Dangling
          | e # _ \<Rightarrow>
              (case arrayValue e of
                 None \<Rightarrow> Inl NullDeref
               | Some v \<Rightarrow>
                   if str_find ''myself,slave'' (cstr v) 0 \<noteq> None then ask_nodes net old cm c w
                   else res_bind (parseClusterInfo (cl_connectionNum c) r cm) (\<lambda>(ok, cm). Inr (ok, cm, c, w)))))"

definition getRedisClustersByCommand :: "'w net \<Rightarrow> client \<Rightarrow> 'w \<Rightarrow> (bool \<times> cluster_map \<times> client \<times> 'w) res" where
  "getRedisClustersByCommand net c w = ask_nodes net (m_clusterMap c) [] c w"

text \<open>The nodes of the new topology: those that are known keep their pool.\<close>

fun save_nodes :: "'w net \<Rightarrow> cluster_map \<Rightarrow> client \<Rightarrow> 'w \<Rightarrow> (bool \<times> client \<times> 'w) res" where
  "save_nodes net [] c w = Inr (True, c, w)"
| "save_nodes net ((cid, info) # cm) c w =
     (case getRedisClusterInfo c cid of
        Some old \<Rightarrow>
          let info = info\<lparr> clusterHandler := clusterHandler old, connectionNum := connectionNum old \<rparr> in
          save_nodes net cm (fill_slots cid info (set_info cid info c)) w
      | None \<Rightarrow>
          let (a, c) = new_pool c;
              info = info\<lparr> clusterHandler := Some a, connectionNum := cl_connectionNum c \<rparr> in
          res_bind (with_pool a (\<lambda>p. initConnectPool net (connectIp info) (connectPort info) (connectionNum info) p w) c)
            (\<lambda>(ok, c, w).
          if \<not> ok then Inr (False, c, w)
          else save_nodes net cm (fill_slots cid info (set_info cid info c)) w))"

text \<open>The nodes that are gone: their handlers wait in \<open>m_unusedHandlers\<close>.\<close>

definition retire :: "cluster_map \<Rightarrow> client \<Rightarrow> client" where
  "retire cm c =
     (let unused = filter (\<lambda>(cid, _). map_of cm cid = None) (m_clusterMap c) in
      c\<lparr> m_unusedHandlers := fold (\<lambda>(cid, info). map_insert cid (clusterHandler info)) unused (m_unusedHandlers c),
         m_clusterMap := filter (\<lambda>(cid, _). map_of cm cid \<noteq> None) (m_clusterMap c) \<rparr>)"

definition checkAndSaveRedisClusters :: "'w net \<Rightarrow> cluster_map \<Rightarrow> client \<Rightarrow> 'w \<Rightarrow> (bool \<times> client \<times> 'w) res" where
  "checkAndSaveRedisClusters net cm c w =
     res_bind (save_nodes net cm (c\<lparr> m_slotMap := [] \<rparr>) w) (\<lambda>(ok, c, w).
     Inr (ok, if ok then retire cm c else c, w))"

fun can_free :: "client \<Rightarrow> (string \<times> nat option) list \<Rightarrow> (string \<times> nat) list res" where
  "can_free c [] = Inr []"
| "can_free c ((cid, h) # hs) =
     (case h of
        None \<Rightarrow> Inl NullDeref
      | Some a \<Rightarrow>
          (case cl_pools c a of
             None \<Rightarrow> Inl Dangling
           | Some p \<Rightarrow>
               res_bind (checkIfCanFree p) (\<lambda>ok.
               res_bind (can_free c hs) (\<lambda>rest. Inr (if ok then (cid, a) # rest else rest)))))"

fun free_unused :: "'w net \<Rightarrow> (string \<times> nat) list \<Rightarrow> client \<Rightarrow> 'w \<Rightarrow> (client \<times> 'w) res" where
  "free_unused net [] c w = Inr (c, w)"
| "free_unused net ((cid, a) # hs) c w =
     res_bind (free_pool net a c w) (\<lambda>(c, w).
     free_unused net hs (c\<lparr> m_unusedHandlers := filter (\<lambda>(k, _). k \<noteq> cid) (m_unusedHandlers c) \<rparr>) w)"

definition releaseUnusedClusterHandler :: "'w net \<Rightarrow> client \<Rightarrow> 'w \<Rightarrow> (client \<times> 'w) res" where
  "releaseUnusedClusterHandler net c w =
     res_bind (can_free c (m_unusedHandlers c)) (\<lambda>hs. free_unused net hs c w)"

definition info_changed :: "RedisClusterInfo \<Rightarrow> RedisClusterInfo \<Rightarrow> bool" where
  "info_changed info old \<longleftrightarrow>
     clusterId info \<noteq> clusterId old \<or> isMaster info \<noteq> isMaster old \<or> isAlived info \<noteq> isAlived old
     \<or> masterClusterId info \<noteq> masterClusterId old \<or> scanCursor info \<noteq> scanCursor old
     \<or> list_ex (\<lambda>b. b \<notin> set (bakClusterList old)) (bakClusterList info)
     \<or> list_ex (\<lambda>b. b \<notin> set (bakClusterList info)) (bakClusterList old)
     \<or> list_ex (\<lambda>(a, b). map_of (slotMap old) a \<noteq> Some b) (slotMap info)
     \<or> list_ex (\<lambda>(a, b). map_of (slotMap info) a \<noteq> Some b) (slotMap old)"

definition topology_changed :: "cluster_map \<Rightarrow> cluster_map \<Rightarrow> bool" where
  "topology_changed cm old \<longleftrightarrow>
     list_ex (\<lambda>(cid, info). case map_of old cid of None \<Rightarrow> True | Some o' \<Rightarrow> info_changed info o') cm
     \<or> list_ex (\<lambda>(cid, _). map_of cm cid = None) old"

definition DoCheckClusterNodes :: "'w net \<Rightarrow> client \<Rightarrow> 'w \<Rightarrow> (client \<times> 'w) res" where
  "DoCheckClusterNodes net c w =
     res_bind (releaseUnusedClusterHandler net c w) (\<lambda>(c, w).
     res_bind (getRedisClustersByCommand net c w) (\<lambda>(ok, cm, c, w).
     if \<not> ok then Inr (c, w)
     else if topology_changed cm (m_clusterMap c) then
       res_bind (checkAndSaveRedisClusters net cm c w) (\<lambda>(_, c, w). Inr (c, w))
     else Inr (c, w)))"

text \<open>The thread that waits for a signal; \<open>thr\<close> says whether \<open>pthread_create\<close> succeeds.\<close>

definition StartCheckClusterThread :: "bool \<Rightarrow> client \<Rightarrow> bool \<times> client" where
  "StartCheckClusterThread thr c =
     (if m_checkClusterNodesThreadStarted c then (True, c)
      else (thr, c\<lparr> m_checkClusterNodesThreadStarted := thr \<rparr>))"

definition CheckClusterNodesThreadFunc :: "'w net \<Rightarrow> client \<Rightarrow> 'w \<Rightarrow> (client \<times> 'w) res" where
  "CheckClusterNodesThreadFunc net c w =
     (if m_signalQueue c = [] then Inr (c, w)
      else DoCheckClusterNodes net (c\<lparr> m_signalQueue := [] \<rparr>) w)"

definition getClusterIdFromRedirectReply :: "client \<Rightarrow> string \<Rightarrow> string option" where
  "getClusterIdFromRedirectReply c redirectInfo =
     (case str_find '':'' redirectInfo 0 of
        None \<Rightarrow> None
      | Some pos \<Rightarrow>
          map_option (\<lambda>(_, info). clusterId info)
            (find (\<lambda>(_, info). connectIp info = substr redirectInfo 0 pos
               \<and> to_u16 (atoi (drop (pos + 1) redirectInfo)) = connectPort info mod 65536) (m_clusterMap c)))"

end
