(* ===== verification/Sentinel.thy ===== *)
theory Sentinel
  imports Cluster_Topology
begin

text \<open>
  Sentinel mode: the connections to the sentinels, the subscription to the change of the
  master, the discovery of the master and its slaves, and the start and the end of a client
  in each of the three modes.  \<open>thr\<close> says whether \<open>pthread_create\<close> succeeds.
\<close>

section \<open>Replies\<close>

definition cstring :: "bytes option \<Rightarrow> string res" where
  "cstring v = (case v of None \<Rightarrow> Inl NullDeref | Some b \<Rightarrow> Inr (cstr b))"

definition ParseSentinelGetMasterReply :: "RedisReplyInfo \<Rightarrow> string \<times> nat \<Rightarrow> (bool \<times> string \<times> nat) res" where
  "ParseSentinelGetMasterReply r addr =
     (if replyType r = REDIS_REPLY_ERROR then Inr (False, addr)
      else if replyType r \<noteq> REDIS_REPLY_ARRAY then Inr (False, addr)
      else case arrayList r of
        [e1, e2] \<Rightarrow>
          res_bind (cstring (arrayValue e1)) (\<lambda>ip.
          res_bind (cstring (arrayValue e2)) (\<lambda>port. Inr (True, ip, to_u32 (atoi port))))
      | _ \<Rightarrow> Inr (False, addr))"

text \<open>The first two elements of a message are only copied to a string, when they are strings.\<close>

definition copied :: "ReplyArrayInfo \<Rightarrow> unit res" where
  "copied e = (if elemType e = REDIS_REPLY_STRING then res_bind (cstring (arrayValue e)) (\<lambda>_. Inr ()) else Inr ())"

definition ParseSubsribeSwitchMasterReply :: "RedisReplyInfo \<Rightarrow> bool res" where
  "ParseSubsribeSwitchMasterReply r =
     (if replyType r = REDIS_REPLY_ERROR then Inr False
      else if replyType r \<noteq> REDIS_REPLY_ARRAY then Inr False
      else case arrayList r of
        [e1, e2, e3] \<Rightarrow>
          res_bind (copied e1) (\<lambda>_. res_bind (copied e2) (\<lambda>_.
          if elemType e3 = REDIS_REPLY_STRING
          then res_bind (cstring (arrayValue e3)) (\<lambda>m. Inr (m = '':1'')) else Inr True))
      | _ \<Rightarrow> Inr False)"

text \<open>\<open>s.rfind(c, pos)\<close>: the last occurrence at or before \<open>pos\<close>.\<close>

fun rfind_upto :: "char \<Rightarrow> string \<Rightarrow> nat \<Rightarrow> nat option" where
  "rfind_upto c s 0 = None"
| "rfind_upto c s (Suc n) = (if n < length s \<and> s ! n = c then Some n else rfind_upto c s n)"

text \<open>The new master is the last two words.  A blank at position 0 makes \<open>pos2\<close> wrap to
  \<open>npos\<close>, so that the second search starts again at the end.\<close>

definition new_master :: "string \<Rightarrow> (string \<times> nat) option" where
  "new_master message =
     (case rfind_upto (CHR '' '') message (length message) of
        None \<Rightarrow> None
      | Some pos \<Rightarrow>
          let port = to_u32 (atoi (drop (pos + 1) message)) in
          if pos = 0 then Some (drop 1 message, port)
          else case rfind_upto (CHR '' '') message pos of
            None \<Rightarrow> None
          | Some pos' \<Rightarrow> Some (substr message (pos' + 1) (pos - 1 - pos'), port))"

definition ParseSwithMasterMessage :: "RedisReplyInfo \<Rightarrow> (string \<times> nat) option res" where
  "ParseSwithMasterMessage r =
     (if replyType r = REDIS_REPLY_ERROR then Inr None
      else if replyType r \<noteq> REDIS_REPLY_ARRAY then Inr None
      else case arrayList r of
        [e1, e2, e3] \<Rightarrow>
          res_bind (copied e1) (\<lambda>_. res_bind (copied e2) (\<lambda>_.
          if elemType e3 = REDIS_REPLY_STRING
          then res_bind (cstring (arrayValue e3)) (\<lambda>m. Inr (new_master m)) else Inr None))
      | _ \<Rightarrow> Inr None)"

section \<open>The slaves of the master\<close>

text \<open>\<open>slave0:ip=192.168.12.59,port=7101,state=online,offset=85978535,lag=0\<close>; \<open>memcmp\<close>
  against the bytes of a line stops at its terminating NUL at the latest.\<close>

definition slave_addr :: "string \<Rightarrow> (string \<times> nat) option" where
  "slave_addr linemsg =
     (case str_find ''ip='' linemsg 0 of None \<Rightarrow> None
      | Some pos1 \<Rightarrow>
     (case str_find '','' linemsg (pos1 + 3) of None \<Rightarrow> None
      | Some pos2 \<Rightarrow>
     (let ip = substr linemsg (pos1 + 3) (pos2 - (pos1 + 3)) in
      case str_find ''port='' linemsg pos2 of None \<Rightarrow> None
      | Some pos1 \<Rightarrow>
     (case str_find '','' linemsg (pos1 + 5) of None \<Rightarrow> None
      | Some pos2 \<Rightarrow> Some (ip, to_u32 (atoi (substr linemsg (pos1 + 5) (pos2 - (pos1 + 5)))))))))"

definition slaves_count :: "string \<Rightarrow> nat" where
  "slaves_count linemsg =
     (let str = (case str_find [CR] linemsg 0 of
        Some pos \<Rightarrow> substr linemsg 17 (if pos < 17 then length linemsg else pos - 17)
      | None \<Rightarrow> drop 17 linemsg) in nat (atoi str mod 2 ^ 64))"

function replication_lines :: "string \<Rightarrow> nat \<Rightarrow> nat \<Rightarrow> (string \<times> nat) list \<Rightarrow> (string \<times> nat) list" where
  "replication_lines msg startpos slavescount slaves =
     (case str_find [LF] msg startpos of
        None \<Rightarrow> slaves
      | Some endpos \<Rightarrow>
          let linemsg = substr msg startpos (endpos - startpos) in
          if linemsg = [CR] then slaves
          else if take 17 linemsg = ''connected_slaves:'' then
            replication_lines msg (endpos + 1) (slaves_count linemsg) slaves
          else if take 5 linemsg = ''slave'' then
            let slaves = (case slave_addr linemsg of None \<Rightarrow> slaves | Some a \<Rightarrow> slaves @ [a]) in
            if length slaves \<ge> slavescount then slaves
            else replication_lines msg (endpos + 1) slavescount slaves
          else replication_lines msg (endpos + 1) slavescount slaves)"
  by pat_completeness auto
termination
  by (relation "measure (\<lambda>(s, i, n, xs). length s - i)") (auto dest!: str_find_bounds)

declare replication_lines.simps [simp del]

definition ParseInfoReplicationReply :: "RedisReplyInfo \<Rightarrow> (bool \<times> (string \<times> nat) list) res" where
  "ParseInfoReplicationReply r =
     (if replyType r = REDIS_REPLY_ERROR then Inr (False, [])
      else if replyType r \<noteq> REDIS_REPLY_STRING then Inr (False, [])
      else case arrayList r of
        [] \<Rightarrow> Inr (False, [])
      | e # _ \<Rightarrow>
          if elemType e \<noteq> REDIS_REPLY_STRING \<or> arrayLen e = 0 then Inr (False, [])
          else res_bind (cstring (arrayValue e)) (\<lambda>msg. Inr (True, replication_lines msg 0 0 [])))"

definition MasterGetReplicationSlavesInfo ::
  "'w net \<Rightarrow> nat option \<Rightarrow> client \<Rightarrow> 'w \<Rightarrow> (bool \<times> (string \<times> nat) list \<times> client \<times> 'w) res" where
  "MasterGetReplicationSlavesInfo net h c w =
     res_bind (handler_command net info_cmd COMMON_PARSER empty_reply h c w) (\<lambda>(ok, r, c, w).
     if \<not> ok then Inr (False, [], c, w)
     else res_bind (ParseInfoReplicationReply r) (\<lambda>(ok, slaves). Inr (ok, slaves, c, w)))"

section \<open>The sentinels\<close>

text \<open>On every failure after the first step the connection stays taken.\<close>

definition SubscribeSwitchMaster :: "'w net \<Rightarrow> bool \<Rightarrow> nat \<Rightarrow> client \<Rightarrow> 'w \<Rightarrow> (bool \<times> client \<times> 'w) res" where
  "SubscribeSwitchMaster net thr a c w =
     res_bind (with_pool a (\<lambda>p.
       res_bind (getAvailableConnection net p w) (\<lambda>(con, p, w).
       case con of
         None \<Rightarrow> Inr (None, p, w)
       | Some k \<Rightarrow>
           res_bind (deref p k) (\<lambda>r.
           let p = set_conn k (r\<lparr> m_canRelease := False \<rparr>) p in
           res_bind (conn_command net p k (fst subscribe_cmd) (snd subscribe_cmd) COMMON_PARSER empty_reply w)
             (\<lambda>(ok, r, w). Inr (Some (k, ok, r), p, w))))) c) (\<lambda>(x, c, w).
     case x of
       None \<Rightarrow> Inr (False, c, w)
     | Some (k, ok, r) \<Rightarrow>
         if \<not> ok then Inr (False, c, w)
         else res_bind (ParseSubsribeSwitchMasterReply r) (\<lambda>ok.
           if \<not> ok then Inr (False, c, w)
           else
             let c = c\<lparr> m_threadArg := Some (a, k) \<rparr> in
             Inr (thr, if thr then c\<lparr> m_subscribeThreadIdList :=
               m_subscribeThreadIdList c @ [length (m_subscribeThreadIdList c)] \<rparr> else c, w)))"

definition SentinelGetMasterAddrByName :: "'w net \<Rightarrow> nat \<Rightarrow> client \<Rightarrow> 'w \<Rightarrow> (bool \<times> client \<times> 'w) res" where
  "SentinelGetMasterAddrByName net a c w =
     res_bind (handler_command net (sentinel_master_cmd (m_masterName c)) COMMON_PARSER empty_reply (Some a) c w)
       (\<lambda>(ok, r, c, w).
     if \<not> ok then Inr (False, c, w)
     else res_bind (ParseSentinelGetMasterReply r (m_initMasterAddr c)) (\<lambda>(ok, addr).
       Inr (ok, c\<lparr> m_initMasterAddr := addr \<rparr>, w)))"

definition CheckMasterRole :: "string \<times> nat \<Rightarrow> bool" where
  "CheckMasterRole masterAddr = True"

definition proxy_at :: "string \<Rightarrow> nat \<Rightarrow> RedisProxyInfo" where
  "proxy_at ip port = empty_proxy\<lparr> px_connectIp := ip, px_connectPort := port,
     proxyId := ip @ '':'' @ toStr_u32 (of_nat port) \<rparr>"

definition set_sentinel :: "RedisProxyInfo \<Rightarrow> client \<Rightarrow> client" where
  "set_sentinel h c = c\<lparr> m_sentinelHandlers := map_insert (proxyId h) h (m_sentinelHandlers c) \<rparr>"

fun init_sentinels ::
  "'w net \<Rightarrow> bool \<Rightarrow> (string \<times> nat) list \<Rightarrow> bool \<Rightarrow> bool \<Rightarrow> client \<Rightarrow> 'w \<Rightarrow> (bool \<times> bool \<times> client \<times> 'w) res" where
  "init_sentinels net thr [] got sub c w = Inr (got, sub, c, w)"
| "init_sentinels net thr ((ip, port) # ss) got sub c w =
     (let (a, c) = new_pool c in
      res_bind (with_pool a (\<lambda>p. initConnectPool net ip port 2 p w) c) (\<lambda>(up, c, w).
      let h = (proxy_at ip port)\<lparr> px_clusterHandler := Some a, px_isAlived := up \<rparr>;
          c = set_sentinel h c in
      if \<not> up then init_sentinels net thr ss got sub c w
      else
        res_bind (SubscribeSwitchMaster net thr a c w) (\<lambda>(ok, c, w).
        let c = (if ok then set_sentinel (h\<lparr> subscribed := True \<rparr>) c else c) in
        res_bind (if got then Inr (True, c, w) else SentinelGetMasterAddrByName net a c w) (\<lambda>(m, c, w).
        init_sentinels net thr ss (m \<and> (got \<or> CheckMasterRole (m_initMasterAddr c))) (sub \<or> ok) c w))))"

fun free_handlers :: "'w net \<Rightarrow> (string \<times> RedisProxyInfo) list \<Rightarrow> client \<Rightarrow> 'w \<Rightarrow> (client \<times> 'w) res" where
  "free_handlers net [] c w = Inr (c, w)"
| "free_handlers net ((_, h) # hs) c w =
     res_bind (case px_clusterHandler h of None \<Rightarrow> Inr (c, w) | Some a \<Rightarrow> free_pool net a c w) (\<lambda>(c, w).
     free_handlers net hs c w)"

definition StartSentinelHealthCheckTask :: "bool \<Rightarrow> client \<Rightarrow> bool \<times> client" where
  "StartSentinelHealthCheckTask thr c =
     (if m_sentinelHealthCheckThreadStarted c then (True, c)
      else (thr, c\<lparr> m_sentinelHealthCheckThreadStarted := thr \<rparr>))"

text \<open>Both at \<open>CLEAR_SENTINELS\<close> and in \<open>freeSentinels\<close>.\<close>

definition freeSentinels :: "'w net \<Rightarrow> client \<Rightarrow> 'w \<Rightarrow> (client \<times> 'w) res" where
  "freeSentinels net c w =
     res_bind (free_handlers net (m_sentinelHandlers c) c w) (\<lambda>(c, w).
     Inr (c\<lparr> m_sentinelHandlers := [], m_subscribeThreadIdList := [] \<rparr>, w))"

definition initSentinels :: "'w net \<Rightarrow> bool \<Rightarrow> client \<Rightarrow> 'w \<Rightarrow> (bool \<times> client \<times> 'w) res" where
  "initSentinels net thr c w =
     res_bind (init_sentinels net thr (m_sentinelList c) False False c w) (\<lambda>(got, sub, c, w).
     let c = snd (StartSentinelHealthCheckTask thr c) in
     if got \<and> sub then Inr (True, c, w)
     else res_bind (freeSentinels net c w) (\<lambda>(c, w). Inr (False, c, w)))"

text \<open>One round of the health check.  A pool that could not be filled is filled again as it is.\<close>

fun reinit_sentinels ::
  "'w net \<Rightarrow> bool \<Rightarrow> (string \<times> RedisProxyInfo) list \<Rightarrow> bool \<Rightarrow> client \<Rightarrow> 'w \<Rightarrow> (bool \<times> client \<times> 'w) res" where
  "reinit_sentinels net thr [] done c w = Inr (done, c, w)"
| "reinit_sentinels net thr ((k, h) # hs) done c w =
     res_bind
       (if px_isAlived h then Inr (h, done, c, w)
        else
          let (a, c) = (case px_clusterHandler h of None \<Rightarrow> new_pool c | Some a \<Rightarrow> (a, c)) in
          res_bind (with_pool a (\<lambda>p. initConnectPool net (px_connectIp h) (px_connectPort h) 2 p w) c) (\<lambda>(up, c, w).
          Inr (h\<lparr> px_clusterHandler := Some a, px_isAlived := up \<rparr>, done \<and> up, c, w))) (\<lambda>(h, done, c, w).
     res_bind
       (if px_isAlived h \<and> \<not> subscribed h then
          (case px_clusterHandler h of
             None \<Rightarrow> Inl NullDeref
           | Some a \<Rightarrow> res_bind (SubscribeSwitchMaster net thr a c w) (\<lambda>(ok, c, w).
               Inr (h\<lparr> subscribed := ok \<rparr>, done \<and> ok, c, w)))
        else Inr (h, done, c, w)) (\<lambda>(h, done, c, w).
     reinit_sentinels net thr hs done (c\<lparr> m_sentinelHandlers := map_insert k h (m_sentinelHandlers c) \<rparr>) w))"

definition SentinelReinit :: "'w net \<Rightarrow> bool \<Rightarrow> client \<Rightarrow> 'w \<Rightarrow> (bool \<times> client \<times> 'w) res" where
  "SentinelReinit net thr c w = reinit_sentinels net thr (m_sentinelHandlers c) True c w"

text \<open>The rounds of the health check; \<open>None\<close> means that the given number of rounds was not enough.\<close>

fun SentinelHealthCheckTask :: "nat \<Rightarrow> 'w net \<Rightarrow> bool \<Rightarrow> bool \<Rightarrow> client \<Rightarrow> 'w \<Rightarrow> (client \<times> 'w) option res" where
  "SentinelHealthCheckTask 0 net thr done c w = Inr None"
| "SentinelHealthCheckTask (Suc n) net thr done c w =
     (if done then Inr (Some (c\<lparr> m_sentinelHealthCheckThreadStarted := False \<rparr>, w))
      else res_bind (SentinelReinit net thr c w) (\<lambda>(done, c, w). SentinelHealthCheckTask n net thr done c w))"

section \<open>The master and its slaves\<close>

definition set_data_node :: "RedisProxyInfo \<Rightarrow> client \<Rightarrow> client" where
  "set_data_node h c = c\<lparr> m_dataNodes := map_insert (proxyId h) h (m_dataNodes c) \<rparr>"

text \<open>\<open>m_masterClusterId\<close> is changed before the new master is looked up.\<close>

definition DoSwitchMaster :: "'w net \<Rightarrow> string \<times> nat \<Rightarrow> client \<Rightarrow> 'w \<Rightarrow> (bool \<times> client \<times> 'w) res" where
  "DoSwitchMaster net addr c w =
     (let cid = fst addr @ '':'' @ toStr_u32 (of_nat (snd addr)); c = c\<lparr> m_masterClusterId := cid \<rparr> in
      case map_of (m_dataNodes c) cid of
        None \<Rightarrow> Inr (False, c, w)
      | Some node \<Rightarrow>
          if px_isAlived node then Inr (True, c, w)
          else
            let (a, c) = (case px_clusterHandler node of None \<Rightarrow> new_pool c | Some a \<Rightarrow> (a, c));
                node = node\<lparr> px_clusterHandler := Some a \<rparr>;
                c = c\<lparr> m_dataNodes := map_insert cid node (m_dataNodes c) \<rparr> in
            res_bind (with_pool a (\<lambda>p. initConnectPool net (px_connectIp node) (px_connectPort node)
                        (cl_connectionNum c) p w) c) (\<lambda>(up, c, w).
            if \<not> up then Inr (False, c, w)
            else res_bind (auth_if_needed net a c w) (\<lambda>(c, w).
              Inr (True, c\<lparr> m_dataNodes := map_insert cid (node\<lparr> px_isAlived := True \<rparr>) (m_dataNodes c) \<rparr>, w))))"

text \<open>What the subscriber thread does with a message.\<close>

definition SubscribeSwitchMasterThreadFun :: "'w net \<Rightarrow> RedisReplyInfo \<Rightarrow> client \<Rightarrow> 'w \<Rightarrow> (client \<times> 'w) res" where
  "SubscribeSwitchMasterThreadFun net r c w =
     res_bind (ParseSwithMasterMessage r) (\<lambda>m.
     case m of
       None \<Rightarrow> Inr (c, w)
     | Some addr \<Rightarrow> res_bind (DoSwitchMaster net addr c w) (\<lambda>(_, c, w). Inr (c, w)))"

fun init_slaves :: "'w net \<Rightarrow> (string \<times> nat) list \<Rightarrow> client \<Rightarrow> 'w \<Rightarrow> (client \<times> 'w) res" where
  "init_slaves net [] c w = Inr (c, w)"
| "init_slaves net ((ip, port) # ss) c w =
     (let (a, c) = new_pool c in
      res_bind (with_pool a (\<lambda>p. initConnectPool net ip port (cl_connectionNum c) p w) c) (\<lambda>(up, c, w).
      res_bind (if up then auth_if_needed net a c w else Inr (c, w)) (\<lambda>(c, w).
      init_slaves net ss
        (set_data_node ((proxy_at ip port)\<lparr> px_clusterHandler := Some a, px_isAlived := up \<rparr>) c) w)))"

text \<open>\<open>CLEAR_DATANODES\<close>: a master that could not be reached is not in the map, and is leaked.\<close>

definition clear_data_nodes :: "'w net \<Rightarrow> client \<Rightarrow> 'w \<Rightarrow> (bool \<times> client \<times> 'w) res" where
  "clear_data_nodes net c w =
     res_bind (free_handlers net (m_dataNodes c) c w) (\<lambda>(c, w). Inr (False, c\<lparr> m_dataNodes := [] \<rparr>, w))"

definition initMasterSlaves :: "'w net \<Rightarrow> client \<Rightarrow> 'w \<Rightarrow> (bool \<times> client \<times> 'w) res" where
  "initMasterSlaves net c w =
     (let (ip, port) = m_initMasterAddr c; (a, c) = new_pool c;
          node = (proxy_at ip port)\<lparr> px_clusterHandler := Some a \<rparr> in
      res_bind (with_pool a (\<lambda>p. initConnectPool net ip port (cl_connectionNum c) p w) c) (\<lambda>(up, c, w).
      if \<not> up then clear_data_nodes net c w
      else
        res_bind (auth_if_needed net a c w) (\<lambda>(c, w).
        let c = set_data_node (node\<lparr> px_isAlived := True \<rparr>) (c\<lparr> m_masterClusterId := proxyId node \<rparr>) in
        res_bind (MasterGetReplicationSlavesInfo net (Some a) c w) (\<lambda>(ok, slaves, c, w).
        if \<not> ok then clear_data_nodes net c w
        else res_bind (init_slaves net slaves c w) (\<lambda>(c, w). Inr (True, c, w))))))"

fun free_data_nodes :: "'w net \<Rightarrow> (string \<times> RedisProxyInfo) list \<Rightarrow> client \<Rightarrow> 'w \<Rightarrow> (client \<times> 'w) res" where
  "free_data_nodes net [] c w = Inr (c, w)"
| "free_data_nodes net ((_, h) # hs) c w =
     res_bind (case px_clusterHandler h of
         None \<Rightarrow> Inr (c, w)
       | Some a \<Rightarrow> if px_isAlived h then free_pool net a c w
                   else res_bind (with_pool a (\<lambda>p. Inr ((), p, w)) c) (\<lambda>(_, c, w). Inr (delete_pool a c, w)))
       (\<lambda>(c, w). free_data_nodes net hs c w)"

definition freeMasterSlaves :: "'w net \<Rightarrow> client \<Rightarrow> 'w \<Rightarrow> (client \<times> 'w) res" where
  "freeMasterSlaves net c w =
     res_bind (free_data_nodes net (m_dataNodes c) c w) (\<lambda>(c, w). Inr (c\<lparr> m_dataNodes := [] \<rparr>, w))"

section \<open>The life of a client\<close>

definition RedisClient :: client where
  "RedisClient = \<lparr> m_redisMode = STAND_ALONE_OR_PROXY_MODE, cl_connectionNum = 0, m_redisProxy = empty_proxy,
     m_slotMap = [], m_clusterMap = [], m_signalQueue = [], m_dataNodes = [], m_masterClusterId = [],
     cl_pools = Map.empty, cl_next = 0, m_connected = False, m_passwd = [], m_serverList = [],
     m_unusedHandlers = [], m_checkClusterNodesThreadStarted = False, m_sentinelList = [], m_masterName = [],
     m_sentinelHandlers = [], m_initMasterAddr = ([], 0), m_threadArg = None, m_subscribeThreadIdList = [],
     m_sentinelHealthCheckThreadStarted = False \<rparr>"

definition init :: "'w net \<Rightarrow> bool \<Rightarrow> RedisMode \<Rightarrow> (string \<times> nat) list \<Rightarrow> string \<Rightarrow> nat \<Rightarrow> string \<Rightarrow> client \<Rightarrow> 'w
   \<Rightarrow> (bool \<times> client \<times> 'w) res" where
  "init net thr mode serverList masterName num passwd c w =
     (if m_connected c then Inr (False, c, w)
      else
        let c = c\<lparr> m_redisMode := mode, m_masterName := masterName, cl_connectionNum := num,
                  m_passwd := passwd \<rparr>;
            c = (if mode = SENTINEL_MODE then c\<lparr> m_sentinelList := serverList \<rparr>
                 else c\<lparr> m_serverList := serverList \<rparr>) in
        res_bind
          (case mode of
             STAND_ALONE_OR_PROXY_MODE \<Rightarrow> initRedisProxy net c w
           | CLUSTER_MODE \<Rightarrow>
               res_bind (getRedisClusterNodes net c w) (\<lambda>(ok, c, w).
               if \<not> ok then Inr (False, c, w)
               else res_bind (initRedisCluster net c w) (\<lambda>(ok, c, w).
                 if \<not> ok then Inr (False, c, w)
                 else let (ok, c) = StartCheckClusterThread thr c in Inr (ok, c, w)))
           | SENTINEL_MODE \<Rightarrow>
               res_bind (initSentinels net thr c w) (\<lambda>(ok, c, w).
               if \<not> ok then Inr (False, c, w) else initMasterSlaves net c w))
          (\<lambda>(ok, c, w). Inr (ok, if ok then c\<lparr> m_connected := True \<rparr> else c, w)))"

definition freeRedisClient :: "'w net \<Rightarrow> client \<Rightarrow> 'w \<Rightarrow> (bool \<times> client \<times> 'w) res" where
  "freeRedisClient net c w =
     (if \<not> m_connected c then Inr (False, c, w)
      else
        let c = c\<lparr> m_passwd := [] \<rparr> in
        res_bind
          (case m_redisMode c of
             STAND_ALONE_OR_PROXY_MODE \<Rightarrow> freeRedisProxy net c w
           | CLUSTER_MODE \<Rightarrow> freeRedisCluster net c w
           | SENTINEL_MODE \<Rightarrow>
               res_bind (freeSentinels net c w) (\<lambda>(c, w). freeMasterSlaves net c w))
          (\<lambda>(c, w). Inr (True, c\<lparr> m_connected := False \<rparr>, w)))"

end
