(* ===== verification/Redis_Server.thy ===== *)
theory Redis_Server
  imports Redis_Client
begin

text \<open>
  The world the client talks to.  \<open>redis_spec\<close> states what the Redis documentation
  promises for the commands the restorer relies on, \<open>redis_session\<close> what it promises
  for MULTI, EXEC and DISCARD, and the locale \<open>redis_net\<close> is the contract of a
  network that reaches one such server.  Under this contract the operations of the
  client are operations on the server's data.
\<close>

named_theorems server_specs \<open>what the server promises\<close>

section \<open>What the server promises\<close>

datatype rval = RStr bytes | RSet "string set"

type_synonym db = "string \<rightharpoonup> rval"

text \<open>The set stored at a key; a missing key is an empty set, and \<open>None\<close> is a key that
  holds a string.\<close>

definition members_of :: "db \<Rightarrow> string \<Rightarrow> string set option" where
  "members_of db k =
     (case db k of None \<Rightarrow> Some {} | Some (RSet S) \<Rightarrow> Some S | Some (RStr _) \<Rightarrow> None)"

definition put_set :: "string \<Rightarrow> string set \<Rightarrow> db \<Rightarrow> db" where
  "put_set k S db = db(k := if S = {} then None else Some (RSet S))"

definition wrong_type :: "db \<Rightarrow> (resp \<times> db) set" where
  "wrong_type db = {(RError l, db) | l. text_ok l \<and> \<not> starts_moved l}"

definition on_set :: "db \<Rightarrow> string \<Rightarrow> (string set \<Rightarrow> (resp \<times> db) set) \<Rightarrow> (resp \<times> db) set" where
  "on_set db k f = (case members_of db k of None \<Rightarrow> wrong_type db | Some S \<Rightarrow> f S)"

definition redis_spec :: "bytes list \<Rightarrow> db \<Rightarrow> (resp \<times> db) set" where
  "redis_spec ws db =
     (case ws of
        [c, k] \<Rightarrow>
          if c = ''get'' then
            (case db k of
               None \<Rightarrow> {(RBulk None, db)}
             | Some (RStr v) \<Rightarrow> {(RBulk (Some v), db)}
             | Some (RSet _) \<Rightarrow> wrong_type db)
          else if c = ''exists'' then {(RInt (if k \<in> dom db then 1 else 0), db)}
          else if c = ''del'' then {(RInt (if k \<in> dom db then 1 else 0), db(k := None))}
          else if c = ''scard'' then on_set db k (\<lambda>S. {(RInt (int (card S)), db)})
          else if c = ''smembers'' then
            on_set db k (\<lambda>S. {(RArray (map (\<lambda>m. EBulk (Some m)) ms), db) | ms. set ms = S \<and> distinct ms})
          else UNIV
      | [c, k, v] \<Rightarrow>
          if c = ''set'' then {(RStatus ''OK'', db(k \<mapsto> RStr v))}
          else if c = ''sadd'' then
            on_set db k (\<lambda>S. {(RInt (if v \<in> S then 0 else 1), put_set k (insert v S) db)})
          else if c = ''srem'' then
            on_set db k (\<lambda>S. {(RInt (if v \<in> S then 1 else 0), put_set k (S - {v}) db)})
          else if c = ''sismember'' then
            on_set db k (\<lambda>S. {(RInt (if v \<in> S then 1 else 0), db)})
          else UNIV
      | _ \<Rightarrow> UNIV)"

text \<open>The element an EXEC reply has for the reply of a queued command.\<close>

fun exec_elem :: "resp \<Rightarrow> elem" where
  "exec_elem (RStatus l) = ELine (CHR ''+'' # l)"
| "exec_elem (RError l) = ELine (CHR ''-'' # l)"
| "exec_elem (RInt i) = ELine (CHR '':'' # show_int i)"
| "exec_elem (RBulk b) = EBulk b"
| "exec_elem (RArray es) = EBulk None"
| "exec_elem RNilArray = EBulk None"

inductive run_queue :: "bytes list list \<Rightarrow> db \<Rightarrow> resp list \<Rightarrow> db \<Rightarrow> bool" where
  run_Nil: "run_queue [] db [] db"
| run_Cons: "(r, db1) \<in> redis_spec ws db \<Longrightarrow> run_queue q db1 rs db2 \<Longrightarrow> run_queue (ws # q) db (r # rs) db2"

inductive_simps run_queue_simps [simp]: "run_queue [] db rs db'" "run_queue (ws # q) db rs db'"

text \<open>The commands the client queues in a transaction; nothing is promised for others.\<close>

definition queueable :: "bytes list \<Rightarrow> bool" where
  "queueable ws \<longleftrightarrow> ws \<noteq> [] \<and> hd ws \<in> {''set'', ''del'', ''sadd'', ''srem''}"

text \<open>A session is inside a transaction when it has a queue.\<close>

definition redis_session ::
  "bytes list \<Rightarrow> bytes list list option \<Rightarrow> db \<Rightarrow> (resp \<times> bytes list list option \<times> db) set" where
  "redis_session ws tx db =
     (case tx of
        None \<Rightarrow>
          if ws = [''multi''] then {(RStatus ''OK'', Some [], db)}
          else if ws = [''exec''] \<or> ws = [''discard''] then {(RError l, None, db) | l. text_ok l}
          else {(r, None, db') | r db'. (r, db') \<in> redis_spec ws db}
      | Some q \<Rightarrow>
          if ws = [''exec''] then
            (if list_all queueable q
             then {(RArray (map exec_elem rs), None, db') | rs db'. run_queue q db rs db'} else UNIV)
          else if ws = [''discard''] then {(RStatus ''OK'', None, db)}
          else if queueable ws then {(RStatus ''QUEUED'', Some (q @ [ws]), db)} else UNIV)"

definition session_word :: "bytes list \<Rightarrow> bool" where
  "session_word ws \<longleftrightarrow> ws \<in> {[''multi''], [''exec''], [''discard'']}"

section \<open>The contract of the network\<close>

text \<open>The reads in which a reply arrives.  A reply whose array has lines comes in one
  piece if it fits the buffer.\<close>

definition delivers :: "bytes list \<Rightarrow> resp \<Rightarrow> bool" where
  "delivers ds r \<longleftrightarrow> concat ds = enc_resp r
     \<and> (\<forall>d \<in> set ds. d \<noteq> [] \<and> length d < REDIS_READ_BUFF_SIZE)
     \<and> (length (enc_resp r) < REDIS_READ_BUFF_SIZE \<longrightarrow> \<not> resp_bulks r \<longrightarrow> length ds = 1)"

text \<open>The replies that fit the buffers of the parser.\<close>

definition reply_fits :: "resp \<Rightarrow> bool" where
  "reply_fits r \<longleftrightarrow> resp_ok r
     \<and> length (enc_resp r) < (if resp_bulks r then 2 ^ 30 else REDIS_READ_BUFF_SIZE)"

lemma recv_delivers:
  assumes "reply_fits r" "delivers ds r"
  shows "recv empty_reply (map Some ds @ later) = Inr (reply_of r, True, later)"
proof (cases "resp_bulks r")
  case True
  then show ?thesis using assms by (intro recv_split) (auto simp: reply_fits_def delivers_def)
next
  case False
  then have "length ds = 1" "length (enc_resp r) < REDIS_READ_BUFF_SIZE"
    using assms by (auto simp: reply_fits_def delivers_def)
  moreover then obtain d where "ds = [d]" by (auto simp: length_Suc_conv)
  ultimately show ?thesis using assms recv_whole [of r later]
    by (simp add: reply_fits_def delivers_def)
qed

lemma reply_fits_int: "in_int32 i \<Longrightarrow> reply_fits (RInt i)"
  using show_int_length_int32 [of i] by (simp add: reply_fits_def crlf_def)

lemma reply_fits_status: "line_ok l \<Longrightarrow> length l < buf_size \<Longrightarrow> reply_fits (RStatus l)"
  by (simp add: reply_fits_def text_ok_def crlf_def buf_size_def)

lemma reply_fits_bulk:
  assumes "length v < 2 ^ 29"
  shows "reply_fits (RBulk (Some v))"
proof -
  have "int (length v) \<le> int32_max" "int (length v) + 2 \<le> int32_max" using assms by (auto simp: int32_max_def)
  then show ?thesis
    using assms show_nat_length_int32 [of "length v"] by (simp add: reply_fits_def crlf_def)
qed

text \<open>Sets that fit one reply, with members that survive as C strings.\<close>

definition small_set :: "string set \<Rightarrow> bool" where
  "small_set S \<longleftrightarrow> finite S \<and> (\<Sum>m \<in> S. length m + 20) < 2 ^ 29 \<and> (\<forall>m \<in> S. str_ok m)"

lemma small_set_subset: "small_set T \<Longrightarrow> S \<subseteq> T \<Longrightarrow> small_set S"
  unfolding small_set_def by (meson finite_subset order_le_less_trans subsetD sum_mono2 zero_le)

lemma small_set_member:
  assumes "small_set S" "m \<in> S"
  shows "length m + 20 < 2 ^ 29"
  using assms member_le_sum [of m S "\<lambda>m. length m + 20"] unfolding small_set_def by fastforce

lemma card_small_set: "small_set S \<Longrightarrow> card S < 2 ^ 29"
proof -
  assume "small_set S"
  moreover have "card S \<le> (\<Sum>m \<in> S. length m + 20)"
    using sum_mono [of S "\<lambda>_. 1 :: nat" "\<lambda>m. length m + 20"] by simp
  ultimately show ?thesis by (simp add: small_set_def)
qed

lemma reply_fits_members:
  assumes "small_set (set ms)" "distinct ms"
  shows "reply_fits (RArray (map (\<lambda>m. EBulk (Some m)) ms))"
proof -
  let ?es = "map (\<lambda>m. EBulk (Some m)) ms"
  have n: "length ms < 2 ^ 29" using card_small_set [OF assms(1)] assms(2) by (simp add: distinct_card)
  have m: "length m + 20 < 2 ^ 29" if "m \<in> set ms" for m using small_set_member [OF assms(1) that] .
  have "length (enc_elem (EBulk (Some m))) \<le> length m + 20" if "m \<in> set ms" for m
    using m [OF that] show_nat_length_int32 [of "length m"] by (simp add: crlf_def int32_max_def)
  then have "length (enc_elems ?es) \<le> sum_list (map (\<lambda>m. length m + 20) ms)"
    by (auto simp: length_concat comp_def intro!: sum_list_mono)
  also have "\<dots> = (\<Sum>m \<in> set ms. length m + 20)" using assms(2) by (rule sum_list_distinct_conv_sum_set)
  finally have "length (enc_elems ?es) < 2 ^ 29" using assms(1) by (simp add: small_set_def)
  moreover have "elem_ok (EBulk (Some m))" if "m \<in> set ms" for m
    using m [OF that] by (simp add: int32_max_def)
  then have "list_all elem_ok ?es" by (simp add: list_all_iff)
  moreover have "list_all is_bulk ?es" by (auto simp: list_all_iff)
  ultimately show ?thesis
    using n show_nat_length_int32 [of "length ms"] by (simp add: reply_fits_def crlf_def int32_max_def)
qed

text \<open>Only the session of \<open>s\<close> may differ.\<close>

definition others_same :: "(sock \<Rightarrow> 'w \<Rightarrow> 'q option) \<Rightarrow> sock \<Rightarrow> 'w \<Rightarrow> 'w \<Rightarrow> bool" where
  "others_same tx s w w' \<longleftrightarrow> (\<forall>s'. s' \<noteq> s \<longrightarrow> tx s' w' = tx s' w)"

text \<open>No other session than that of \<open>s\<close> is opened.\<close>

definition others_idle :: "(sock \<Rightarrow> 'w \<Rightarrow> 'q option) \<Rightarrow> sock \<Rightarrow> 'w \<Rightarrow> 'w \<Rightarrow> bool" where
  "others_idle tx s w w' \<longleftrightarrow> (\<forall>s'. s' \<noteq> s \<longrightarrow> tx s' w = None \<longrightarrow> tx s' w' = None)"

text \<open>The connections that are free have no open session.\<close>

definition pool_idle :: "(sock \<Rightarrow> 'w \<Rightarrow> 'q option) \<Rightarrow> pool \<Rightarrow> 'w \<Rightarrow> bool" where
  "pool_idle tx p w \<longleftrightarrow> (\<forall>k \<in> set (m_connections p). \<forall>r. p_heap p k = Some r \<longrightarrow> m_available r
     \<longrightarrow> tx (sock_of p k) w = None)"

definition pool_free :: "pool \<Rightarrow> bool" where
  "pool_free p \<longleftrightarrow> (\<exists>k \<in> set (m_connections p). \<exists>r. p_heap p k = Some r \<and> m_available r)"

text \<open>The pool a command goes to in stand-alone and in sentinel mode, and the clients
  that are connected to it and have a free connection.\<close>

definition serving :: "client \<Rightarrow> nat option" where
  "serving c =
     (case m_redisMode c of
        STAND_ALONE_OR_PROXY_MODE \<Rightarrow> px_clusterHandler (m_redisProxy c)
      | SENTINEL_MODE \<Rightarrow>
          (case map_of (m_dataNodes c) (m_masterClusterId c) of
             None \<Rightarrow> None
           | Some n \<Rightarrow> if px_isAlived n then px_clusterHandler n else None)
      | CLUSTER_MODE \<Rightarrow> None)"

definition client_ok :: "(sock \<Rightarrow> 'w \<Rightarrow> 'q option) \<Rightarrow> client \<Rightarrow> 'w \<Rightarrow> bool" where
  "client_ok tx c w \<longleftrightarrow>
     (\<exists>a p. serving c = Some a \<and> cl_pools c a = Some p \<and> pool_inv p \<and> pool_free p \<and> pool_idle tx p w)"

lemma serving_set_pool [simp]:
  "serving (c\<lparr> cl_pools := x \<rparr>) = serving c" "serving (set_pool a p c) = serving c"
  by (simp_all add: serving_def set_pool_def split: RedisMode.splits)

text \<open>A server that can be reached.  A connection has a session when it has state at the server that must
  not be lost, and such a connection is not dropped; \<open>answers\<close> is what the server promises for a request.\<close>

locale server_net =
  fixes net :: "'w net"
    and data :: "'w \<Rightarrow> db"
    and tx :: "sock \<Rightarrow> 'w \<Rightarrow> 'q option"
    and answers :: "bytes list \<Rightarrow> 'q option \<Rightarrow> db \<Rightarrow> (resp \<times> 'q option \<times> db) set"
  assumes connects: "\<exists>w'. net_connect net s ip port w = (True, w') \<and> data w' = data w
      \<and> tx s w' = None \<and> others_same tx s w w'"
    and closes: "data (net_close net s w) = data w" "tx s (net_close net s w) = None"
      "others_same tx s w (net_close net s w)"
    and stays: "tx s w \<noteq> None \<Longrightarrow> net_alive net s w"
    and serves: "ws \<noteq> [] \<Longrightarrow> \<exists>w1 ds later w2 r. net_send net s (enc_request ws) w = (True, w1)
      \<and> net_reads net s w1 = (map Some ds @ later, w2) \<and> delivers ds r
      \<and> (r, tx s w2, data w2) \<in> answers ws (tx s w) (data w) \<and> others_idle tx s w w2"
begin

text \<open>Steps that leave the data alone and open no transaction.\<close>

definition calm :: "'w \<Rightarrow> 'w \<Rightarrow> bool" where
  "calm w w' \<longleftrightarrow> data w' = data w \<and> (\<forall>s. tx s w = None \<longrightarrow> tx s w' = None)"

lemma calm_refl [simp]: "calm w w"
  by (simp add: calm_def)

lemma calm_trans: "calm w w' \<Longrightarrow> calm w' w'' \<Longrightarrow> calm w w''"
  by (simp add: calm_def)

lemma calm_close [simp]: "calm w (net_close net s w)"
  using closes [of s w] by (auto simp: calm_def others_same_def) metis

lemma connect_calm:
  obtains w' where "net_connect net s ip port w = (True, w')" "calm w w'" "tx s w' = None"
    "others_same tx s w w'"
  using connects [of s ip port w] by (auto simp: calm_def others_same_def) metis

lemma delete_conn_calm: "delete_conn net c p w = Inr (p', w') \<Longrightarrow> calm w w' \<and> p_obj p' = p_obj p"
  by (auto simp: delete_conn_def res_bind_Inr_iff)

lemma free_stale_tmp_calm: "free_stale_tmp net now cs p w = Inr (ks, p', w') \<Longrightarrow> calm w w'"
proof (induction cs arbitrary: p w ks p' w')
  case (Cons c cs)
  then show ?case
    by (auto simp: res_bind_Inr_iff split: if_splits prod.splits dest!: delete_conn_calm)
       (meson calm_trans)
qed simp

lemma conn_connect_live:
  assumes "p_heap p c = Some r"
  obtains w' where "conn_connect net c p w = Inr (True, w')" "calm w w'" "tx (sock_of p c) w' = None"
    "others_same tx (sock_of p c) w w'"
  using connect_calm [of "sock_of p c" "m_serverIp r" "m_serverPort r" w] assms
  by (auto simp: conn_connect_def)

lemma recreate_live:
  assumes inv: "pool_inv p" and i: "i < length (m_connections p)"
  obtains p' w' where "recreate net now i p w = Inr (Some (p_next p), p', w')" "pool_inv p'"
    "calm w w'" "tx (sock_of p (p_next p)) w' = None" "p_obj p' = p_obj p"
    "m_connections p' = (m_connections p)[i := p_next p]"
    "p_heap p' = (p_heap p)(m_connections p ! i := None, p_next p \<mapsto>
       (RedisConnection (m_clusterIp p) (m_clusterPort p))\<lparr> m_connectTime := now \<rparr>)"
proof -
  let ?c = "m_connections p ! i" and ?w = "net_close net (sock_of p (m_connections p ! i)) w"
  let ?p = "snd (new_conn (m_clusterIp p) (m_clusterPort p) (p\<lparr> p_heap := (p_heap p)(?c := None) \<rparr>))"
  have c: "?c \<in> dom (p_heap p)"
    using inv nth_mem [OF i] unfolding pool_inv_def by (metis Un_iff set_append subsetD)
  have "p_heap ?p (p_next p) = Some (RedisConnection (m_clusterIp p) (m_clusterPort p))"
    by (simp add: new_conn_def)
  then obtain w' where w': "conn_connect net (p_next p) ?p ?w = Inr (True, w')" "calm ?w w'"
    "tx (sock_of ?p (p_next p)) w' = None" by (rule conn_connect_live)
  have "calm w w'" using calm_close w'(2) by (rule calm_trans)
  moreover have "tx (sock_of p (p_next p)) w' = None"
    using w'(3) by (simp add: sock_of_def new_conn_def)
  ultimately show thesis
    using pool_inv_recreate [OF inv i, of net now w] w'(1) that
    by (auto simp: recreate_def delete_conn_ok [OF c] new_conn_def set_conn_def)
qed

abbreviation idle :: "pool \<Rightarrow> 'w \<Rightarrow> bool" where
  "idle \<equiv> pool_idle tx"

lemmas idle_def = pool_idle_def [of tx]

lemma idle_calm: "idle p w \<Longrightarrow> calm w w' \<Longrightarrow> idle p w'"
  by (auto simp: idle_def calm_def sock_of_def)

lemma idle_others:
  "idle p w \<Longrightarrow> others_idle tx (sock_of p k) w w' \<Longrightarrow> p_heap p k = Some r \<Longrightarrow> \<not> m_available r \<Longrightarrow> idle p w'"
  unfolding idle_def others_idle_def sock_of_def by (metis option.sel prod.inject)

lemma getAvailableConnection_live:
  assumes inv: "pool_inv p" and idle: "idle p w"
  obtains a p' w' where "getAvailableConnection net p w = Inr (a, p', w')" "pool_inv p'" "idle p' w'"
    "calm w w'" "p_obj p' = p_obj p" "pool_free p \<Longrightarrow> a \<noteq> None"
    "\<And>c. a = Some c \<Longrightarrow> tx (sock_of p c) w' = None \<and> c \<in> set (m_connections p')
       \<and> (\<exists>r. p_heap p' c = Some r \<and> \<not> m_available r)"
proof -
  let ?now = "net_time net w"
  obtain q w1 where q: "pool_inv q" "m_connections q = m_connections p" "p_obj q = p_obj p"
    and hq: "\<forall>d \<in> set (m_connections p). p_heap q d = p_heap p d"
    and calm: "\<exists>ks p1. free_stale_tmp net ?now (m_tmpConnections p) p w = Inr (ks, p1, w1)"
    and step: "getAvailableConnection net p w =
     res_bind (find_conn m_available q (m_connections q)) (\<lambda>a.
     case a of
       Some i \<Rightarrow>
         res_bind (deref q (m_connections q ! i)) (\<lambda>r. Inr (Some (m_connections q ! i),
           set_conn (m_connections q ! i) (r\<lparr> m_available := False, m_connectTime := ?now \<rparr>) q, w1))
     | None \<Rightarrow>
         res_bind (find_conn (\<lambda>r. m_canRelease r \<and> stale ?now r) q (m_connections q)) (\<lambda>b.
         case b of Some i \<Rightarrow> recreate net ?now i q w1 | None \<Rightarrow> Inr (None, q, w1)))"
    using inv by (rule getAvailableConnection_step [of p net w]) blast
  have w1: "calm w w1" using calm by (auto dest: free_stale_tmp_calm)
  have "idle q w" using idle q(2,3) hq by (simp add: idle_def sock_of_def)
  then have iq: "idle q w1" using w1 by (rule idle_calm)
  have sub: "set (m_connections q) \<subseteq> dom (p_heap q)" using q(1) by (simp add: pool_inv_def)
  show thesis
  proof (rule find_conn_spec [OF sub, of m_available])
    fix i assume i: "find_conn m_available q (m_connections q) = Inr (Some i)"
      "i < length (m_connections q)" "m_available (the (p_heap q (m_connections q ! i)))"
    let ?c = "m_connections q ! i"
    have c: "?c \<in> set (m_connections q)" using i(2) by simp
    then obtain r where r: "p_heap q ?c = Some r" using sub by auto
    show thesis
    proof (rule that)
      show "getAvailableConnection net p w = Inr (Some ?c,
          set_conn ?c (r\<lparr> m_available := False, m_connectTime := ?now \<rparr>) q, w1)"
        using step i(1) r by simp
      show "pool_inv (set_conn ?c (r\<lparr> m_available := False, m_connectTime := ?now \<rparr>) q)"
        using q(1) r by (intro pool_inv_set_conn) auto
    qed (use c r i(3) q iq w1 in \<open>auto simp: idle_def sock_of_def\<close>)
  next
    assume none: "find_conn m_available q (m_connections q) = Inr None"
      "\<forall>c \<in> set (m_connections q). \<not> m_available (the (p_heap q c))"
    show thesis
    proof (rule find_conn_spec [OF sub, of "\<lambda>r. m_canRelease r \<and> stale ?now r"])
      fix i assume i: "find_conn (\<lambda>r. m_canRelease r \<and> stale ?now r) q (m_connections q) = Inr (Some i)"
        "i < length (m_connections q)"
      obtain p' w' where r: "recreate net ?now i q w1 = Inr (Some (p_next q), p', w')" "pool_inv p'"
        "calm w1 w'" "tx (sock_of q (p_next q)) w' = None" "p_obj p' = p_obj q"
        "m_connections p' = (m_connections q)[i := p_next q]"
        "p_heap p' = (p_heap q)(m_connections q ! i := None, p_next q \<mapsto>
           (RedisConnection (m_clusterIp q) (m_clusterPort q))\<lparr> m_connectTime := ?now \<rparr>)"
        using recreate_live [OF q(1) i(2)] by blast
      have "idle p' w'"
        using r(4,5,6,7) none(2) i(2) set_update_subset_insert [of "m_connections q" i "p_next q"]
        by (auto simp: idle_def sock_of_def RedisConnection_def split: if_splits)
          (metis insertE option.sel subsetD)
      then show thesis
        using step none(1) i r q w1 that [of "Some (p_next q)" p' w']
        by (auto simp: sock_of_def RedisConnection_def set_update_memI intro: calm_trans)
    next
      assume "find_conn (\<lambda>r. m_canRelease r \<and> stale ?now r) q (m_connections q) = Inr None"
      then have "getAvailableConnection net p w = Inr (None, q, w1)" using step none by simp
      moreover have "\<not> pool_free p" using none(2) q(2) hq by (auto simp: pool_free_def)
      ultimately show thesis using q iq w1 by (intro that [of None q w1]) auto
    qed
  qed
qed

lemma release_live:
  assumes "pool_inv p" "c \<in> set (m_connections p)" "p_heap p c = Some k" "idle p w"
    "tx (sock_of p c) w = None"
  shows "releaseConnection net c p w = Inr (set_conn c (k\<lparr> m_available := True \<rparr>) p, w)
    \<and> pool_inv (set_conn c (k\<lparr> m_available := True \<rparr>) p)
    \<and> pool_free (set_conn c (k\<lparr> m_available := True \<rparr>) p)
    \<and> idle (set_conn c (k\<lparr> m_available := True \<rparr>) p) w"
  using releaseConnection_ok [OF assms(1,2), of net w] assms
  by (auto simp: idle_def sock_of_def pool_free_def)

section \<open>One command on a connection\<close>

lemma conn_command_live:
  assumes heap: "p_heap p c = Some k" and ws: "ws \<noteq> []" and len: "0 \<le> len"
    and req: "createRedisCommand paras (nat len) = Inr (True, enc_request ws)"
    and fits: "\<forall>(r, _) \<in> answers ws (tx (sock_of p c) w) (data w). reply_fits r"
  obtains r w' where "conn_command net p c paras len COMMON_PARSER empty_reply w
      = Inr (True, reply_of r, w')"
    "(r, tx (sock_of p c) w', data w') \<in> answers ws (tx (sock_of p c) w) (data w)"
    "others_idle tx (sock_of p c) w w'"
proof -
  let ?s = "sock_of p c"
  obtain w0 where up: "(if net_alive net ?s w then Inr (True, w) else conn_connect net c p w) = Inr (True, w0)"
    and w0: "tx ?s w0 = tx ?s w" "data w0 = data w" "others_same tx ?s w w0"
  proof (cases "net_alive net ?s w")
    case True
    then show thesis using that [of w] by (simp add: others_same_def)
  next
    case False
    then have "tx ?s w = None" using stays by blast
    moreover obtain w' where "conn_connect net c p w = Inr (True, w')" "calm w w'" "tx ?s w' = None"
      "others_same tx ?s w w'" using heap by (rule conn_connect_live)
    ultimately show thesis using that [of w'] False by (simp add: calm_def)
  qed
  from serves [OF ws, of ?s w0] obtain w1 ds later w2 r where
    send: "net_send net ?s (enc_request ws) w0 = (True, w1)"
    and reads: "net_reads net ?s w1 = (map Some ds @ later, w2)" "delivers ds r"
    and r: "(r, tx ?s w2, data w2) \<in> answers ws (tx ?s w) (data w)" and o: "others_idle tx ?s w0 w2"
    unfolding w0(1,2) by blast
  have "reply_fits r" using fits r by blast
  then have "recv empty_reply (map Some ds @ later) = Inr (reply_of r, True, later)"
    using reads(2) by (rule recv_delivers)
  then have "conn_command net p c paras len COMMON_PARSER empty_reply w = Inr (True, reply_of r, w2)"
    using up send reads(1) len by (simp add: conn_command_def heap req recv_with_def)
  then show thesis using r w0(3) o by (intro that [of r w2]) (auto simp: others_same_def others_idle_def)
qed

end

section \<open>One client and its transactions\<close>

text \<open>A server whose sessions are transactions and that has no other client.\<close>

locale redis_net = server_net net data tx redis_session
  for net :: "'w net" and data :: "'w \<Rightarrow> db" and tx :: "sock \<Rightarrow> 'w \<Rightarrow> bytes list list option"
begin

text \<open>Outside a transaction the answer is one of \<open>redis_spec\<close>.\<close>

lemma plain_command_live:
  assumes heap: "p_heap p c = Some k" and ws: "ws \<noteq> []" "\<not> session_word ws" and len: "0 \<le> len"
    and req: "createRedisCommand paras (nat len) = Inr (True, enc_request ws)"
    and fits: "\<forall>(r, _) \<in> redis_spec ws (data w). reply_fits r" and idle: "tx (sock_of p c) w = None"
  obtains r w' where "conn_command net p c paras len COMMON_PARSER empty_reply w
      = Inr (True, reply_of r, w')" "(r, data w') \<in> redis_spec ws (data w)"
    "tx (sock_of p c) w' = None" "others_idle tx (sock_of p c) w w'"
proof -
  have ses: "redis_session ws (tx (sock_of p c) w) (data w)
      = {(r, None, db') | r db'. (r, db') \<in> redis_spec ws (data w)}"
    using ws(2) idle by (auto simp: redis_session_def session_word_def)
  show thesis
    by (rule conn_command_live [OF heap ws(1) len req, of w], unfold ses) (use fits that in auto)
qed

lemma pool_command_live:
  assumes inv: "pool_inv p" "pool_free p" and idle: "idle p w" and ws: "ws \<noteq> []" "\<not> session_word ws"
    and len: "0 \<le> len" and req: "createRedisCommand paras (nat len) = Inr (True, enc_request ws)"
    and fits: "\<forall>(r, _) \<in> redis_spec ws (data w). reply_fits r"
  obtains r p' w' where "pool_command net paras len COMMON_PARSER empty_reply p w
      = Inr (True, reply_of r, p', w')" "(r, data w') \<in> redis_spec ws (data w)"
    "pool_inv p'" "pool_free p'" "idle p' w'"
proof -
  obtain a p1 w1 where g: "getAvailableConnection net p w = Inr (a, p1, w1)" "pool_inv p1" "idle p1 w1"
    "calm w w1" "p_obj p1 = p_obj p" "a \<noteq> None"
    and a: "\<And>c. a = Some c \<Longrightarrow> tx (sock_of p c) w1 = None \<and> c \<in> set (m_connections p1)
       \<and> (\<exists>r. p_heap p1 c = Some r \<and> \<not> m_available r)"
    using getAvailableConnection_live [OF inv(1) idle] inv(2) by metis
  then obtain c where Some: "a = Some c" by blast
  have d1: "data w1 = data w" using g(4) by (simp add: calm_def)
  from a [OF Some] obtain k where c: "tx (sock_of p1 c) w1 = None" "c \<in> set (m_connections p1)"
    "p_heap p1 c = Some k" "\<not> m_available k" using g(5) by (auto simp: sock_of_def)
  obtain r w2 where r: "conn_command net p1 c paras len COMMON_PARSER empty_reply w1
      = Inr (True, reply_of r, w2)" "(r, data w2) \<in> redis_spec ws (data w)"
    "tx (sock_of p1 c) w2 = None" "others_idle tx (sock_of p1 c) w1 w2"
    using plain_command_live [OF c(3) ws len req _ c(1)] fits unfolding d1 by blast
  have "idle p1 w2" using g(3) r(4) c(3,4) by (rule idle_others)
  then have "releaseConnection net c p1 w2 = Inr (set_conn c (k\<lparr> m_available := True \<rparr>) p1, w2)"
    "pool_inv (set_conn c (k\<lparr> m_available := True \<rparr>) p1)"
    "pool_free (set_conn c (k\<lparr> m_available := True \<rparr>) p1)"
    "idle (set_conn c (k\<lparr> m_available := True \<rparr>) p1) w2"
    using release_live [OF g(2) c(2,3) _ r(3)] by blast+
  then show thesis using g r Some
    by (intro that [of r "set_conn c (k\<lparr> m_available := True \<rparr>) p1" w2]) (auto simp: pool_command_def)
qed

section \<open>Commands of the client\<close>

lemma handler_command_live:
  assumes ok: "cl_pools c a = Some p" "pool_inv p" "pool_free p" "idle p w"
    and small: "\<forall>v \<in> set (args k). arg_small v" and ws: "\<not> session_word (args k)"
    and fits: "\<forall>(r, _) \<in> redis_spec (args k) (data w). reply_fits r"
  obtains r p' w' where "handler_command net (build k) COMMON_PARSER empty_reply (Some a) c w
      = Inr (True, reply_of r, set_pool a p' c, w')" "(r, data w') \<in> redis_spec (args k) (data w)"
    "pool_inv p'" "pool_free p'" "idle p' w'"
proof -
  have "0 \<le> snd (build k)" using build_fits_int [OF small] by linarith
  then obtain r p' w' where "pool_command net (fst (build k)) (snd (build k)) COMMON_PARSER empty_reply p w
      = Inr (True, reply_of r, p', w')" "(r, data w') \<in> redis_spec (args k) (data w)"
    "pool_inv p'" "pool_free p'" "idle p' w'"
    using ok(2,3,4) args_count(2) ws build_request [OF small] fits
    by (metis (no_types, lifting) pool_command_live)
  then show thesis using ok(1) by (intro that) (auto simp: handler_command_def set_pool_def)
qed

lemma doRedisCommand_live:
  assumes ok: "client_ok tx c w"
    and small: "\<forall>v \<in> set (args k). arg_small v" and ws: "\<not> session_word (args k)"
    and fits: "\<forall>(r, _) \<in> redis_spec (args k) (data w). reply_fits r"
  obtains r c' w' where "(r, data w') \<in> redis_spec (args k) (data w)" "client_ok tx c' w'"
    "m_redisMode c' = m_redisMode c" "serving c' = serving c"
    "doRedisCommand net load key (build k) t out c w
       = res_bind (standalone_reply (m_redisMode c) load t (reply_of r) out) (\<lambda>(ok, out). Inr (ok, out, c', w'))"
proof -
  from ok obtain a p where a: "serving c = Some a" "cl_pools c a = Some p" "pool_inv p"
    "pool_free p" "idle p w" by (auto simp: client_ok_def)
  obtain r p' w' where r: "handler_command net (build k) COMMON_PARSER empty_reply (Some a) c w
      = Inr (True, reply_of r, set_pool a p' c, w')" "(r, data w') \<in> redis_spec (args k) (data w)"
    "pool_inv p'" "pool_free p'" "idle p' w'"
    using a(2-) small ws fits by (rule handler_command_live)
  have "doRedisCommand net load key (build k) t out c w
       = res_bind (standalone_reply (m_redisMode c) load t (reply_of r) out)
           (\<lambda>(ok, out). Inr (ok, out, set_pool a p' c, w'))"
    using a(1) r(1)
    by (auto simp: doRedisCommand_def serving_def doRedisCommandStandAlone_def set_pool_def
        doRedisCommandMaster_def master_node_def split: RedisMode.splits option.splits if_splits)
  moreover have "client_ok tx (set_pool a p' c) w'"
    using a(1) r(3-) unfolding client_ok_def by (auto simp: set_pool_def)
  ultimately show thesis using r(2) by (intro that) (auto simp: set_pool_def)
qed

text \<open>The operations, each as a step of the data.\<close>

definition ends :: "db \<Rightarrow> client \<Rightarrow> client \<Rightarrow> 'w \<Rightarrow> bool" where
  "ends db c c' w' \<longleftrightarrow> client_ok tx c' w' \<and> m_redisMode c' = m_redisMode c
     \<and> serving c' = serving c \<and> data w' = db"

lemma plain_live:
  assumes ok: "client_ok tx c w" and small: "\<forall>v \<in> set (args k). arg_small v"
    and ws: "\<not> session_word (args k)"
    and spec: "redis_spec (args k) (data w) = {(r, db)}" "reply_fits r"
    and res: "\<And>mode. standalone_reply mode no_load t (reply_of r) no_out = Inr (b, out)"
  obtains c' w' where "plain_command net key k t c w = Inr (b, c', w')" "ends db c c' w'"
proof -
  have fits: "\<forall>(r, _) \<in> redis_spec (args k) (data w). reply_fits r" using spec by simp
  obtain r' c' w' where h: "(r', data w') \<in> redis_spec (args k) (data w)" "client_ok tx c' w'"
    "m_redisMode c' = m_redisMode c" "serving c' = serving c"
    "doRedisCommand net no_load key (build k) t no_out c w
       = res_bind (standalone_reply (m_redisMode c) no_load t (reply_of r') no_out)
           (\<lambda>(ok, out). Inr (ok, out, c', w'))"
    by (rule doRedisCommand_live [OF ok small ws fits])
  then have "r' = r" "data w' = db" using spec(1) by auto
  with h res show thesis by (intro that) (auto simp: plain_command_def ends_def)
qed

lemma count_live:
  assumes ok: "client_ok tx c w" and small: "\<forall>v \<in> set (args k). arg_small v"
    and ws: "\<not> session_word (args k)"
    and spec: "redis_spec (args k) (data w) = {(RInt i, db)}" "in_int32 i"
    and t: "t \<in> {REDIS_COMMAND_SCARD, REDIS_COMMAND_SISMEMBER}"
  obtains c' w' where "count_command net key k t n c w = Inr (i, c', w')" "ends db c c' w'"
proof -
  have fits: "\<forall>(r, _) \<in> redis_spec (args k) (data w). reply_fits r"
    using spec by (simp add: reply_fits_int)
  obtain r' c' w' where h: "(r', data w') \<in> redis_spec (args k) (data w)" "client_ok tx c' w'"
    "m_redisMode c' = m_redisMode c" "serving c' = serving c"
    "doRedisCommand net no_load key (build k) t (no_out\<lparr> o_count := Some n \<rparr>) c w
       = res_bind (standalone_reply (m_redisMode c) no_load t (reply_of r') (no_out\<lparr> o_count := Some n \<rparr>))
           (\<lambda>(ok, out). Inr (ok, out, c', w'))"
    by (rule doRedisCommand_live [OF ok small ws fits])
  then have "r' = RInt i" "ends db c c' w'" using spec(1) by (auto simp: ends_def)
  moreover have "standalone_reply mode no_load t (reply_of (RInt i)) (no_out\<lparr> o_count := Some n \<rparr>)
      = Inr (True, no_out\<lparr> o_count := Some i \<rparr>)" for mode
    using t by (auto simp: standalone_reply_def standalone_switch_def count_branch_def
        parseFindReply_def checkIfNeedRedirect_def empty_reply_def)
  ultimately show thesis using h(5) by (intro that) (auto simp: count_command_def)
qed

lemmas reply_defs = standalone_reply_def standalone_switch_def count_branch_def int_branch_def is_int_def
  parseFindReply_def parseSetSerialReply_def checkIfNeedRedirect_def empty_reply_def

lemma setSerial_live:
  assumes "client_ok tx c w" "arg_small key" "arg_small v" "saved save x = Inr v"
  obtains c' w' where "setSerial net save key x c w = Inr (True, c', w')"
    "ends ((data w)(key \<mapsto> RStr v)) c c' w'"
  by (rule plain_live [OF assms(1), of "CSet key v" "RStatus ''OK''" "(data w)(key \<mapsto> RStr v)"
        REDIS_COMMAND_SET True no_out key])
    (use assms that in \<open>auto simp: setSerial_def redis_spec_def session_word_def arg_small_def reply_defs
      line_ok_def buf_size_def intro!: reply_fits_status\<close>)

lemma del_live:
  assumes "client_ok tx c w" "arg_small key"
  obtains c' w' where "del net key c w = Inr (key \<in> dom (data w), c', w')"
    "ends ((data w)(key := None)) c c' w'"
  by (rule plain_live [OF assms(1), of "CDel key" "RInt (if key \<in> dom (data w) then 1 else 0)"
        "(data w)(key := None)" REDIS_COMMAND_DEL "key \<in> dom (data w)" no_out key])
    (use assms that in \<open>auto simp: del_def redis_spec_def session_word_def arg_small_def reply_defs
      in_int32_def int32_min_def int32_max_def intro!: reply_fits_int\<close>)

lemma sadd_live:
  assumes "client_ok tx c w" "arg_small key" "arg_small m" "members_of (data w) key = Some S"
  obtains c' w' where "sadd net key m c w = Inr (True, c', w')"
    "ends (put_set key (insert m S) (data w)) c c' w'"
  by (rule plain_live [OF assms(1), of "CSadd key m" "RInt (if m \<in> S then 0 else 1)"
        "put_set key (insert m S) (data w)" REDIS_COMMAND_SADD True no_out key])
    (use assms that in \<open>auto simp: sadd_def redis_spec_def on_set_def session_word_def arg_small_def
      reply_defs in_int32_def int32_min_def int32_max_def intro!: reply_fits_int\<close>)

lemma srem_live:
  assumes "client_ok tx c w" "arg_small key" "arg_small m" "members_of (data w) key = Some S"
  obtains c' w' where "srem net key m c w = Inr (True, c', w')"
    "ends (put_set key (S - {m}) (data w)) c c' w'"
  by (rule plain_live [OF assms(1), of "CSrem key m" "RInt (if m \<in> S then 1 else 0)"
        "put_set key (S - {m}) (data w)" REDIS_COMMAND_SREM True no_out key])
    (use assms that in \<open>auto simp: srem_def redis_spec_def on_set_def session_word_def arg_small_def
      reply_defs in_int32_def int32_min_def int32_max_def intro!: reply_fits_int\<close>)

lemma scard_live:
  assumes "client_ok tx c w" "arg_small key" "members_of (data w) key = Some S" "int (card S) \<le> int32_max"
  obtains c' w' where "scard net key c w = Inr (int (card S), c', w')" "ends (data w) c c' w'"
  by (rule count_live [OF assms(1), of "CScard key" "int (card S)" "data w" REDIS_COMMAND_SCARD key 0])
    (use assms that in \<open>auto simp: scard_def redis_spec_def on_set_def session_word_def arg_small_def
      in_int32_def int32_min_def\<close>)

lemma sismember_live:
  assumes "client_ok tx c w" "arg_small key" "arg_small m" "members_of (data w) key = Some S"
  obtains c' w' where "sismember net key m c w = Inr (m \<in> S, c', w')" "ends (data w) c c' w'"
  by (rule count_live [OF assms(1), of "CSismember key m" "if m \<in> S then 1 else 0" "data w"
        REDIS_COMMAND_SISMEMBER key "-1"])
    (use assms that in \<open>auto simp: sismember_def redis_spec_def on_set_def session_word_def arg_small_def
      in_int32_def int32_min_def int32_max_def split: if_splits\<close>)

lemma smembers_live:
  assumes ok: "client_ok tx c w" and key: "arg_small key" and S: "members_of (data w) key = Some S" "small_set S"
  obtains ms c' w' where "smembers net key xs c w = Inr (True, xs @ ms, c', w')" "set ms = S"
    "distinct ms" "ends (data w) c c' w'"
proof -
  have spec: "redis_spec (args (CSmembers key)) (data w)
      = {(RArray (map (\<lambda>m. EBulk (Some m)) ms), data w) | ms. set ms = S \<and> distinct ms}"
    using S(1) by (simp add: redis_spec_def on_set_def)
  have fits: "\<forall>(r, _) \<in> redis_spec (args (CSmembers key)) (data w). reply_fits r"
    unfolding spec using S(2) by (auto intro: reply_fits_members)
  have small: "\<forall>v \<in> set (args (CSmembers key)). arg_small v" "\<not> session_word (args (CSmembers key))"
    using key by (auto simp: arg_small_def session_word_def)
  let ?out = "no_out\<lparr> o_members := xs \<rparr>"
  obtain r c' w' where h: "(r, data w') \<in> redis_spec (args (CSmembers key)) (data w)" "client_ok tx c' w'"
    "m_redisMode c' = m_redisMode c" "serving c' = serving c"
    "doRedisCommand net no_load key (build (CSmembers key)) REDIS_COMMAND_SMEMBERS ?out c w
       = res_bind (standalone_reply (m_redisMode c) no_load REDIS_COMMAND_SMEMBERS (reply_of r) ?out)
           (\<lambda>(ok, out). Inr (ok, out, c', w'))"
    by (rule doRedisCommand_live [OF ok small fits])
  then obtain ms where ms: "r = RArray (map (\<lambda>m. EBulk (Some m)) ms)" "set ms = S" "distinct ms"
    "data w' = data w" unfolding spec by blast
  have "map cstr ms = ms" using S(2) ms(2) by (auto simp: small_set_def str_ok_def intro!: map_idI cstr_id)
  then have "string_elems (map (\<lambda>m. elem_info (EBulk (Some m))) ms) = ms"
    by (simp add: string_elems_def filter_map comp_def)
  then have "standalone_reply (m_redisMode c) no_load REDIS_COMMAND_SMEMBERS (reply_of r) ?out
      = Inr (True, ?out\<lparr> o_members := xs @ ms \<rparr>)"
    by (simp add: ms(1) standalone_reply_def standalone_switch_def parseGetKeysReply_def comp_def)
  then show thesis using h ms by (intro that) (auto simp: smembers_def members_command_def ends_def)
qed

lemma getSerial_live:
  assumes ok: "client_ok tx c w" and key: "arg_small key"
    and v: "data w key = Some (RStr v)" "length v < 2 ^ 29"
    and load: "load sr (DBInStream (v @ [NUL]) (length v)) = Inr (sr', inp)" "m_loadError inp = 0"
  obtains c' w' where "getSerial net load key sr c w = Inr (True, sr', c', w')" "ends (data w) c c' w'"
proof -
  let ?out = "\<lparr> o_members = [], o_serial = Some sr, o_count = None \<rparr>"
  have spec: "redis_spec (args (CGet key)) (data w) = {(RBulk (Some v), data w)}"
    using v(1) by (simp add: redis_spec_def)
  have small: "\<forall>v \<in> set (args (CGet key)). arg_small v" "\<not> session_word (args (CGet key))"
    "\<forall>(r, _) \<in> redis_spec (args (CGet key)) (data w). reply_fits r"
    using key v(2) reply_fits_bulk unfolding spec by (auto simp: arg_small_def session_word_def)
  obtain r c' w' where h: "(r, data w') \<in> redis_spec (args (CGet key)) (data w)" "client_ok tx c' w'"
    "m_redisMode c' = m_redisMode c" "serving c' = serving c"
    "doRedisCommand net load key (build (CGet key)) REDIS_COMMAND_GET ?out c w
       = res_bind (standalone_reply (m_redisMode c) load REDIS_COMMAND_GET (reply_of r) ?out)
           (\<lambda>(ok, out). Inr (ok, out, c', w'))"
    by (rule doRedisCommand_live [OF ok small])
  have "standalone_reply (m_redisMode c) load REDIS_COMMAND_GET (reply_of (RBulk (Some v))) ?out
      = Inr (True, ?out\<lparr> o_serial := Some sr' \<rparr>)"
    using load by (simp add: standalone_reply_def standalone_switch_def get_branch_def
        parseGetSerialReply_def checkIfNeedRedirect_def)
  then show thesis using h unfolding spec by (intro that) (auto simp: getSerial_def ends_def)
qed

text \<open>SADD on a key that holds a string.\<close>

lemma sadd_wrong_type_live:
  assumes ok: "client_ok tx c w" and small: "arg_small key" "arg_small m"
    and wt: "members_of (data w) key = None"
  obtains c' w' where "sadd net key m c w = Inr (False, c', w')" "ends (data w) c c' w'"
proof -
  let ?k = "CSadd key m"
  have spec: "redis_spec (args ?k) (data w) = wrong_type (data w)"
    using wt by (simp add: redis_spec_def on_set_def)
  have pre: "\<forall>v \<in> set (args ?k). arg_small v" "\<not> session_word (args ?k)"
    "\<forall>(r, _) \<in> redis_spec (args ?k) (data w). reply_fits r"
    unfolding spec using small
    by (auto simp: arg_small_def session_word_def wrong_type_def reply_fits_def text_ok_def crlf_def buf_size_def)
  obtain r c' w' where h: "(r, data w') \<in> redis_spec (args ?k) (data w)" "client_ok tx c' w'"
    "m_redisMode c' = m_redisMode c" "serving c' = serving c"
    "doRedisCommand net no_load key (build ?k) REDIS_COMMAND_SADD no_out c w
       = res_bind (standalone_reply (m_redisMode c) no_load REDIS_COMMAND_SADD (reply_of r) no_out)
           (\<lambda>(ok, out). Inr (ok, out, c', w'))"
    by (rule doRedisCommand_live [OF ok pre])
  then obtain l where l: "r = RError l" "\<not> starts_moved l" "data w' = data w"
    unfolding spec by (auto simp: wrong_type_def)
  have "standalone_reply (m_redisMode c) no_load REDIS_COMMAND_SADD (reply_of r) no_out = Inr (False, no_out)"
    using l(2) by (simp add: l(1) reply_defs)
  then show thesis using h l(3) by (intro that) (auto simp: sadd_def plain_command_def ends_def)
qed

section \<open>Transactions\<close>

text \<open>The client holds the connection \<open>k\<close> and its session has the queue \<open>q\<close>.\<close>

definition holds :: "nat \<Rightarrow> bytes list list option \<Rightarrow> client \<Rightarrow> 'w \<Rightarrow> bool" where
  "holds k q c w \<longleftrightarrow> m_redisMode c = STAND_ALONE_OR_PROXY_MODE \<and>
     (\<exists>a p r. serving c = Some a \<and> cl_pools c a = Some p \<and> pool_inv p \<and> idle p w
        \<and> k \<in> set (m_connections p) \<and> p_heap p k = Some r \<and> \<not> m_available r
        \<and> tx (sock_of p k) w = q)"

lemma serving_standalone:
  "m_redisMode c = STAND_ALONE_OR_PROXY_MODE \<Longrightarrow> serving c = px_clusterHandler (m_redisProxy c)"
  by (simp add: serving_def)

lemma PrepareTransaction_live:
  assumes ok: "client_ok tx c w" and mode: "m_redisMode c = STAND_ALONE_OR_PROXY_MODE"
  obtains k c' w' where "PrepareTransaction net c w = Inr (Some k, c', w')" "holds k None c' w'"
    "data w' = data w" "serving c' = serving c"
proof -
  from ok obtain a p where a: "serving c = Some a" "cl_pools c a = Some p" "pool_inv p"
    "pool_free p" "idle p w" by (auto simp: client_ok_def)
  obtain k p1 w1 where g: "getAvailableConnection net p w = Inr (Some k, p1, w1)" "pool_inv p1" "idle p1 w1"
    "calm w w1" "p_obj p1 = p_obj p"
    and k: "tx (sock_of p k) w1 = None \<and> k \<in> set (m_connections p1)
       \<and> (\<exists>r. p_heap p1 k = Some r \<and> \<not> m_available r)"
    using getAvailableConnection_live [OF a(3,5)] a(4) by (metis not_None_eq)
  then obtain r where r: "p_heap p1 k = Some r" "\<not> m_available r" by blast
  let ?p = "set_conn k (r\<lparr> m_canRelease := False \<rparr>) p1"
  have "PrepareTransaction net c w = Inr (Some k, set_pool a ?p c, w1)"
    using mode a(1,2) g(1) r(1) by (simp add: PrepareTransaction_def proxy_pool_def serving_standalone)
  moreover have "pool_inv ?p" using g(2) r by (intro pool_inv_set_conn) auto
  moreover have "idle ?p w1" using g(3) r by (auto simp: idle_def sock_of_def)
  ultimately show thesis
    using mode a(1) k r g(4,5)
    by (intro that [of k "set_pool a ?p c" w1]) (auto simp: holds_def set_pool_def sock_of_def calm_def)
qed

lemma transaction_live:
  assumes hold: "holds k q c w" and small: "\<forall>v \<in> set (args cm). arg_small v"
    and fits: "\<forall>(r, _) \<in> redis_session (args cm) q (data w). reply_fits r"
  obtains r q' c' w' where "doTransactionCommandInConnection net (build cm) t (Some k) c w
      = Inr (transaction_reply STAND_ALONE_OR_PROXY_MODE t (reply_of r), c', w')"
    "(r, q', data w') \<in> redis_session (args cm) q (data w)" "holds k q' c' w'" "serving c' = serving c"
proof -
  from hold obtain a p l where a: "m_redisMode c = STAND_ALONE_OR_PROXY_MODE" "serving c = Some a"
    "cl_pools c a = Some p" "pool_inv p" "idle p w" "k \<in> set (m_connections p)" "p_heap p k = Some l"
    "\<not> m_available l" "tx (sock_of p k) w = q" by (auto simp: holds_def)
  have "0 \<le> snd (build cm)" using build_fits_int [OF small] by linarith
  then obtain r w' where r: "conn_command net p k (fst (build cm)) (snd (build cm)) COMMON_PARSER
      empty_reply w = Inr (True, reply_of r, w')"
    "(r, tx (sock_of p k) w', data w') \<in> redis_session (args cm) q (data w)"
    "others_idle tx (sock_of p k) w w'"
    using conn_command_live [OF a(7) args_count(2) _ build_request [OF small], of w] fits
    unfolding a(9) by blast
  have "idle p w'" using a(5) r(3) a(7,8) by (rule idle_others)
  then have "holds k (tx (sock_of p k) w') (set_pool a p c) w'"
    using a by (auto simp: holds_def set_pool_def)
  then show thesis using a r
    by (intro that [of r "set_pool a p c" w' "tx (sock_of p k) w'"])
      (auto simp: doTransactionCommandInConnection_def serving_standalone proxy_pool_def
        one_conn_command_def)
qed

lemma status_live:
  assumes "holds k q c w" "\<forall>v \<in> set (args cm). arg_small v"
    and "redis_session (args cm) q (data w) = {(RStatus l, q', data w)}" "line_ok l" "length l < buf_size"
    and "t \<in> {REDIS_COMMAND_SET, REDIS_COMMAND_DEL, REDIS_COMMAND_SADD, REDIS_COMMAND_SREM,
      REDIS_COMMAND_MULTI}"
  obtains c' w' where "doTransactionCommandInConnection net (build cm) t (Some k) c w = Inr (True, c', w')"
    "holds k q' c' w'" "data w' = data w" "serving c' = serving c"
proof -
  have tr: "transaction_reply STAND_ALONE_OR_PROXY_MODE t (reply_of (RStatus l))"
    using assms(6) by (auto simp: transaction_reply_def parseQueuedResponseReply_def
        parseStatusResponseReply_def checkIfNeedRedirect_def)
  have "\<forall>(r, _) \<in> redis_session (args cm) q (data w). reply_fits r"
    using assms(3-5) reply_fits_status by simp
  then obtain r q1 c' w' where
    "doTransactionCommandInConnection net (build cm) t (Some k) c w
      = Inr (transaction_reply STAND_ALONE_OR_PROXY_MODE t (reply_of r), c', w')"
    "(r, q1, data w') \<in> redis_session (args cm) q (data w)" "holds k q1 c' w'" "serving c' = serving c"
    by (rule transaction_live [OF assms(1,2)])
  moreover then have "r = RStatus l" "q1 = q'" "data w' = data w" unfolding assms(3) by auto
  ultimately show thesis using tr that [of c' w'] by simp
qed

lemma StartTransaction_live:
  assumes "holds k None c w"
  obtains c' w' where "StartTransaction net (Some k) c w = Inr (True, c', w')" "holds k (Some []) c' w'"
    "data w' = data w" "serving c' = serving c"
proof -
  obtain c' w' where
    "doTransactionCommandInConnection net (build CMulti) REDIS_COMMAND_MULTI (Some k) c w = Inr (True, c', w')"
    "holds k (Some []) c' w'" "data w' = data w" "serving c' = serving c"
    by (rule status_live [OF assms, of CMulti "''OK''" "Some []" REDIS_COMMAND_MULTI])
      (simp_all add: redis_session_def arg_small_def line_ok_def buf_size_def)
  moreover have "m_redisMode c = STAND_ALONE_OR_PROXY_MODE" using assms by (simp add: holds_def)
  ultimately show thesis
    by (intro that [of c' w']) (simp_all add: StartTransaction_def standalone_only_def)
qed

lemma queued_live:
  assumes "holds k (Some q) c w" "\<forall>v \<in> set (args cm). arg_small v" "queueable (args cm)"
    and "t \<in> {REDIS_COMMAND_SET, REDIS_COMMAND_DEL, REDIS_COMMAND_SADD, REDIS_COMMAND_SREM}"
  obtains c' w' where "doTransactionCommandInConnection net (build cm) t (Some k) c w = Inr (True, c', w')"
    "holds k (Some (q @ [args cm])) c' w'" "data w' = data w" "serving c' = serving c"
proof (rule status_live [OF assms(1,2), of "''QUEUED''" "Some (q @ [args cm])" t])
  have "args cm \<noteq> [''exec'']" "args cm \<noteq> [''discard'']" using assms(3) by (auto simp: queueable_def)
  then show "redis_session (args cm) (Some q) (data w) = {(RStatus ''QUEUED'', Some (q @ [args cm]), data w)}"
    using assms(3) by (simp add: redis_session_def)
qed (use assms(4) that in \<open>auto simp: line_ok_def buf_size_def\<close>)

lemma ExecTransaction_live:
  assumes hold: "holds k (Some q) c w" and q: "list_all queueable q"
    and fits: "\<forall>rs db. run_queue q (data w) rs db \<longrightarrow> reply_fits (RArray (map exec_elem rs))"
  obtains rs c' w' where "ExecTransaction net (Some k) c w
      = Inr (parseExecReply (reply_of (RArray (map exec_elem rs))), c', w')"
    "run_queue q (data w) rs (data w')" "holds k None c' w'" "serving c' = serving c"
proof -
  have ses: "redis_session (args CExec) (Some q) (data w)
      = {(RArray (map exec_elem rs), None, db') | rs db'. run_queue q (data w) rs db'}"
    using q by (simp add: redis_session_def)
  have f: "\<forall>(r, _) \<in> redis_session (args CExec) (Some q) (data w). reply_fits r"
    unfolding ses using fits by auto
  have small: "\<forall>v \<in> set (args CExec). arg_small v" by (simp add: arg_small_def)
  obtain r q' c' w' where h:
    "doTransactionCommandInConnection net (build CExec) REDIS_COMMAND_EXEC (Some k) c w
      = Inr (transaction_reply STAND_ALONE_OR_PROXY_MODE REDIS_COMMAND_EXEC (reply_of r), c', w')"
    "(r, q', data w') \<in> redis_session (args CExec) (Some q) (data w)" "holds k q' c' w'"
    "serving c' = serving c"
    by (rule transaction_live [OF hold small f])
  have "m_redisMode c = STAND_ALONE_OR_PROXY_MODE" using hold by (simp add: holds_def)
  moreover obtain rs where "r = RArray (map exec_elem rs)" "q' = None" "run_queue q (data w) rs (data w')"
    using h(2) unfolding ses by blast
  ultimately show thesis using h
    by (intro that [of rs c' w']) (simp_all add: ExecTransaction_def standalone_only_def transaction_reply_def)
qed

lemma FinishTransaction_live:
  assumes "holds k None c w"
  obtains c' where "FinishTransaction net (Some k) c w = Inr (True, c', w)" "client_ok tx c' w"
    "m_redisMode c' = m_redisMode c" "serving c' = serving c"
proof -
  from assms obtain a p l where a: "m_redisMode c = STAND_ALONE_OR_PROXY_MODE" "serving c = Some a"
    "cl_pools c a = Some p" "pool_inv p" "idle p w" "k \<in> set (m_connections p)" "p_heap p k = Some l"
    "tx (sock_of p k) w = None" by (auto simp: holds_def)
  let ?p = "set_conn k (l\<lparr> m_available := True \<rparr>) p"
  have r: "releaseConnection net k p w = Inr (?p, w)" "pool_inv ?p" "pool_free ?p" "idle ?p w"
    using release_live [OF a(4,6,7,5,8)] by auto
  then have "client_ok tx (set_pool a ?p c) w"
    using a(2) unfolding client_ok_def by (auto simp: set_pool_def)
  then show thesis using a r(1)
    by (intro that [of "set_pool a ?p c"])
      (auto simp: FinishTransaction_def standalone_only_def serving_standalone proxy_pool_def set_pool_def)
qed

section \<open>A connection that goes back inside a transaction\<close>

lemma free_stale_tmp_session:
  "free_stale_tmp net now cs p w = Inr (ks, p', w') \<Longrightarrow> s \<notin> sock_of p ` set cs \<Longrightarrow> tx s w' = tx s w"
proof (induction cs arbitrary: p w ks p' w')
  case (Cons c cs)
  have s: "s \<noteq> sock_of p c" "s \<notin> sock_of q ` set cs" if "p_obj q = p_obj p" for q
    using Cons.prems(2) that by (auto simp: sock_of_def)
  show ?case
  proof (cases "stale now (the (p_heap p c))")
    case True
    let ?q = "p\<lparr> p_heap := (p_heap p)(c := None) \<rparr>"
    obtain r where r: "p_heap p c = Some r" using Cons.prems(1) by (auto simp: deref_def split: option.splits)
    have "free_stale_tmp net now cs ?q (net_close net (sock_of p c) w) = Inr (ks, p', w')"
      using Cons.prems(1) True r by (simp add: delete_conn_def)
    then have "tx s w' = tx s (net_close net (sock_of p c) w)"
      using Cons.IH s(2) [of ?q] by simp
    then show ?thesis using closes(3) [of "sock_of p c" w] s(1) [of p] unfolding others_same_def by metis
  next
    case False
    then show ?thesis using Cons.prems(1) Cons.IH s(2) [of p]
      by (auto simp: res_bind_Inr_iff deref_def split: option.splits if_splits)
  qed
qed simp

lemma getAvailableConnection_single:
  assumes inv: "pool_inv p" and k: "m_connections p = [k]" "p_heap p k = Some r" "m_available r"
  obtains p' w' where "getAvailableConnection net p w = Inr (Some k, p', w')" "pool_inv p'"
    "p_heap p' k = Some (r\<lparr> m_available := False, m_connectTime := net_time net w \<rparr>)"
    "m_connections p' = [k]" "tx (sock_of p k) w' = tx (sock_of p k) w" "data w' = data w" "p_obj p' = p_obj p"
proof -
  let ?now = "net_time net w"
  obtain q w1 where q: "pool_inv q" "m_connections q = m_connections p" "p_obj q = p_obj p"
    and hq: "\<forall>d \<in> set (m_connections p). p_heap q d = p_heap p d"
    and tmp: "\<exists>ks p1. free_stale_tmp net ?now (m_tmpConnections p) p w = Inr (ks, p1, w1)"
    and step: "getAvailableConnection net p w =
     res_bind (find_conn m_available q (m_connections q)) (\<lambda>a.
     case a of
       Some i \<Rightarrow>
         res_bind (deref q (m_connections q ! i)) (\<lambda>r. Inr (Some (m_connections q ! i),
           set_conn (m_connections q ! i) (r\<lparr> m_available := False, m_connectTime := ?now \<rparr>) q, w1))
     | None \<Rightarrow>
         res_bind (find_conn (\<lambda>r. m_canRelease r \<and> stale ?now r) q (m_connections q)) (\<lambda>b.
         case b of Some i \<Rightarrow> recreate net ?now i q w1 | None \<Rightarrow> Inr (None, q, w1)))"
    using inv by (rule getAvailableConnection_step [of p net w]) blast
  have h: "p_heap q k = Some r" using hq k by simp
  have "sock_of p k \<notin> sock_of p ` set (m_tmpConnections p)"
    using inv k(1) by (auto simp: pool_inv_def sock_of_def)
  then have t: "tx (sock_of p k) w1 = tx (sock_of p k) w" using tmp free_stale_tmp_session by blast
  have d: "data w1 = data w" using tmp free_stale_tmp_calm by (auto simp: calm_def)
  have "pool_inv (set_conn k (r\<lparr> m_available := False, m_connectTime := ?now \<rparr>) q)"
    using q(1) h by (intro pool_inv_set_conn) auto
  then show thesis
    using step h k q t d
    by (intro that [of "set_conn k (r\<lparr> m_available := False, m_connectTime := ?now \<rparr>) q" w1])
      (simp_all add: deref_def)
qed

lemma finish_inside_transaction:
  assumes hold: "holds k (Some q) c w" and one: "serving c = Some a" "cl_pools c a = Some p" "m_connections p = [k]"
    and small: "arg_small key" "arg_small m"
  shows "\<exists>c1 c2 w2. FinishTransaction net (Some k) c w = Inr (True, c1, w)
     \<and> sadd net key m c1 w = Inr (False, c2, w2) \<and> data w2 = data w"
proof -
  from hold one obtain r where h: "m_redisMode c = STAND_ALONE_OR_PROXY_MODE" "pool_inv p"
    "p_heap p k = Some r" "tx (sock_of p k) w = Some q" by (auto simp: holds_def)
  let ?r = "r\<lparr> m_available := True \<rparr>" and ?k = "CSadd key m"
  let ?p = "set_conn k ?r p"
  have k: "k \<in> set (m_connections p)" using one(3) by simp
  have fin: "FinishTransaction net (Some k) c w = Inr (True, set_pool a ?p c, w)"
    using h one k by (simp add: FinishTransaction_def standalone_only_def serving_standalone proxy_pool_def
        releaseConnection_def)
  have p: "pool_inv ?p" using h(2,3) by (intro pool_inv_set_conn) auto
  obtain p1 w1 where g: "getAvailableConnection net ?p w = Inr (Some k, p1, w1)" "pool_inv p1"
    "p_heap p1 k = Some (?r\<lparr> m_available := False, m_connectTime := net_time net w \<rparr>)" "m_connections p1 = [k]"
    "tx (sock_of ?p k) w1 = tx (sock_of ?p k) w" "data w1 = data w" "p_obj p1 = p_obj ?p"
    by (rule getAvailableConnection_single [OF p, of k ?r w]) (use one(3) in simp_all)
  have s: "tx (sock_of p1 k) w1 = Some q" using g(5,7) h(4) by (simp add: sock_of_def)
  have small2: "\<forall>v \<in> set (args ?k). arg_small v" using small by (simp add: arg_small_def)
  have ses: "redis_session (args ?k) (Some q) (data w) = {(RStatus ''QUEUED'', Some (q @ [args ?k]), data w)}"
    by (simp add: redis_session_def queueable_def)
  have "0 \<le> snd (build ?k)" using build_fits_int [OF small2] by linarith
  moreover have "\<forall>(r, _) \<in> redis_session (args ?k) (tx (sock_of p1 k) w1) (data w1). reply_fits r"
    unfolding s g(6) ses by (simp add: reply_fits_status line_ok_def buf_size_def)
  ultimately obtain r2 w2 where r2: "conn_command net p1 k (fst (build ?k)) (snd (build ?k)) COMMON_PARSER empty_reply w1
      = Inr (True, reply_of r2, w2)"
    "(r2, tx (sock_of p1 k) w2, data w2) \<in> redis_session (args ?k) (tx (sock_of p1 k) w1) (data w1)"
    using conn_command_live [OF g(3) args_count(2) _ build_request [OF small2]] by blast
  have q2: "r2 = RStatus ''QUEUED''" "data w2 = data w" using r2(2) unfolding s g(6) ses by auto
  obtain p2 where "releaseConnection net k p1 w2 = Inr (p2, w2)"
    using g(3,4) by (simp add: releaseConnection_def)
  then have "sadd net key m (set_pool a ?p c) w = Inr (False, set_pool a p2 (set_pool a ?p c), w2)"
    using h(1) one(1) g(1) r2(1)
    by (simp add: sadd_def plain_command_def doRedisCommand_def doRedisCommandStandAlone_def handler_command_def
        pool_command_def serving_standalone set_pool_def q2 reply_defs)
  then show ?thesis using fin q2(2) by blast
qed

end

end
