(* ===== verification/Ref_Server.thy ===== *)
theory Ref_Server
  imports Redis_Server
begin

text \<open>
  A reference server: a program that meets the contract \<open>redis_net\<close>, so that what is
  proved about every such network is proved about one that exists.  It decodes the
  request, runs it on its data, and sends the reply in reads of at most the size of
  the client's buffer.
\<close>

section \<open>Data and commands\<close>

datatype lval = LStr bytes | LSet "string list"

type_synonym ldb = "string \<rightharpoonup> lval"

fun abs_val :: "lval \<Rightarrow> rval" where
  "abs_val (LStr v) = RStr v"
| "abs_val (LSet xs) = RSet (set xs)"

definition abs_db :: "ldb \<Rightarrow> db" where
  "abs_db m k = map_option abs_val (m k)"

definition list_of :: "ldb \<Rightarrow> string \<Rightarrow> string list option" where
  "list_of m k = (case m k of None \<Rightarrow> Some [] | Some (LSet xs) \<Rightarrow> Some xs | Some (LStr _) \<Rightarrow> None)"

definition put_list :: "string \<Rightarrow> string list \<Rightarrow> ldb \<Rightarrow> ldb" where
  "put_list k xs m = m(k := if xs = [] then None else Some (LSet xs))"

definition err :: resp where
  "err = RError ''ERR''"

definition on_list :: "ldb \<Rightarrow> string \<Rightarrow> (string list \<Rightarrow> resp \<times> ldb) \<Rightarrow> resp \<times> ldb" where
  "on_list m k f = (case list_of m k of None \<Rightarrow> (err, m) | Some xs \<Rightarrow> f xs)"

definition ref_exec :: "bytes list \<Rightarrow> ldb \<Rightarrow> resp \<times> ldb" where
  "ref_exec ws m =
     (case ws of
        [c, k] \<Rightarrow>
          if c = ''get'' then
            (case m k of
               None \<Rightarrow> (RBulk None, m) | Some (LStr v) \<Rightarrow> (RBulk (Some v), m) | Some (LSet _) \<Rightarrow> (err, m))
          else if c = ''exists'' then (RInt (if m k = None then 0 else 1), m)
          else if c = ''del'' then (RInt (if m k = None then 0 else 1), m(k := None))
          else if c = ''scard'' then on_list m k (\<lambda>xs. (RInt (int (length (remdups xs))), m))
          else if c = ''smembers'' then
            on_list m k (\<lambda>xs. (RArray (map (\<lambda>x. EBulk (Some x)) (remdups xs)), m))
          else (err, m)
      | [c, k, v] \<Rightarrow>
          if c = ''set'' then (RStatus ''OK'', m(k \<mapsto> LStr v))
          else if c = ''sadd'' then
            on_list m k (\<lambda>xs. (RInt (if v \<in> set xs then 0 else 1), put_list k (List.insert v xs) m))
          else if c = ''srem'' then
            on_list m k (\<lambda>xs. (RInt (if v \<in> set xs then 1 else 0), put_list k (removeAll v xs) m))
          else if c = ''sismember'' then
            on_list m k (\<lambda>xs. (RInt (if v \<in> set xs then 1 else 0), m))
          else (err, m)
      | _ \<Rightarrow> (err, m))"

fun ref_run :: "bytes list list \<Rightarrow> ldb \<Rightarrow> resp list \<times> ldb" where
  "ref_run [] m = ([], m)"
| "ref_run (ws # q) m =
     (let (r, m) = ref_exec ws m; (rs, m) = ref_run q m in (r # rs, m))"

definition ref_session ::
  "bytes list \<Rightarrow> bytes list list option \<Rightarrow> ldb \<Rightarrow> resp \<times> bytes list list option \<times> ldb" where
  "ref_session ws t m =
     (case t of
        None \<Rightarrow>
          if ws = [''multi''] then (RStatus ''OK'', Some [], m)
          else if ws = [''exec''] \<or> ws = [''discard''] then (err, None, m)
          else (let (r, m) = ref_exec ws m in (r, None, m))
      | Some q \<Rightarrow>
          if ws = [''exec''] then (let (rs, m) = ref_run q m in (RArray (map exec_elem rs), None, m))
          else if ws = [''discard''] then (RStatus ''OK'', None, m)
          else (RStatus ''QUEUED'', Some (q @ [ws]), m))"

section \<open>The network\<close>

function cut :: "bytes \<Rightarrow> bytes list" where
  "cut s = (if length s < REDIS_READ_BUFF_SIZE then [s]
            else take (REDIS_READ_BUFF_SIZE - 1) s # cut (drop (REDIS_READ_BUFF_SIZE - 1) s))"
  by pat_completeness auto

termination cut
  by (relation "measure length") (auto simp: REDIS_READ_BUFF_SIZE_def)

declare cut.simps [simp del]

record ref_world =
  w_time :: "32 word"
  w_db :: ldb
  w_tx :: "sock \<Rightarrow> bytes list list option"
  w_out :: "sock \<Rightarrow> bytes list"

definition ref_send :: "sock \<Rightarrow> bytes \<Rightarrow> ref_world \<Rightarrow> bool \<times> ref_world" where
  "ref_send s b w =
     (case dec_request b of
        None \<Rightarrow> (True, w)
      | Some ws \<Rightarrow>
          (let (r, t, m) = ref_session ws (w_tx w s) (w_db w) in
           (True, w\<lparr> w_db := m, w_tx := (w_tx w)(s := t), w_out := (w_out w)(s := cut (enc_resp r)) \<rparr>)))"

definition ref_net :: "ref_world net" where
  "ref_net = \<lparr> net_time = w_time, net_alive = (\<lambda>_ _. True),
     net_connect = (\<lambda>s _ _ w. (True, w\<lparr> w_tx := (w_tx w)(s := None) \<rparr>)),
     net_send = ref_send,
     net_reads = (\<lambda>s w. (map Some (w_out w s), w\<lparr> w_out := (w_out w)(s := []) \<rparr>)),
     net_close = (\<lambda>s w. w\<lparr> w_tx := (w_tx w)(s := None) \<rparr>) \<rparr>"

section \<open>It meets the contract\<close>

lemma err_spec: "(err, db) \<in> wrong_type db"
  by (simp add: err_def wrong_type_def text_ok_def line_ok_def buf_size_def starts_moved_def cstr_def
      lower_def)

lemma members_abs: "members_of (abs_db m) k = map_option set (list_of m k)"
  by (simp add: members_of_def abs_db_def list_of_def split: option.splits lval.splits)

lemma abs_upd [simp]:
  "abs_db (m(k \<mapsto> v)) = (abs_db m)(k \<mapsto> abs_val v)" "abs_db (m(k := None)) = (abs_db m)(k := None)"
  by (auto simp: abs_db_def)

lemma abs_put_list: "abs_db (put_list k xs m) = put_set k (set xs) (abs_db m)"
  by (simp add: put_list_def put_set_def)

text \<open>An outcome of the reference server is one that is promised.\<close>

definition meets :: "resp \<times> ldb \<Rightarrow> (resp \<times> db) set \<Rightarrow> bool" where
  "meets x S \<longleftrightarrow> (fst x, abs_db (snd x)) \<in> S"

lemma meets_if: "(b \<Longrightarrow> meets x S) \<Longrightarrow> (\<not> b \<Longrightarrow> meets y T) \<Longrightarrow> meets (if b then x else y) (if b then S else T)"
  by simp

lemma meets_UNIV: "meets x UNIV"
  by (simp add: meets_def)

lemma meets_on_list:
  "(\<And>xs. meets (f xs) (g (set xs))) \<Longrightarrow> meets (on_list m k f) (on_set (abs_db m) k g)"
  using err_spec [of "abs_db m"]
  by (auto simp: meets_def on_list_def on_set_def members_abs split: option.splits)

lemma meets_get:
  "meets (case m k of None \<Rightarrow> (RBulk None, m) | Some (LStr v) \<Rightarrow> (RBulk (Some v), m) | Some (LSet _) \<Rightarrow> (err, m))
     (case abs_db m k of None \<Rightarrow> {(RBulk None, abs_db m)}
        | Some (RStr v) \<Rightarrow> {(RBulk (Some v), abs_db m)} | Some (RSet _) \<Rightarrow> wrong_type (abs_db m))"
  using err_spec [of "abs_db m"] by (auto simp: meets_def abs_db_def [of m k] split: option.splits lval.splits)

lemma meets_one: "r = r' \<Longrightarrow> abs_db m = db \<Longrightarrow> meets (r, m) {(r', db)}"
  by (simp add: meets_def)

lemma meets_members:
  "meets (RArray (map (\<lambda>x. EBulk (Some x)) (remdups xs)), m)
     {(RArray (map (\<lambda>m. EBulk (Some m)) ms), abs_db m) | ms. set ms = set xs \<and> distinct ms}"
  unfolding meets_def using set_remdups distinct_remdups by force

lemma dom_abs_db: "k \<in> dom (abs_db m) \<longleftrightarrow> m k \<noteq> None"
  by (simp add: abs_db_def domIff)

lemma redis_spec_other: "length ws \<noteq> 2 \<Longrightarrow> length ws \<noteq> 3 \<Longrightarrow> redis_spec ws db = UNIV"
  unfolding redis_spec_def by (cases ws rule: remdups_adj.cases; cases "tl (tl ws)"; cases "tl (tl (tl ws))") simp_all

lemma ref_exec_spec: "meets (ref_exec ws m) (redis_spec ws (abs_db m))"
proof -
  consider (two) c k where "ws = [c, k]" | (three) c k v where "ws = [c, k, v]"
    | (other) "redis_spec ws (abs_db m) = UNIV"
    using redis_spec_other [of ws "abs_db m"]
    by (cases "length ws = 2"; cases "length ws = 3") (auto simp: length_Suc_conv numeral_2_eq_2 numeral_3_eq_3)
  then show ?thesis
  proof cases
    case two
    show ?thesis unfolding two redis_spec_def ref_exec_def list.case
      by (intro meets_if meets_UNIV meets_on_list meets_get meets_members meets_one)
        (simp_all add: dom_abs_db length_remdups_card_conv)
  next
    case three
    show ?thesis unfolding three redis_spec_def ref_exec_def list.case
      by (intro meets_if meets_UNIV meets_on_list meets_one)
        (simp_all add: abs_put_list)
  next
    case other
    then show ?thesis by (simp add: meets_UNIV)
  qed
qed

lemma ref_run_spec: "run_queue q (abs_db m) (fst (ref_run q m)) (abs_db (snd (ref_run q m)))"
proof (induction q arbitrary: m)
  case (Cons ws q)
  obtain r m1 where r: "ref_exec ws m = (r, m1)" by fastforce
  obtain rs m2 where "ref_run q m1 = (rs, m2)" by fastforce
  then show ?case using Cons.IH [of m1] ref_exec_spec [of ws m] r by (auto simp: meets_def)
qed simp

lemma ref_session_spec:
  assumes "ref_session ws t m = (r, t', m')"
  shows "(r, t', abs_db m') \<in> redis_session ws t (abs_db m)"
proof (cases t)
  case None
  have "text_ok ''ERR''" by (simp add: text_ok_def line_ok_def buf_size_def)
  then show ?thesis
    using assms None ref_exec_spec [of ws m]
    by (auto simp: ref_session_def redis_session_def meets_def err_def split: if_splits prod.splits)
next
  case (Some q)
  then show ?thesis
    using assms ref_run_spec [of q m]
    by (auto simp: ref_session_def redis_session_def split: if_splits prod.splits)
qed

lemma buff_size: "0 < REDIS_READ_BUFF_SIZE - 1" "REDIS_READ_BUFF_SIZE - 1 < REDIS_READ_BUFF_SIZE"
  by (simp_all add: REDIS_READ_BUFF_SIZE_def)

lemma cut_ok: "s \<noteq> [] \<Longrightarrow> concat (cut s) = s \<and> (\<forall>d \<in> set (cut s). d \<noteq> [] \<and> length d < REDIS_READ_BUFF_SIZE)"
proof (induction s rule: cut.induct)
  case (1 s)
  let ?n = "REDIS_READ_BUFF_SIZE - 1"
  show ?case
  proof (cases "length s < REDIS_READ_BUFF_SIZE")
    case True
    then show ?thesis using 1 by (simp add: cut.simps [of s])
  next
    case False
    then have "drop ?n s \<noteq> []" "take ?n s \<noteq> []" "length (take ?n s) < REDIS_READ_BUFF_SIZE"
      using buff_size 1(2) by auto
    moreover have "cut s = take ?n s # cut (drop ?n s)" using False cut.simps [of s] by simp
    ultimately show ?thesis using 1(1) [OF False] by simp
  qed
qed

lemma delivers_cut: "delivers (cut (enc_resp r)) r"
proof -
  have "length (enc_resp r) < REDIS_READ_BUFF_SIZE \<Longrightarrow> length (cut (enc_resp r)) = 1"
    by (subst cut.simps) simp
  then show ?thesis using cut_ok [OF enc_resp_not_Nil, of r] unfolding delivers_def by blast
qed

abbreviation ref_data :: "ref_world \<Rightarrow> db" where
  "ref_data w \<equiv> abs_db (w_db w)"

abbreviation ref_tx :: "sock \<Rightarrow> ref_world \<Rightarrow> bytes list list option" where
  "ref_tx s w \<equiv> w_tx w s"

interpretation ref: redis_net ref_net ref_data ref_tx
proof
  fix s ws and w :: ref_world
  obtain r t m where r: "ref_session ws (w_tx w s) (w_db w) = (r, t, m)" by (metis prod_cases3)
  define w1 where "w1 = w\<lparr> w_db := m, w_tx := (w_tx w)(s := t), w_out := (w_out w)(s := cut (enc_resp r)) \<rparr>"
  have "net_send ref_net s (enc_request ws) w = (True, w1)"
    using r by (simp add: ref_net_def ref_send_def dec_enc_request w1_def)
  moreover have "net_reads ref_net s w1 = (map Some (cut (enc_resp r)) @ [], w1\<lparr> w_out := (w_out w1)(s := []) \<rparr>)"
    by (simp add: ref_net_def w1_def)
  ultimately show "\<exists>w1 ds later w2 r. net_send ref_net s (enc_request ws) w = (True, w1)
      \<and> net_reads ref_net s w1 = (map Some ds @ later, w2) \<and> delivers ds r
      \<and> (r, ref_tx s w2, ref_data w2) \<in> redis_session ws (ref_tx s w) (ref_data w)
      \<and> others_idle ref_tx s w w2"
    using delivers_cut [of r] ref_session_spec [OF r]
    by (intro exI conjI) (auto simp: w1_def others_idle_def)
qed (auto simp: ref_net_def others_same_def)

end
