(* ===== verification/Topology_Props.thy ===== *)
theory Topology_Props
  imports Sentinel Ref_Server
begin

text \<open>
  What the topology code promises: the reply to \<open>CLUSTER NODES\<close> as the documentation of
  Redis describes it is read without loss, and the client that starts from it sends every
  slot to the node that serves it.
\<close>

section \<open>Searches\<close>

lemma find_sub_char: "c \<notin> set xs \<Longrightarrow> find_sub [c] (xs @ c # ys) = Some (length xs)"
  by (induction xs) auto

lemma find_sub_char_none: "c \<notin> set xs \<Longrightarrow> find_sub [c] xs = None"
  by (induction xs) auto

lemma find_sub_missing: "c \<in> set p \<Longrightarrow> c \<notin> set s \<Longrightarrow> find_sub p s = None"
proof (rule ccontr)
  assume c: "c \<in> set p" "c \<notin> set s" and "find_sub p s \<noteq> None"
  then obtain n t where "s = take n s @ p @ t" using find_sub_Some_split by blast
  then have "set p \<subseteq> set s" by (metis Un_upper1 Un_upper2 set_append subset_trans)
  with c show False by blast
qed

lemma find_sub_absent: "(\<And>xs ys. s \<noteq> xs @ p @ ys) \<Longrightarrow> find_sub p s = None"
  using find_sub_Some_split by (metis option.exhaust)

lemma find_sub_occurs: "find_sub p (xs @ p @ ys) \<noteq> None"
proof (induction xs)
  case Nil
  then show ?case by (cases "p @ ys") (auto simp: append_eq_Cons_conv take_append)
next
  case (Cons a xs)
  then show ?case by (auto simp del: find_sub.simps simp: find_sub.simps(2))
qed

text \<open>A word without blanks that is in none of the fields is not in the line.\<close>

lemma find_sub_fields:
  assumes "find_sub p xs = None" "find_sub p ys = None" "b \<notin> set p"
  shows "find_sub p (xs @ b # ys) = None"
proof (rule find_sub_absent, rule notI)
  fix us vs assume eq: "xs @ b # ys = us @ p @ vs"
  then consider (l) zs where "us @ p = xs @ zs" | (r) zs where "xs = us @ p @ zs"
    by (metis append.assoc append_eq_append_conv2)
  then show False
  proof cases
    case r
    then show False using assms(1) find_sub_occurs by metis
  next
    case l
    then show False
    proof (cases zs)
      case Nil
      then show False using l assms(1) find_sub_occurs [of p us "[]"] by auto
    next
      case (Cons z zs')
      from l eq have "b # ys = zs @ vs" by (metis append.assoc append_eq_append_conv same_append_eq)
      with Cons have z: "z = b" "ys = zs' @ vs" by auto
      show False
      proof (cases "length us \<le> length xs")
        case True
        with l obtain ws where "xs = us @ ws" "p = ws @ zs"
          by (auto simp: append_eq_append_conv2)
        then show False using Cons z assms(3) by auto
      next
        case False
        with l obtain ws where w: "us = xs @ ws" "zs = ws @ p" "ws \<noteq> []"
          by (auto simp: append_eq_append_conv2)
        then obtain ws' where "zs' = ws' @ p" using Cons by (cases ws) auto
        then show False using z(2) assms(2) find_sub_occurs [of p ws' vs] by auto
      qed
    qed
  qed
qed

lemma find_sub_first:
  "p \<noteq> [] \<Longrightarrow> hd p \<notin> set xs \<Longrightarrow> find_sub p (xs @ p @ ys) = Some (length xs)"
proof (induction xs)
  case Nil
  then show ?case by (cases p) auto
next
  case (Cons a xs)
  then have "take (length p) (a # xs @ p @ ys) \<noteq> p" by (cases p) auto
  then show ?case using Cons by simp
qed

lemma str_find_at: "str_find p (xs @ s) (length xs) = map_option (\<lambda>i. length xs + i) (find_sub p s)"
  by (simp add: str_find_def)

lemma str_find_from:
  "pos = length xs \<Longrightarrow> str_find p (xs @ s) pos = map_option (\<lambda>i. length xs + i) (find_sub p s)"
  by (simp add: str_find_def)

lemma substr_at: "pos = length xs \<Longrightarrow> n = length s \<Longrightarrow> substr (xs @ s @ t) pos n = s"
  by (simp add: substr_def)

lemma dropWhile_digits: "\<forall>c \<in> set s. is_digit c \<Longrightarrow> s \<noteq> [] \<Longrightarrow> dropWhile is_space (s @ t) = s @ t"
  by (cases s) (auto dest: digit_not_space)

lemma digits_value_stop: "\<not> is_digit c \<Longrightarrow> digits_value acc (c # t) = acc"
  by simp

text \<open>\<open>atoi\<close> stops after the digits.\<close>

lemma cstr_digits: "\<forall>c \<in> set s. is_digit c \<Longrightarrow> cstr (s @ t) = s @ cstr t"
  using not_digit_specials(3) by (intro cstr_append) blast

lemma read_digits:
  assumes "t = [] \<or> \<not> is_digit (hd t)"
  shows "read_signed (show_nat n @ t) = int n"
proof -
  obtain c s where cs: "show_nat n = c # s" "is_digit c" by (rule show_nat_Cons)
  then have "c \<noteq> CHR ''-''" "c \<noteq> CHR ''+''" by auto
  then have "read_signed (show_nat n @ t) = digits_value 0 (show_nat n @ t)" using cs(1) by simp
  also have "\<dots> = digits_value (int n) t"
    using show_nat_digits by (simp add: digits_value_append digits_value_show_nat)
  also have "\<dots> = int n" using assms by (cases t) auto
  finally show ?thesis .
qed

lemma atoi_digits:
  assumes "t = [] \<or> \<not> is_digit (hd t)" "int n \<le> int32_max"
  shows "atoi (show_nat n @ t) = int n"
proof -
  have d: "\<forall>c \<in> set (show_nat n). is_digit c" using show_nat_digits by blast
  have "cstr t = [] \<or> \<not> is_digit (hd (cstr t))"
    using assms(1) by (cases t) (auto simp: cstr_def)
  then have "read_signed (dropWhile is_space (cstr (show_nat n @ t))) = int n"
    using d by (simp add: cstr_digits dropWhile_digits read_digits)
  moreover have "in_int32 (int n)" using assms(2) by (simp add: in_int32_def int32_min_def)
  ultimately show ?thesis by (simp add: atoi_def decimal_simps)
qed

lemma to_u16_atoi: "t = [] \<or> \<not> is_digit (hd t) \<Longrightarrow> n < 65536 \<Longrightarrow> to_u16 (atoi (show_nat n @ t)) = n"
  by (subst atoi_digits) (auto simp: to_u16_def int32_max_def)

lemma to_u32_atoi: "t = [] \<or> \<not> is_digit (hd t) \<Longrightarrow> n < 65536 \<Longrightarrow> to_u32 (atoi (show_nat n @ t)) = n"
  by (subst atoi_digits) (auto simp: to_u32_def int32_max_def)

section \<open>The reply as documented\<close>

text \<open>A line of the reply: the id, the address, the flags, the master, three numbers, the
  state of the link and, for a master, its ranges of slots.\<close>

record node =
  n_id :: string
  n_ip :: string
  n_port :: nat
  n_bus :: nat
  n_myself :: bool
  n_master :: "string option"
  n_times :: "nat \<times> nat \<times> nat"
  n_slots :: "(nat \<times> nat) list"

definition hex :: "char \<Rightarrow> bool" where
  "hex c \<longleftrightarrow> is_digit c \<or> c \<in> set ''abcdef''"

definition node_ok :: "node \<Rightarrow> bool" where
  "node_ok n \<longleftrightarrow> list_all hex (n_id n) \<and> list_all (\<lambda>c. is_digit c \<or> c = CHR ''.'') (n_ip n)
     \<and> n_port n < 65536
     \<and> (case n_master n of
          None \<Rightarrow> n_slots n \<noteq> [] \<and> list_all (\<lambda>(a, b). a \<le> b \<and> b < REDIS_SLOT_NUM) (n_slots n)
        | Some m \<Rightarrow> m \<noteq> [] \<and> list_all hex m \<and> n_slots n = [])"

definition range_text :: "nat \<times> nat \<Rightarrow> string" where
  "range_text ab = show_nat (fst ab) @ CHR ''-'' # show_nat (snd ab)"

definition slots_text :: "(nat \<times> nat) list \<Rightarrow> string" where
  "slots_text rs = concat (map (\<lambda>ab. CHR '' '' # range_text ab) rs)"

definition address_text :: "node \<Rightarrow> string" where
  "address_text n = n_ip n @ CHR '':'' # show_nat (n_port n) @ CHR ''@'' # show_nat (n_bus n)"

definition flags_text :: "node \<Rightarrow> string" where
  "flags_text n = (if n_myself n then ''myself,'' else []) @ (if n_master n = None then ''master'' else ''slave'')"

definition master_text :: "node \<Rightarrow> string" where
  "master_text n = (case n_master n of None \<Rightarrow> ''-'' | Some m \<Rightarrow> m)"

definition times_text :: "node \<Rightarrow> string" where
  "times_text n = (case n_times n of (a, b, c) \<Rightarrow> show_nat a @ CHR '' '' # show_nat b @ CHR '' '' # show_nat c)"

definition node_line :: "node \<Rightarrow> string" where
  "node_line n = n_id n @ CHR '' '' # address_text n @ CHR '' '' # flags_text n @ CHR '' '' # master_text n
     @ CHR '' '' # times_text n @ CHR '' '' # ''connected'' @ slots_text (n_slots n)"

text \<open>What the client should know of a node.\<close>

definition node_info :: "node \<Rightarrow> RedisClusterInfo" where
  "node_info n = \<lparr> clusterId = n_id n, connectIp = n_ip n, connectPort = n_port n, connectionNum = 0,
     isMaster = (n_master n = None), isAlived = True,
     masterClusterId = (case n_master n of None \<Rightarrow> [] | Some m \<Rightarrow> m),
     slotMap = fold (\<lambda>(a, b). num_insert a b) (n_slots n) [], bakClusterList = [], clusterHandler = None,
     scanCursor = 0 \<rparr>"

section \<open>Reading a node\<close>

lemma digits_free: "\<not> is_digit c \<Longrightarrow> c \<notin> set (show_nat n)"
  using show_nat_digits by blast

lemma range_text_free: "\<not> is_digit c \<Longrightarrow> c \<noteq> CHR ''-'' \<Longrightarrow> c \<notin> set (range_text ab)"
  by (simp add: range_text_def digits_free)

lemma slots_text_free:
  "\<not> is_digit c \<Longrightarrow> c \<noteq> CHR ''-'' \<Longrightarrow> c \<noteq> CHR '' '' \<Longrightarrow> c \<notin> set (slots_text rs)"
  by (auto simp: slots_text_def range_text_free)

lemma slots_text_simps [simp]:
  "slots_text [] = []" "slots_text (ab # rs) = CHR '' '' # range_text ab @ slots_text rs"
  by (simp_all add: slots_text_def)

lemma parseSlotStr_range:
  assumes "a < 65536" "b < 65536" "t = [] \<or> \<not> is_digit (hd t)"
  shows "parseSlotStr (range_text (a, b) @ t) se = (a, b)"
proof -
  let ?s = "range_text (a, b) @ t"
  have f: "str_find ''-'' ?s 0 = Some (length (show_nat a))"
    by (simp add: str_find_def range_text_def find_sub_char digits_free)
  have 1: "substr ?s 0 (length (show_nat a)) = show_nat a @ []"
    by (simp add: substr_def range_text_def)
  have 2: "substr ?s (length (show_nat a) + 1) (length ?s - length (show_nat a)) = show_nat b @ t"
    by (simp add: substr_def range_text_def)
  show ?thesis unfolding parseSlotStr_def f option.case 1 2
    using assms by (simp add: to_u16_atoi del: append_Nil2)
qed

lemma parse_slots_text:
  assumes "list_all (\<lambda>(a, b). a < 65536 \<and> b < 65536) (ab # rs)"
  shows "parse_slots (pre @ range_text ab @ slots_text rs) (length pre) m
    = fold (\<lambda>(a, b). num_insert a b) (ab # rs) m"
  using assms
proof (induction rs arbitrary: pre ab m)
  case Nil
  obtain a b where ab: "ab = (a, b)" by (cases ab)
  have f: "str_find '' '' (pre @ range_text ab) (length pre) = None"
    by (simp add: str_find_at find_sub_char_none range_text_free)
  have s: "substr (pre @ range_text ab) (length pre) (length (pre @ range_text ab) - length pre) = range_text ab @ []"
    by (simp add: substr_def)
  have p: "parseSlotStr (range_text ab @ []) (65535, 65535) = (a, b)"
    unfolding ab by (rule parseSlotStr_range) (use Nil ab in auto)
  have "parse_slots (pre @ range_text ab) (length pre) m = num_insert a b m"
    by (subst parse_slots.simps) (simp only: f option.case s p Let_def prod.case)
  then show ?case using ab by simp
next
  case (Cons cd rs)
  obtain a b where ab: "ab = (a, b)" by (cases ab)
  let ?s = "pre @ range_text ab @ slots_text (cd # rs)"
  let ?f = "length pre + length (range_text ab)"
  have f: "str_find '' '' ?s (length pre) = Some ?f"
    by (simp add: str_find_at find_sub_char range_text_free)
  have s: "substr ?s (length pre) ?f = range_text ab @ take (length pre) (slots_text (cd # rs))"
    by (simp add: substr_def)
  have p: "parseSlotStr (range_text ab @ take (length pre) (slots_text (cd # rs))) (65535, 65535) = (a, b)"
    unfolding ab by (rule parseSlotStr_range) (use Cons.prems ab in \<open>auto simp: take_Cons'\<close>)
  have "parse_slots ?s (length pre) m = parse_slots ?s (?f + 1) (num_insert a b m)"
    by (subst parse_slots.simps) (simp only: f option.case s p Let_def prod.case)
  also have "\<dots> = parse_slots ((pre @ range_text ab @ '' '') @ range_text cd @ slots_text rs)
      (length (pre @ range_text ab @ '' '')) (num_insert a b m)"
    by simp
  also have "\<dots> = fold (\<lambda>(a, b). num_insert a b) (cd # rs) (num_insert a b m)"
    by (rule Cons.IH) (use Cons.prems in simp)
  finally show ?case using ab by simp
qed

text \<open>The fields of a line.\<close>

lemma hex_free: "list_all hex s \<Longrightarrow> \<not> hex c \<Longrightarrow> c \<notin> set s"
  by (auto simp: list_all_iff)

lemma ip_free: "list_all (\<lambda>c. is_digit c \<or> c = CHR ''.'') s \<Longrightarrow> \<not> is_digit c \<Longrightarrow> c \<noteq> CHR ''.'' \<Longrightarrow> c \<notin> set s"
  by (auto simp: list_all_iff)

lemma not_hex [simp]:
  "\<not> hex (CHR '' '')" "\<not> hex (CHR ''i'')" "\<not> hex (CHR ''n'')" "\<not> hex (CHR ''o'')" "\<not> hex LF" "\<not> hex CR" "\<not> hex NUL"
  by (simp_all add: hex_def is_digit_def)

lemma not_digit_letters [simp]:
  "\<not> is_digit (CHR ''i'')" "\<not> is_digit (CHR ''n'')" "\<not> is_digit (CHR ''o'')" "\<not> is_digit (CHR ''c'')"
  "\<not> is_digit (CHR ''d'')" "\<not> is_digit (CHR ''@'')" "\<not> is_digit (CHR ''a'')"
  by (simp_all add: is_digit_def)

lemma field_free:
  assumes "node_ok n"
  shows "c \<in> {CHR '' '', CHR ''i'', CHR ''n'', LF, CR, NUL} \<Longrightarrow> c \<notin> set (n_id n)"
    "c \<in> {CHR '' '', CHR ''i'', CHR ''n'', LF, CR, NUL} \<Longrightarrow> c \<notin> set (address_text n)"
    "c \<in> {CHR '' '', CHR ''i'', CHR ''n'', LF, CR, NUL} \<Longrightarrow> c \<notin> set (flags_text n)"
    "c \<in> {CHR '' '', CHR ''i'', CHR ''n'', LF, CR, NUL} \<Longrightarrow> c \<notin> set (master_text n)"
    "c \<in> {CHR ''i'', CHR ''n'', CHR ''c'', LF, CR, NUL} \<Longrightarrow> c \<notin> set (times_text n)"
    "c \<in> {CHR ''i'', CHR ''n'', CHR ''a'', LF, CR, NUL} \<Longrightarrow> c \<notin> set (slots_text (n_slots n))"
proof -
  have id: "list_all hex (n_id n)" and ip: "list_all (\<lambda>c. is_digit c \<or> c = CHR ''.'') (n_ip n)"
    and m: "\<forall>m. n_master n = Some m \<longrightarrow> list_all hex m"
    using assms by (auto simp: node_ok_def split: option.splits)
  show "c \<in> {CHR '' '', CHR ''i'', CHR ''n'', LF, CR, NUL} \<Longrightarrow> c \<notin> set (n_id n)"
    using hex_free [OF id, of c] by auto
  show "c \<in> {CHR '' '', CHR ''i'', CHR ''n'', LF, CR, NUL} \<Longrightarrow> c \<notin> set (address_text n)"
    using ip_free [OF ip, of c] by (auto simp: address_text_def digits_free)
  show "c \<in> {CHR '' '', CHR ''i'', CHR ''n'', LF, CR, NUL} \<Longrightarrow> c \<notin> set (flags_text n)"
    by (auto simp: flags_text_def)
  show "c \<in> {CHR '' '', CHR ''i'', CHR ''n'', LF, CR, NUL} \<Longrightarrow> c \<notin> set (master_text n)"
    using m hex_free [of _ c] by (auto simp: master_text_def split: option.splits)
  show "c \<in> {CHR ''i'', CHR ''n'', CHR ''c'', LF, CR, NUL} \<Longrightarrow> c \<notin> set (times_text n)"
    by (auto simp: times_text_def digits_free split: prod.splits)
  show "c \<in> {CHR ''i'', CHR ''n'', CHR ''a'', LF, CR, NUL} \<Longrightarrow> c \<notin> set (slots_text (n_slots n))"
    by (rule slots_text_free) auto
qed

lemma line_free:
  assumes "node_ok n" "c \<in> {CHR ''i'', LF, CR, NUL}"
  shows "c \<notin> set (node_line n)"
  using assms field_free [OF assms(1), of c] by (auto simp: node_line_def)

lemma line_not_skipped:
  assumes "node_ok n"
  shows "find_sub ''fail'' (node_line n) = None" "find_sub ''noaddr'' (node_line n) = None"
    "find_sub ''disconnected'' (node_line n) = None"
proof -
  show "find_sub ''fail'' (node_line n) = None" "find_sub ''disconnected'' (node_line n) = None"
    by (rule find_sub_missing [of "CHR ''i''"]; use line_free [OF assms] in simp)+
  have n: "find_sub ''noaddr'' s = None" if "CHR ''n'' \<notin> set s" for s
    by (rule find_sub_missing [of "CHR ''n''"]) (use that in simp_all)
  have a: "find_sub ''noaddr'' (''connected'' @ slots_text (n_slots n)) = None"
    by (rule find_sub_missing [of "CHR ''a''"]) (use field_free(6) [OF assms] in simp_all)
  show "find_sub ''noaddr'' (node_line n) = None"
    unfolding node_line_def
    by (intro find_sub_fields n a) (use field_free [OF assms] in simp_all)
qed

lemma next_field:
  assumes "s = pre @ f @ CHR '' '' # t" "CHR '' '' \<notin> set f"
  shows "str_find '' '' s (length pre) = Some (length pre + length f)"
    "substr s (length pre) (length pre + length f - length pre) = f"
  using assms by (simp_all add: str_find_def find_sub_char substr_def)

lemma parse_address_text:
  assumes "node_ok n"
  shows "parse_address (address_text n) = (n_ip n, n_port n)"
proof -
  let ?rest = "show_nat (n_port n) @ CHR ''@'' # show_nat (n_bus n)"
  have c: "CHR '':'' \<notin> set (n_ip n)" using assms by (auto simp: node_ok_def list_all_iff)
  have f: "str_find '':'' (address_text n) 0 = Some (length (n_ip n))"
    by (simp add: str_find_def address_text_def find_sub_char c)
  have 1: "substr (address_text n) 0 (length (n_ip n)) = n_ip n"
    and 2: "substr (address_text n) (length (n_ip n) + 1) (length (address_text n) - length (n_ip n)) = ?rest"
    by (simp_all add: substr_def address_text_def)
  have "n_port n < 65536" using assms by (simp add: node_ok_def)
  then show ?thesis unfolding parse_address_def f option.case 1 2 by (simp add: to_u32_atoi)
qed

lemma flags_master: "str_find ''master'' (flags_text n) 0 \<noteq> None \<longleftrightarrow> n_master n = None"
  by (auto simp: str_find_def flags_text_def)

lemma master_slots:
  assumes "node_ok n" "n_master n = None"
  obtains r rs where "n_slots n = r # rs" "list_all (\<lambda>(a, b). a < 65536 \<and> b < 65536) (r # rs)"
proof (cases "n_slots n")
  case Nil
  with assms show ?thesis by (simp add: node_ok_def)
next
  case (Cons r rs)
  moreover have "list_all (\<lambda>(a, b). a < 65536 \<and> b < 65536) (n_slots n)"
    using assms by (fastforce simp: node_ok_def REDIS_SLOT_NUM_def list_all_iff)
  ultimately show ?thesis using that by simp
qed

lemma node_line_link:
  assumes "node_ok n" "node_line n = pre @ times_text n @ CHR '' '' # ''connected'' @ slots_text (n_slots n)"
  shows "str_find ''disconnected'' (node_line n) (length pre) = None"
    and "str_find ''connected'' (node_line n) (length pre) = Some (length pre + length (times_text n) + 1)"
proof -
  let ?t = "times_text n @ CHR '' '' # ''connected'' @ slots_text (n_slots n)"
  have "CHR ''i'' \<notin> set ?t" using line_free [OF assms(1), of "CHR ''i''"] assms(2) by simp
  then have "find_sub ''disconnected'' ?t = None" by (intro find_sub_missing [of "CHR ''i''"]) simp_all
  then show "str_find ''disconnected'' (node_line n) (length pre) = None"
    unfolding assms(2) str_find_at by simp
  have "find_sub ''connected'' ((times_text n @ '' '') @ ''connected'' @ slots_text (n_slots n))
      = Some (length (times_text n @ '' ''))"
    by (rule find_sub_first) (use field_free(5) [OF assms(1), of "CHR ''c''"] in simp_all)
  then show "str_find ''connected'' (node_line n) (length pre) = Some (length pre + length (times_text n) + 1)"
    unfolding assms(2) str_find_at by simp
qed

lemma parseOneCluster_line:
  assumes ok: "node_ok n"
  shows "parseOneCluster (node_line n) empty_info = Some (node_info n)"
proof -
  let ?L = "node_line n"
  let ?p1 = "n_id n @ '' ''"
  let ?p2 = "?p1 @ address_text n @ '' ''"
  let ?p3 = "?p2 @ flags_text n @ '' ''"
  let ?p4 = "?p3 @ master_text n @ '' ''"
  let ?p5 = "?p4 @ times_text n @ '' ''"
  have F: "CHR '' '' \<notin> set (n_id n)" "CHR '' '' \<notin> set (address_text n)" "CHR '' '' \<notin> set (flags_text n)"
    "CHR '' '' \<notin> set (master_text n)"
    using field_free [OF ok, of "CHR '' ''"] by simp_all
  let ?t3 = "times_text n @ CHR '' '' # ''connected'' @ slots_text (n_slots n)"
  let ?t2 = "master_text n @ CHR '' '' # ?t3"
  let ?t1 = "flags_text n @ CHR '' '' # ?t2"
  have L1: "?L = [] @ n_id n @ CHR '' '' # address_text n @ CHR '' '' # ?t1" "?L = ?p1 @ address_text n @ CHR '' '' # ?t1"
    "?L = ?p2 @ flags_text n @ CHR '' '' # ?t2" "?L = ?p3 @ master_text n @ CHR '' '' # ?t3"
    by (simp_all add: node_line_def)
  have f0: "str_find '' '' ?L 0 = Some (length (n_id n))" "substr ?L 0 (length (n_id n)) = n_id n"
    using next_field [OF L1(1) F(1)] by simp_all
  note f1 = next_field [OF L1(2) F(2)]
  note f2 = next_field [OF L1(3) F(3)]
  note f3 = next_field [OF L1(4) F(4)]
  have l1: "length (n_id n) + 1 = length ?p1" "length ?p1 + length (address_text n) + 1 = length ?p2"
    "length ?p2 + length (flags_text n) + 1 = length ?p3" "length ?p3 + length (master_text n) + 1 = length ?p4"
    by simp_all
  have L: "?L = ?p4 @ times_text n @ CHR '' '' # ''connected'' @ slots_text (n_slots n)"
    by (simp add: node_line_def)
  note link = node_line_link [OF ok L]
  show ?thesis
  proof (cases "n_master n")
    case (Some m)
    then have fl: "(str_find ''master'' (flags_text n) 0 \<noteq> None) = False" using flags_master [of n] by auto
    show ?thesis
      unfolding parseOneCluster_def f0 f1 f2 f3 option.case Let_def l1 link parse_address_text [OF ok] prod.case fl if_False
      using Some ok by (simp add: empty_info_def node_info_def master_text_def node_ok_def)
  next
    case None
    then have fl: "(str_find ''master'' (flags_text n) 0 \<noteq> None) = True" using flags_master [of n] by auto
    obtain r rs where rs: "n_slots n = r # rs" "list_all (\<lambda>(a, b). a < 65536 \<and> b < 65536) (r # rs)"
      by (rule master_slots [OF ok None])
    let ?q = "length ?p4 + length (times_text n) + 1 + 1"
    have "?L = (?p5 @ ''c'') @ ''onnected'' @ CHR '' '' # range_text r @ slots_text rs" by (simp add: node_line_def rs)
    from next_field(1) [OF this] have f4: "str_find '' '' ?L ?q = Some (?q + length ''onnected'')"
      by (simp add: add.assoc)
    have f5: "parse_slots ?L (?q + length ''onnected'' + 1) [] = fold (\<lambda>(a, b). num_insert a b) (r # rs) []"
      using parse_slots_text [OF rs(2), of "?p5 @ ''connected ''" "[]"] by (simp add: node_line_def rs add.assoc)
    obtain Q where Q: "?q = Q" by simp
    show ?thesis
      unfolding parseOneCluster_def f0 f1 f2 f3 option.case Let_def l1 link parse_address_text [OF ok] prod.case fl if_True
        Q f4 [unfolded Q]
      using None rs(1) f5 [unfolded Q] by (simp add: empty_info_def node_info_def)
  qed
qed

section \<open>Reading the reply\<close>

lemma map_of_map_insert [simp]: "map_of (map_insert k v m) = (map_of m)(k \<mapsto> v)"
  by (induction m) (auto simp: fun_eq_iff)

lemma keys_map_insert [simp]: "fst ` set (map_insert k v m) = insert k (fst ` set m)"
  by (induction k v m rule: map_insert.induct) (simp_all add: insert_commute)

lemma distinct_map_insert:
  "distinct (map fst m) \<Longrightarrow> k \<notin> fst ` set m \<Longrightarrow> distinct (map fst (map_insert k v m))"
  by (induction m) (auto simp: image_iff)

lemma map_of_num_insert [simp]: "map_of (num_insert k v m) = (map_of m)(k \<mapsto> v)"
  by (induction m) (auto simp: fun_eq_iff)

lemma set_num_insert: "k \<notin> fst ` set m \<Longrightarrow> set (num_insert k v m) = insert (k, v) (set m)"
  by (induction k v m rule: num_insert.induct) (simp_all add: insert_commute)

definition nodes_text :: "node list \<Rightarrow> string" where
  "nodes_text ns = concat (map (\<lambda>n. node_line n @ [LF]) ns)"

definition addr :: "node \<Rightarrow> string" where
  "addr n = n_ip n @ '':'' @ show_nat (n_port n)"

definition add_node :: "nat \<Rightarrow> node \<Rightarrow> cluster_map \<Rightarrow> cluster_map" where
  "add_node k n = map_insert (addr n) ((node_info n)\<lparr> connectionNum := k \<rparr>)"

definition add_slave :: "node \<Rightarrow> (string \<times> string) list \<Rightarrow> (string \<times> string) list" where
  "add_slave n = (case n_master n of None \<Rightarrow> (\<lambda>b. b) | Some m \<Rightarrow> map_insert (addr n) m)"

lemma address_of_node: "node_ok n \<Longrightarrow> address_of (node_info n) = addr n"
proof -
  assume "node_ok n"
  then have p: "n_port n < 65536" by (simp add: node_ok_def)
  then have u: "unat (of_nat (n_port n) :: 32 word) = n_port n" by (simp add: unat_of_nat)
  have "(of_nat (n_port n) :: 32 word) \<noteq> -1"
  proof
    assume "(of_nat (n_port n) :: 32 word) = -1"
    with u have "unat (-1 :: 32 word) = n_port n" by simp
    with p show False by (simp add: unsigned_minus_1_eq_mask mask_eq_exp_minus_1)
  qed
  then show ?thesis using u by (simp add: address_of_def addr_def node_info_def toStr_u32_def)
qed

lemma node_line_not_Nil [simp]: "node_line n \<noteq> []"
  by (simp add: node_line_def)

lemma parse_lines_text:
  assumes "list_all node_ok ns"
  shows "parse_lines k (pre @ nodes_text ns) (length pre) cm bm = Some (fold (add_node k) ns cm, fold add_slave ns bm)"
  using assms
proof (induction ns arbitrary: pre cm bm)
  case Nil
  have "str_find [LF] pre (length pre) = None" by (simp add: str_find_def)
  then show ?case by (subst parse_lines.simps) (simp add: nodes_text_def)
next
  case (Cons n ns)
  then have ok: "node_ok n" by simp
  let ?L = "node_line n" and ?s = "pre @ nodes_text (n # ns)"
  have s: "?s = pre @ ?L @ LF # nodes_text ns" by (simp add: nodes_text_def)
  have f: "str_find [LF] ?s (length pre) = Some (length pre + length ?L)"
    using line_free [OF ok, of LF] by (simp add: s str_find_def find_sub_char)
  have l: "substr ?s (length pre) (length pre + length ?L - length pre) = ?L" by (simp add: s substr_def)
  have cr: "(?L = [CR]) = False" using line_free [OF ok, of CR] by auto
  have sk: "str_find ''fail'' ?L 0 = None" "str_find ''noaddr'' ?L 0 = None" "str_find ''disconnected'' ?L 0 = None"
    using line_not_skipped [OF ok] by (simp_all add: str_find_def)
  have m: "masterClusterId (node_info n) \<noteq> []" if "\<not> isMaster (node_info n)"
    using that ok by (auto simp: node_info_def node_ok_def split: option.splits)
  have b: "(if \<not> isMaster (node_info n) \<and> masterClusterId (node_info n) \<noteq> []
      then map_insert (addr n) (masterClusterId (node_info n)) bm else bm) = add_slave n bm"
    using m by (auto simp: add_slave_def node_info_def split: option.splits)
  have "parse_lines k ?s (length pre) cm bm
      = parse_lines k ?s (length pre + length ?L + 1) (add_node k n cm) (add_slave n bm)"
    by (subst parse_lines.simps)
      (simp only: f option.case Let_def l cr sk simp_thms if_False parseOneCluster_line [OF ok]
        address_of_node [OF ok] b add_node_def)
  also have "\<dots> = parse_lines k ((pre @ ?L @ [LF]) @ nodes_text ns) (length (pre @ ?L @ [LF]))
      (add_node k n cm) (add_slave n bm)"
    by (simp add: s)
  also have "\<dots> = Some (fold (add_node k) ns (add_node k n cm), fold add_slave ns (add_slave n bm))"
    by (rule Cons.IH) (use Cons.prems in simp)
  finally show ?case by simp
qed

lemma set_map_insert: "k \<notin> fst ` set m \<Longrightarrow> set (map_insert k v m) = insert (k, v) (set m)"
  by (induction k v m rule: map_insert.induct) (simp_all add: insert_commute)

lemma fold_add_node:
  assumes "distinct (map addr ns)" "addr ` set ns \<inter> fst ` set cm = {}" "distinct (map fst cm)"
  shows "set (fold (add_node k) ns cm) = (\<lambda>n. (addr n, (node_info n)\<lparr> connectionNum := k \<rparr>)) ` set ns \<union> set cm"
    "distinct (map fst (fold (add_node k) ns cm))"
proof -
  have "set (fold (add_node k) ns cm) = (\<lambda>n. (addr n, (node_info n)\<lparr> connectionNum := k \<rparr>)) ` set ns \<union> set cm
      \<and> distinct (map fst (fold (add_node k) ns cm))"
    using assms
  proof (induction ns arbitrary: cm)
    case (Cons n ns)
    have "set (add_node k n cm) = insert (addr n, (node_info n)\<lparr> connectionNum := k \<rparr>) (set cm)"
      "distinct (map fst (add_node k n cm))"
      using Cons.prems by (auto simp: add_node_def set_map_insert distinct_map_insert)
    moreover have "addr ` set ns \<inter> fst ` set (add_node k n cm) = {}"
      using Cons.prems by (auto simp: add_node_def)
    ultimately show ?case using Cons.IH [of "add_node k n cm"] Cons.prems by auto
  qed simp
  then show "set (fold (add_node k) ns cm) = (\<lambda>n. (addr n, (node_info n)\<lparr> connectionNum := k \<rparr>)) ` set ns \<union> set cm"
    "distinct (map fst (fold (add_node k) ns cm))" by auto
qed

definition slave_entry :: "node \<Rightarrow> (string \<times> string) set" where
  "slave_entry n = (case n_master n of None \<Rightarrow> {} | Some m \<Rightarrow> {(addr n, m)})"

lemma disjoint_sub_insert: "A \<subseteq> insert a B \<Longrightarrow> a \<notin> C \<Longrightarrow> C \<inter> B = {} \<Longrightarrow> C \<inter> A = {}"
  by blast

lemma fold_add_slave:
  assumes "distinct (map addr ns)" "addr ` set ns \<inter> fst ` set bm = {}"
  shows "set (fold add_slave ns bm) = (\<Union>n \<in> set ns. slave_entry n) \<union> set bm"
  using assms
proof (induction ns arbitrary: bm)
  case (Cons n ns)
  have new: "addr n \<notin> fst ` set bm" using Cons.prems by auto
  have s: "set (add_slave n bm) = slave_entry n \<union> set bm"
    using set_map_insert [OF new] by (simp add: add_slave_def slave_entry_def split: option.splits)
  have "fst ` slave_entry n \<subseteq> {addr n}" by (simp add: slave_entry_def split: option.splits)
  then have "fst ` set (add_slave n bm) \<subseteq> insert (addr n) (fst ` set bm)" unfolding s by blast
  then have "addr ` set ns \<inter> fst ` set (add_slave n bm) = {}"
    by (rule disjoint_sub_insert) (use Cons.prems in auto)
  then have "set (fold add_slave ns (add_slave n bm)) = (\<Union>n \<in> set ns. slave_entry n) \<union> set (add_slave n bm)"
    by (intro Cons.IH) (use Cons.prems in simp_all)
  then show ?case by (simp add: s Un_left_commute Un_assoc)
qed simp

definition with_baks :: "(string \<times> string) list \<Rightarrow> RedisClusterInfo \<Rightarrow> RedisClusterInfo" where
  "with_baks bm info = info\<lparr> bakClusterList :=
     bakClusterList info @ map fst (filter (\<lambda>b. clusterId info = snd b) bm) \<rparr>"

lemma fold_add_bak: "fold add_bak bm cm = map (\<lambda>(cid, info). (cid, with_baks bm info)) cm"
proof (induction bm arbitrary: cm)
  case Nil
  then show ?case by (induction cm) (auto simp: with_baks_def)
next
  case (Cons b bm)
  show ?case unfolding fold_simps Cons.IH by (auto simp: add_bak_def with_baks_def)
qed

text \<open>The entry of a node in the map that is read from the reply.\<close>

definition entry :: "nat \<Rightarrow> node list \<Rightarrow> node \<Rightarrow> string \<times> RedisClusterInfo" where
  "entry k ns n = (addr n, with_baks (fold add_slave ns []) ((node_info n)\<lparr> connectionNum := k \<rparr>))"

definition text_reply :: "node list \<Rightarrow> resp" where
  "text_reply ns = RBulk (Some (nodes_text ns))"

lemma nodes_text_no_nul: "list_all node_ok ns \<Longrightarrow> NUL \<notin> set (nodes_text ns)"
  using line_free [of _ NUL] by (auto simp: nodes_text_def list_all_iff)

lemma parseClusterInfo_text:
  assumes "list_all node_ok ns" "ns \<noteq> []" "distinct (map addr ns)"
  obtains cm where "parseClusterInfo k (reply_of (text_reply ns)) [] = Inr (True, cm)"
    "set cm = entry k ns ` set ns" "distinct (map fst cm)"
proof
  let ?cm = "map (\<lambda>(cid, info). (cid, with_baks (fold add_slave ns []) info)) (fold (add_node k) ns [])"
  have "parse_lines k (nodes_text ns) 0 [] [] = Some (fold (add_node k) ns [], fold add_slave ns [])"
    using parse_lines_text [OF assms(1), of k "[]"] by simp
  moreover have "nodes_text ns \<noteq> []" using assms(2) by (cases ns) (simp_all add: nodes_text_def)
  ultimately show "parseClusterInfo k (reply_of (text_reply ns)) [] = Inr (True, ?cm)"
    using nodes_text_no_nul [OF assms(1)]
    by (simp add: parseClusterInfo_def text_reply_def cstr_id fold_add_bak)
  note f = fold_add_node [OF assms(3), of "[]" k, simplified]
  show "set ?cm = entry k ns ` set ns" by (auto simp: f entry_def image_image)
  have "map fst ?cm = map fst (fold (add_node k) ns [])" by (simp add: case_prod_beta)
  then show "distinct (map fst ?cm)" using f(2) by (simp only:)
qed

section \<open>Filling the pools and the slots\<close>

definition filled :: "RedisClusterInfo \<Rightarrow> pool \<Rightarrow> bool" where
  "filled info p \<longleftrightarrow> pool_inv p \<and> m_clusterIp p = connectIp info \<and> m_clusterPort p = connectPort info
     \<and> length (m_connections p) = connectionNum info"

lemma init_conns_ok:
  assumes "\<And>s ip port w. fst (net_connect net s ip port w)" "pool_inv p"
  shows "\<exists>p' w'. init_conns net ip port k p w = Inr (True, p', w') \<and> pool_inv p'
    \<and> length (m_connections p') = length (m_connections p) + k"
  using assms(2)
proof (induction k arbitrary: p w)
  case (Suc k)
  let ?c = "p_next p"
  let ?p = "set_conn ?c ((RedisConnection ip port)\<lparr> m_available := True, m_connectTime := 0 \<rparr>) (snd (new_conn ip port p))"
  let ?q = "?p\<lparr> m_connections := m_connections ?p @ [?c] \<rparr>"
  obtain w' where w: "net_connect net (sock_of (snd (new_conn ip port p)) ?c) ip port w = (True, w')"
    using assms(1) by (metis prod.collapse)
  have inv: "pool_inv ?q"
    using Suc.prems
    by (auto simp: pool_inv_def new_conn_def set_conn_def subset_iff less_Suc_eq_le dom_def intro: less_imp_le)
  have "init_conns net ip port (Suc k) p w = init_conns net ip port k ?q w'"
    using w by (simp add: new_conn_def conn_connect_def deref_def RedisConnection_def Let_def)
  moreover have "length (m_connections ?q) = Suc (length (m_connections p))"
    by (simp add: new_conn_def set_conn_def)
  ultimately show ?case using Suc.IH [OF inv, of w'] by simp
qed simp

lemma initConnectPool_ok:
  assumes "\<And>s ip port w. fst (net_connect net s ip port w)"
  obtains p w' where "initConnectPool net (connectIp info) (connectPort info) (connectionNum info) (RedisCluster a) w
      = Inr (True, p, w')" "filled info p"
proof -
  obtain p' w' where p: "init_conns net (connectIp info) (connectPort info) (connectionNum info) (RedisCluster a) w
      = Inr (True, p', w')" "pool_inv p'" "length (m_connections p') = connectionNum info"
    using init_conns_ok [OF assms, of "RedisCluster a" "connectIp info" "connectPort info" "connectionNum info" w]
    by (auto simp: RedisCluster_def pool_inv_def)
  show thesis
    by (rule that [of "p'\<lparr> m_clusterIp := connectIp info, m_clusterPort := connectPort info,
          m_connectionNum := connectionNum info \<rparr>" w'])
      (use p in \<open>simp_all add: initConnectPool_def filled_def pool_inv_def\<close>)
qed

text \<open>The slots after the nodes of a map have been entered.\<close>

definition fill_node :: "string \<times> RedisClusterInfo \<Rightarrow> (nat \<times> string) list \<Rightarrow> (nat \<times> string) list" where
  "fill_node e slots = (if isMaster (snd e) then fold (fill_range (fst e)) (slotMap (snd e)) slots else slots)"

lemma fill_slots_eq: "fill_slots cid info c = c\<lparr> m_slotMap := fill_node (cid, info) (m_slotMap c) \<rparr>"
  by (simp add: fill_slots_def fill_node_def)

lemma map_of_fill_range:
  "map_of (fill_range cid ab slots) i = (if fst ab \<le> i \<and> i \<le> snd ab then Some cid else map_of slots i)"
proof -
  have "map_of (fold (\<lambda>i. num_insert i cid) js slots) i = (if i \<in> set js then Some cid else map_of slots i)" for js
    by (induction js arbitrary: slots) auto
  then show ?thesis by (auto simp: fill_range_def)
qed

lemma map_of_fill_ranges:
  "map_of (fold (fill_range cid) rs slots) i
    = (if \<exists>(a, b) \<in> set rs. a \<le> i \<and> i \<le> b then Some cid else map_of slots i)"
  by (induction rs arbitrary: slots) (auto simp: map_of_fill_range)

definition holds_slot :: "RedisClusterInfo \<Rightarrow> nat \<Rightarrow> bool" where
  "holds_slot info i \<longleftrightarrow> isMaster info \<and> (\<exists>(a, b) \<in> set (slotMap info). a \<le> i \<and> i \<le> b)"

lemma map_of_fill_node:
  "map_of (fill_node e slots) i = (if holds_slot (snd e) i then Some (fst e) else map_of slots i)"
  by (simp add: fill_node_def holds_slot_def map_of_fill_ranges)

lemma map_of_fill_nodes_none:
  "\<forall>e \<in> set cm. \<not> holds_slot (snd e) i \<Longrightarrow> map_of (fold fill_node cm slots) i = map_of slots i"
  by (induction cm arbitrary: slots) (auto simp: map_of_fill_node)

lemma map_of_fill_nodes:
  assumes "e \<in> set cm" "holds_slot (snd e) i" "\<forall>e' \<in> set cm. holds_slot (snd e') i \<longrightarrow> fst e' = fst e"
  shows "map_of (fold fill_node cm slots) i = Some (fst e)"
  using assms
proof (induction cm arbitrary: slots e)
  case (Cons e' cm)
  show ?case
  proof (cases "\<exists>x \<in> set cm. holds_slot (snd x) i")
    case True
    then obtain x where x: "x \<in> set cm" "holds_slot (snd x) i" by blast
    with Cons.prems have "fst x = fst e" by auto
    moreover have "\<forall>y \<in> set cm. holds_slot (snd y) i \<longrightarrow> fst y = fst x"
      using Cons.prems(3) \<open>fst x = fst e\<close> by simp
    ultimately show ?thesis using Cons.IH [OF x, of "fill_node e' slots"] by simp
  next
    case False
    then have "holds_slot (snd e') i" "fst e' = fst e" using Cons.prems by auto
    then show ?thesis using map_of_fill_nodes_none [of cm i "fill_node e' slots"] False
      by (simp add: map_of_fill_node)
  qed
qed simp

text \<open>The state after the nodes of a map have been connected to.\<close>

definition connected_to :: "cluster_map \<Rightarrow> client \<Rightarrow> client \<Rightarrow> bool" where
  "connected_to cm c c' \<longleftrightarrow> m_slotMap c' = fold fill_node cm (m_slotMap c)
     \<and> (\<forall>cid. cid \<notin> fst ` set cm \<longrightarrow> map_of (m_clusterMap c') cid = map_of (m_clusterMap c) cid)
     \<and> (\<forall>a < cl_next c. cl_pools c' a = cl_pools c a)
     \<and> (\<forall>(cid, info) \<in> set cm. \<exists>a p. map_of (m_clusterMap c') cid = Some (info\<lparr> clusterHandler := Some a \<rparr>)
          \<and> cl_pools c' a = Some p \<and> filled info p)"

definition node_added :: "string \<Rightarrow> RedisClusterInfo \<Rightarrow> pool \<Rightarrow> client \<Rightarrow> client" where
  "node_added cid info p c = c\<lparr> cl_next := Suc (cl_next c), cl_pools := (cl_pools c)(cl_next c \<mapsto> p),
     m_clusterMap := map_insert cid (info\<lparr> clusterHandler := Some (cl_next c) \<rparr>) (m_clusterMap c),
     m_slotMap := fill_node (cid, info) (m_slotMap c) \<rparr>"

lemma connected_to_Cons:
  assumes "connected_to cm (node_added cid info p c) c'" "filled info p" "cid \<notin> fst ` set cm"
  shows "connected_to ((cid, info) # cm) c c'"
proof -
  let ?d = "node_added cid info p c"
  have pool: "cl_pools c' (cl_next c) = Some p" "\<forall>a < cl_next c. cl_pools c' a = cl_pools c a"
    and other: "\<forall>k. k \<notin> fst ` set cm \<longrightarrow> map_of (m_clusterMap c') k = map_of (m_clusterMap ?d) k"
    using assms(1) by (auto simp: connected_to_def node_added_def)
  have "map_of (m_clusterMap c') cid = Some (info\<lparr> clusterHandler := Some (cl_next c) \<rparr>)"
    using other assms(3) by (simp add: node_added_def)
  with pool(1) assms(2)
  have "\<exists>a p. map_of (m_clusterMap c') cid = Some (info\<lparr> clusterHandler := Some a \<rparr>)
      \<and> cl_pools c' a = Some p \<and> filled info p" by blast
  moreover have "\<forall>k. k \<notin> fst ` set ((cid, info) # cm) \<longrightarrow> map_of (m_clusterMap c') k = map_of (m_clusterMap c) k"
    using other by (simp add: node_added_def)
  moreover have "m_slotMap c' = fold fill_node ((cid, info) # cm) (m_slotMap c)"
    using assms(1) by (simp add: connected_to_def node_added_def)
  moreover have "\<forall>(cid, info) \<in> set cm. \<exists>a p. map_of (m_clusterMap c') cid = Some (info\<lparr> clusterHandler := Some a \<rparr>)
          \<and> cl_pools c' a = Some p \<and> filled info p"
    using assms(1) unfolding connected_to_def by (elim conjE)
  ultimately show ?thesis using pool(2) unfolding connected_to_def list.set ball_simps prod.case by (intro conjI)
qed

lemma connected_to_Nil: "connected_to [] c c"
  by (simp add: connected_to_def)

lemma init_nodes_ok:
  assumes "\<And>s ip port w. fst (net_connect net s ip port w)" "m_passwd c = []" "distinct (map fst cm)"
  shows "\<exists>c' w'. init_nodes net cm c w = Inr (True, c', w') \<and> connected_to cm c c'"
  using assms(2,3)
proof (induction cm arbitrary: c w)
  case Nil
  then show ?case by (simp add: connected_to_Nil)
next
  case (Cons e cm)
  obtain cid info where e: "e = (cid, info)" by (cases e)
  obtain p w1 where p: "initConnectPool net (connectIp info) (connectPort info) (connectionNum info)
      (RedisCluster (cl_next c)) w = Inr (True, p, w1)" "filled info p"
    by (rule initConnectPool_ok [OF assms(1)])
  have "init_nodes net (e # cm) c w = init_nodes net cm (node_added cid info p c) w1"
    using Cons.prems(1) p(1)
    by (simp add: e new_pool_def with_pool_def set_info_def fill_slots_eq auth_if_needed_def Let_def node_added_def)
  moreover obtain c' w' where "init_nodes net cm (node_added cid info p c) w1 = Inr (True, c', w')"
    "connected_to cm (node_added cid info p c) c'"
    using Cons.IH [of "node_added cid info p c" w1] Cons.prems by (auto simp: node_added_def)
  moreover have "cid \<notin> fst ` set cm" using Cons.prems(2) e by simp
  ultimately show ?case using connected_to_Cons [OF _ p(2)] by (simp add: e)
qed

section \<open>A client that starts in cluster mode\<close>

definition serves :: "node \<Rightarrow> nat \<Rightarrow> bool" where
  "serves n i \<longleftrightarrow> n_master n = None \<and> (\<exists>(a, b) \<in> set (n_slots n). a \<le> i \<and> i \<le> b)"

text \<open>A cluster: the addresses are distinct and a slot has one owner.\<close>

definition topology_ok :: "node list \<Rightarrow> bool" where
  "topology_ok ns \<longleftrightarrow> ns \<noteq> [] \<and> list_all node_ok ns \<and> distinct (map addr ns)
     \<and> list_all (\<lambda>n. distinct (map fst (n_slots n))) ns
     \<and> (\<forall>i. \<forall>n \<in> set ns. \<forall>m \<in> set ns. serves n i \<longrightarrow> serves m i \<longrightarrow> n = m)
     \<and> length (enc_resp (text_reply ns)) < 2 ^ 30"

lemma set_fold_num_insert:
  assumes "distinct (map fst rs)" "fst ` set rs \<inter> fst ` set m = {}"
  shows "set (fold (\<lambda>(a, b). num_insert a b) rs m) = set rs \<union> set m"
  using assms
proof (induction rs arbitrary: m)
  case (Cons r rs)
  obtain a b where r: "r = (a, b)" by (cases r)
  have s: "set (num_insert a b m) = insert (a, b) (set m)" using Cons.prems r by (intro set_num_insert) auto
  have "fst ` set rs \<inter> fst ` set (num_insert a b m) = {}"
    by (rule disjoint_sub_insert [of _ a "fst ` set m"]) (use Cons.prems r s in auto)
  then show ?case using Cons.IH [of "num_insert a b m"] Cons.prems(1) r s by simp
qed simp

lemma entry_holds_slot: "distinct (map fst (n_slots n)) \<Longrightarrow> holds_slot (snd (entry k ns n)) i = serves n i"
  using set_fold_num_insert [of "n_slots n" "[]"]
  by (simp add: entry_def with_baks_def holds_slot_def serves_def node_info_def)

lemma slots_of_topology:
  assumes "topology_ok ns" "set cm = entry k ns ` set ns"
  shows "map_of (fold fill_node cm []) i = map_option addr (find (\<lambda>n. serves n i) ns)"
proof (cases "find (\<lambda>n. serves n i) ns")
  case None
  then have "\<forall>n \<in> set ns. \<not> serves n i" by (simp add: find_None_iff)
  then have "\<forall>e \<in> set cm. \<not> holds_slot (snd e) i"
    using assms by (auto simp: entry_holds_slot topology_ok_def list_all_iff)
  then show ?thesis using None map_of_fill_nodes_none [of cm i "[]"] by simp
next
  case (Some n)
  then have n: "n \<in> set ns" "serves n i" by (auto simp: find_Some_iff)
  have d: "\<forall>m \<in> set ns. distinct (map fst (n_slots m))" and u: "\<forall>m \<in> set ns. serves m i \<longrightarrow> m = n"
    using assms(1) n by (auto simp: topology_ok_def list_all_iff)
  have "map_of (fold fill_node cm []) i = Some (fst (entry k ns n))"
  proof (rule map_of_fill_nodes)
    show "entry k ns n \<in> set cm" "holds_slot (snd (entry k ns n)) i"
      using n d assms(2) by (auto simp: entry_holds_slot)
    show "\<forall>e \<in> set cm. holds_slot (snd e) i \<longrightarrow> fst e = fst (entry k ns n)"
      using u d assms(2) by (auto simp: entry_holds_slot)
  qed
  then show ?thesis using Some by (simp add: entry_def)
qed

text \<open>What the client relies on: the network connects, and a node answers \<open>CLUSTER NODES\<close> with
  the text of the nodes, cut into reads in any way.\<close>

locale cluster_net =
  fixes net :: "'w net" and ns :: "node list"
  assumes accepts: "fst (net_connect net s ip port w)"
    and answers: "\<exists>w1 ds later w2. net_send net s (enc_request [''cluster'', ''nodes'']) w = (True, w1)
      \<and> net_reads net s w1 = (map Some ds @ later, w2) \<and> delivers ds (text_reply ns)"
begin

lemma connects:
  assumes "p_heap p k = Some r"
  obtains w' where "conn_connect net k p w = Inr (True, w')"
  using accepts [of "sock_of p k" "m_serverIp r" "m_serverPort r" w] assms that
  by (cases "net_connect net (sock_of p k) (m_serverIp r) (m_serverPort r) w") (simp add: conn_connect_def)

lemma ask_cluster_nodes:
  assumes "topology_ok ns" "p_heap p k = Some r"
  obtains w' where "conn_command net p k (fst cluster_nodes_cmd) 30 COMMON_PARSER empty_reply w
    = Inr (True, reply_of (text_reply ns), w')"
proof -
  obtain wc where "conn_connect net k p w = Inr (True, wc)" by (rule connects [OF assms(2)])
  then obtain w0 where up: "(if net_alive net (sock_of p k) w then Inr (True, w) else conn_connect net k p w)
      = Inr (True, w0)" by (cases "net_alive net (sock_of p k) w") simp_all
  obtain w1 ds later w2 where a: "net_send net (sock_of p k) (enc_request [''cluster'', ''nodes'']) w0 = (True, w1)"
    "net_reads net (sock_of p k) w1 = (map Some ds @ later, w2)" "delivers ds (text_reply ns)"
    using answers by blast
  have b: "length (enc_resp (text_reply ns)) < 2 ^ 30" using assms(1) by (simp add: topology_ok_def)
  then have "length (nodes_text ns) < 2 ^ 30" by (simp add: text_reply_def)
  then have "reply_fits (text_reply ns)"
    using b by (simp add: reply_fits_def text_reply_def int32_max_def)
  with a(3) have r: "recv empty_reply (map Some ds @ later) = Inr (reply_of (text_reply ns), True, later)"
    by (intro recv_delivers)
  have "createRedisCommand (fst (build CClusterNodes)) (nat (snd (build CClusterNodes)))
      = Inr (True, enc_request (args CClusterNodes))"
    by (rule build_request) (simp add: arg_small_def)
  moreover have "snd cluster_nodes_cmd = 30" by (simp add: cmd_unfold add_para_def no_paras_def)
  ultimately have c: "createRedisCommand (fst cluster_nodes_cmd) 30 = Inr (True, enc_request [''cluster'', ''nodes''])"
    by simp
  show thesis
    by (rule that [of w2]) (use assms(2) up a c r in \<open>simp add: conn_command_def recv_with_def\<close>)
qed

lemma getRedisClusterNodes_ok:
  assumes "topology_ok ns" "m_serverList c = (ip, port) # servers"
  obtains cm w' where "getRedisClusterNodes net c w
      = Inr (True, c\<lparr> cl_next := Suc (cl_next c), m_clusterMap := cm \<rparr>, w')"
    "set cm = entry (cl_connectionNum c) ns ` set ns" "distinct (map fst cm)"
proof -
  obtain p where n: "new_conn ip port (RedisCluster (cl_next c)) = (0, p)"
    and h: "p_heap p 0 = Some (RedisConnection ip port)"
    by (simp add: new_conn_def RedisCluster_def)
  obtain w1 where up: "conn_connect net 0 p w = Inr (True, w1)" by (rule connects [OF h])
  obtain w2 where cmd: "conn_command net p 0 (fst cluster_nodes_cmd) 30 COMMON_PARSER empty_reply w1
      = Inr (True, reply_of (text_reply ns), w2)"
    by (rule ask_cluster_nodes [OF assms(1) h])
  obtain cm where cm: "parseClusterInfo (cl_connectionNum c) (reply_of (text_reply ns)) [] = Inr (True, cm)"
    "set cm = entry (cl_connectionNum c) ns ` set ns" "distinct (map fst cm)"
    by (rule parseClusterInfo_text) (use assms(1) in \<open>auto simp: topology_ok_def\<close>)
  obtain q w3 where del: "delete_conn net 0 p w2 = Inr (q, w3)" using h by (simp add: delete_conn_def)
  have t: "replyType (reply_of (text_reply ns)) = REDIS_REPLY_STRING" by (simp add: text_reply_def)
  have "getRedisClusterNodes net c w = Inr (True, c\<lparr> cl_next := Suc (cl_next c), m_clusterMap := cm \<rparr>, w3)"
    unfolding getRedisClusterNodes_def assms(2) ask_servers.simps n
    by (simp add: Let_def up cmd del t cm(1))
  then show thesis using that cm(2,3) by blast
qed

end

lemma entry_simps:
  "fst (entry k ns n) = addr n" "clusterId (snd (entry k ns n)) = n_id n" "connectIp (snd (entry k ns n)) = n_ip n"
  "connectPort (snd (entry k ns n)) = n_port n" "connectionNum (snd (entry k ns n)) = k"
  "isMaster (snd (entry k ns n)) \<longleftrightarrow> n_master n = None"
  by (simp_all add: entry_def with_baks_def node_info_def)

lemma entry_baks:
  assumes "distinct (map addr ns)"
  shows "set (bakClusterList (snd (entry k ns n))) = addr ` {s \<in> set ns. n_master s = Some (n_id n)}"
proof -
  have "set (fold add_slave ns []) = (\<Union>s \<in> set ns. slave_entry s)"
    using fold_add_slave [OF assms, of "[]"] by simp
  then have "set (bakClusterList (snd (entry k ns n))) = fst ` {b \<in> (\<Union>s \<in> set ns. slave_entry s). n_id n = snd b}"
    by (simp add: entry_def with_baks_def node_info_def)
  also have "\<dots> = addr ` {s \<in> set ns. n_master s = Some (n_id n)}"
    by (force simp: slave_entry_def split: option.splits)
  finally show ?thesis .
qed

text \<open>What the client holds for a node.\<close>

definition linked :: "nat \<Rightarrow> node list \<Rightarrow> node \<Rightarrow> client \<Rightarrow> bool" where
  "linked k ns n c \<longleftrightarrow> (\<exists>info a p. getRedisClusterInfo c (addr n) = Some info \<and> clusterHandler info = Some a
     \<and> cl_pools c a = Some p \<and> pool_inv p \<and> m_clusterIp p = n_ip n \<and> m_clusterPort p = n_port n
     \<and> length (m_connections p) = k \<and> clusterId info = n_id n \<and> (isMaster info \<longleftrightarrow> n_master n = None)
     \<and> set (bakClusterList info) = addr ` {s \<in> set ns. n_master s = Some (n_id n)})"

lemma connected_linked:
  assumes "connected_to cm c c'" "set cm = entry k ns ` set ns" "distinct (map addr ns)" "n \<in> set ns"
  shows "linked k ns n c'"
proof -
  obtain info where e: "entry k ns n = (addr n, info)" by (simp add: entry_def)
  with assms(2,4) have "(addr n, info) \<in> set cm" by (metis image_eqI)
  then obtain a p where a: "map_of (m_clusterMap c') (addr n) = Some (info\<lparr> clusterHandler := Some a \<rparr>)"
    "cl_pools c' a = Some p" "filled info p"
    using assms(1) unfolding connected_to_def by blast
  show ?thesis unfolding linked_def getRedisClusterInfo_def
    by (rule exI [of _ "info\<lparr> clusterHandler := Some a \<rparr>"], rule exI [of _ a], rule exI [of _ p])
      (use a e entry_simps [of k ns n] entry_baks [OF assms(3), of k n] in \<open>simp add: filled_def\<close>)
qed

lemma cluster_start:
  assumes net: "cluster_net net ns" and ns: "topology_ok ns"
  obtains c cm e w' where "init net True CLUSTER_MODE ((ip, port) # servers) [] k [] RedisClient w = Inr (True, e, w')"
    "m_slotMap c = []" "connected_to cm c e" "set cm = entry k ns ` set ns" "m_clusterMap c = cm"
proof -
  define c where "c = RedisClient\<lparr> m_redisMode := CLUSTER_MODE, m_masterName := [], cl_connectionNum := k, m_passwd := [],
    m_serverList := (ip, port) # servers \<rparr>"
  have c: "m_serverList c = (ip, port) # servers" "cl_connectionNum c = k" "m_passwd c = []" "m_slotMap c = []"
    "m_checkClusterNodesThreadStarted c = False"
    by (simp_all add: c_def RedisClient_def)
  obtain cm w1 where cm: "getRedisClusterNodes net c w = Inr (True, c\<lparr> cl_next := Suc (cl_next c), m_clusterMap := cm \<rparr>, w1)"
    "set cm = entry k ns ` set ns" "distinct (map fst cm)"
    using cluster_net.getRedisClusterNodes_ok [OF net ns c(1), of w] c(2) by metis
  let ?d = "c\<lparr> cl_next := Suc (cl_next c), m_clusterMap := cm \<rparr>"
  obtain c' w2 where c': "init_nodes net cm ?d w1 = Inr (True, c', w2)" "connected_to cm ?d c'"
    using init_nodes_ok [OF cluster_net.accepts [OF net] _ cm(3), of ?d w1] c(3) by auto
  let ?e = "snd (StartCheckClusterThread True c')\<lparr> m_connected := True \<rparr>"
  have conn: "m_connected RedisClient = False" by (simp add: RedisClient_def)
  have st: "fst (StartCheckClusterThread True c')" by (simp add: StartCheckClusterThread_def)
  have "init net True CLUSTER_MODE ((ip, port) # servers) [] k [] RedisClient w = Inr (True, ?e, w2)"
    using cm(1) c'(1) conn
    by (simp add: init_def c_def [symmetric] Let_def initRedisCluster_def case_prod_beta st)
  then show thesis
    by (rule that [of ?e w2 ?d cm]) (use c c'(2) cm(2) in \<open>simp_all add: connected_to_def StartCheckClusterThread_def\<close>)
qed


text \<open>Two masters and a slave, on a network that is always up.\<close>

definition three_nodes :: "node list" where
  "three_nodes =
     [\<lparr> n_id = ''a1'', n_ip = ''10.0.0.1'', n_port = 7000, n_bus = 17000, n_myself = True, n_master = None,
        n_times = (0, 0, 1), n_slots = [(0, 5460), (5462, 8191)] \<rparr>,
      \<lparr> n_id = ''b2'', n_ip = ''10.0.0.2'', n_port = 7000, n_bus = 17000, n_myself = False, n_master = None,
        n_times = (0, 1426238316232, 2), n_slots = [(8192, 16383)] \<rparr>,
      \<lparr> n_id = ''c3'', n_ip = ''10.0.0.3'', n_port = 7001, n_bus = 17001, n_myself = False, n_master = Some ''a1'',
        n_times = (0, 1426238317741, 2), n_slots = [] \<rparr>]"

definition nodes_net :: "node list \<Rightarrow> unit net" where
  "nodes_net ns = \<lparr> net_time = (\<lambda>_. 0), net_alive = (\<lambda>_ _. True), net_connect = (\<lambda>_ _ _ w. (True, w)),
     net_send = (\<lambda>_ _ w. (True, w)), net_reads = (\<lambda>_ w. (map Some (cut (enc_resp (text_reply ns))), w)),
     net_close = (\<lambda>_ w. w) \<rparr>"

interpretation three: cluster_net "nodes_net three_nodes" three_nodes
proof unfold_locales
  have "enc_resp (text_reply three_nodes) \<noteq> []" by (simp add: text_reply_def)
  from cut_ok [OF this] have "delivers (cut (enc_resp (text_reply three_nodes))) (text_reply three_nodes)"
    by (simp add: delivers_def text_reply_def)
  then show "\<exists>w1 ds later w2. net_send (nodes_net three_nodes) s (enc_request [''cluster'', ''nodes'']) w = (True, w1)
      \<and> net_reads (nodes_net three_nodes) s w1 = (map Some ds @ later, w2) \<and> delivers ds (text_reply three_nodes)" for s w
    by (intro exI [of _ w] exI [of _ "cut (enc_resp (text_reply three_nodes))"] exI [of _ "[]"])
      (simp add: nodes_net_def)
qed (simp add: nodes_net_def)

lemma digit_chars:
  "digit_char 0 = CHR ''0''" "digit_char 1 = CHR ''1''" "digit_char 2 = CHR ''2''" "digit_char 3 = CHR ''3''"
  "digit_char 4 = CHR ''4''" "digit_char 5 = CHR ''5''" "digit_char 6 = CHR ''6''" "digit_char 7 = CHR ''7''"
  "digit_char 8 = CHR ''8''" "digit_char 9 = CHR ''9''"
  by code_simp+

lemma three_nodes_facts:
  "list_all node_ok three_nodes" "distinct (map addr three_nodes)"
  "list_all (\<lambda>n. distinct (map fst (n_slots n))) three_nodes"
  "length (enc_resp (text_reply three_nodes)) < 2 ^ 30" "three_nodes \<noteq> []"
  by (simp_all add: three_nodes_def node_ok_def hex_def is_digit_def REDIS_SLOT_NUM_def addr_def text_reply_def
      nodes_text_def node_line_def address_text_def flags_text_def master_text_def times_text_def range_text_def
      crlf_def show_nat.simps digit_chars)

lemma three_nodes_ok: "topology_ok three_nodes"
proof -
  have "\<forall>i. \<forall>n \<in> set three_nodes. \<forall>m \<in> set three_nodes. serves n i \<longrightarrow> serves m i \<longrightarrow> n = m"
    by (auto simp: three_nodes_def serves_def)
  then show ?thesis unfolding topology_ok_def using three_nodes_facts by blast
qed


end
