(* ===== verification/Keys_Props.thy ===== *)
theory Keys_Props
  imports Client_Keys Topology_Props
begin

text \<open>
  When \<open>scanKeys\<close> returns: against nodes whose scans come to an end it does, in \<open>SCAN_LOOP\<close>
  mode; in \<open>SCAN_NOLOOP\<close> mode it may ask the same question for ever.
\<close>

section \<open>A pool on a network that is up\<close>

lemma recreate_up:
  assumes "\<And>s ip port w. fst (net_connect net s ip port w)" "recreate net now i p w = Inr (a, p', w')"
  shows "a \<noteq> None"
proof -
  have up: "ok" if h: "conn_connect net c q v = Inr (ok, v')" for c q v ok v'
  proof -
    obtain x where "deref q c = Inr x" using h by (cases "deref q c") (simp_all add: conn_connect_def)
    with h have "net_connect net (sock_of q c) (m_serverIp x) (m_serverPort x) v = (ok, v')"
      by (simp add: conn_connect_def)
    then show ok using assms(1) [of "sock_of q c" "m_serverIp x" "m_serverPort x" v] by simp
  qed
  show ?thesis using assms(2) by (auto simp: recreate_def res_bind_Inr_iff new_conn_def split: if_splits dest: up)
qed

lemma getAvailableConnection_up:
  assumes up: "\<And>s ip port w. fst (net_connect net s ip port w)" and inv: "pool_inv p"
  obtains a p' w' where "getAvailableConnection net p w = Inr (a, p', w')" "pool_inv p'"
    "\<And>c. a = Some c \<Longrightarrow> c \<in> set (m_connections p')"
proof -
  let ?now = "net_time net w"
  obtain q w1 where q: "pool_inv q" "m_connections q = m_connections p"
    and step: "getAvailableConnection net p w =
     res_bind (find_conn m_available q (m_connections q)) (\<lambda>a.
     case a of
       Some i \<Rightarrow>
         res_bind (deref q (m_connections q ! i)) (\<lambda>r. Inr (Some (m_connections q ! i),
           set_conn (m_connections q ! i) (r\<lparr> m_available := False, m_connectTime := ?now \<rparr>) q, w1))
     | None \<Rightarrow>
         res_bind (find_conn (\<lambda>r. m_canRelease r \<and> stale ?now r) q (m_connections q)) (\<lambda>b.
         case b of Some i \<Rightarrow> recreate net ?now i q w1 | None \<Rightarrow> Inr (None, q, w1)))"
    using inv by (rule getAvailableConnection_step [of p net w]) blast
  have sub: "set (m_connections q) \<subseteq> dom (p_heap q)" using q(1) by (simp add: pool_inv_def)
  show thesis
  proof (rule find_conn_spec [OF sub, of m_available])
    fix i assume i: "find_conn m_available q (m_connections q) = Inr (Some i)" "i < length (m_connections q)"
    let ?c = "m_connections q ! i"
    have c: "?c \<in> set (m_connections q)" using i(2) by simp
    then obtain r where r: "p_heap q ?c = Some r" using sub by auto
    let ?p = "set_conn ?c (r\<lparr> m_available := False, m_connectTime := ?now \<rparr>) q"
    have "pool_inv ?p" by (rule pool_inv_set_conn [OF q(1)]) (use r in auto)
    moreover have "getAvailableConnection net p w = Inr (Some ?c, ?p, w1)" using step i(1) r by simp
    ultimately show thesis using c by (intro that) auto
  next
    assume none: "find_conn m_available q (m_connections q) = Inr None"
    show thesis
    proof (rule find_conn_spec [OF sub, of "\<lambda>r. m_canRelease r \<and> stale ?now r"])
      fix i assume i: "find_conn (\<lambda>r. m_canRelease r \<and> stale ?now r) q (m_connections q) = Inr (Some i)"
        "i < length (m_connections q)"
      have rec: "getAvailableConnection net p w = recreate net ?now i q w1" using step none i(1) by simp
      from pool_inv_recreate [OF q(1) i(2), of net ?now w1] obtain p' w' where
        p': "recreate net ?now i q w1 = Inr (Some (p_next q), p', w')" "pool_inv p'"
        "m_connections p' = (m_connections q)[i := p_next q]"
        using recreate_up [OF up] by blast
      have "p_next q \<in> set (m_connections p')" using p'(3) i(2) by (simp add: set_update_memI)
      with rec p' show thesis by (intro that) auto
    next
      assume "find_conn (\<lambda>r. m_canRelease r \<and> stale ?now r) q (m_connections q) = Inr None"
      then have "getAvailableConnection net p w = Inr (None, q, w1)" using step none by simp
      then show thesis using q(1) by (intro that) auto
    qed
  qed
qed

lemma new_conn_inv:
  "pool_inv p \<Longrightarrow> pool_inv (snd (new_conn ip port p)\<lparr> p_heap := (p_heap (snd (new_conn ip port p)))(p_next p := None) \<rparr>)"
  by (auto simp: pool_inv_def new_conn_def dom_def subset_iff less_Suc_eq_le intro: less_imp_le)

text \<open>One command through a pool, from what a connection makes of it.\<close>

lemma pool_command_up:
  assumes up: "\<And>s ip port w. fst (net_connect net s ip port w)" and inv: "pool_inv p"
    and cmd: "\<And>p c k w. p_heap p c = Some k \<Longrightarrow> \<exists>r w'. conn_command net p c paras len t empty_reply w = Inr (True, r, w') \<and> Q r"
  obtains r p' w' where "pool_command net paras len t empty_reply p w = Inr (True, r, p', w')" "Q r" "pool_inv p'"
proof -
  obtain a p1 w1 where g: "getAvailableConnection net p w = Inr (a, p1, w1)" "pool_inv p1"
    "\<And>c. a = Some c \<Longrightarrow> c \<in> set (m_connections p1)"
    by (rule getAvailableConnection_up [OF up inv]) blast
  show thesis
  proof (cases a)
    case (Some c)
    then have c: "c \<in> set (m_connections p1)" using g(3) by blast
    then obtain k where "p_heap p1 c = Some k" using g(2) by (auto simp: pool_inv_def)
    from cmd [OF this, of w1] obtain r w2 where r: "conn_command net p1 c paras len t empty_reply w1 = Inr (True, r, w2)" "Q r"
      by blast
    obtain k' where "releaseConnection net c p1 w2 = Inr (set_conn c (k'\<lparr> m_available := True \<rparr>) p1, w2)"
      "pool_inv (set_conn c (k'\<lparr> m_available := True \<rparr>) p1)"
      by (rule releaseConnection_ok [OF g(2) c])
    then show thesis using g(1) Some r by (intro that) (auto simp: pool_command_def)
  next
    case None
    let ?p = "snd (new_conn (m_clusterIp p1) (m_clusterPort p1) p1)"
    have n: "new_conn (m_clusterIp p1) (m_clusterPort p1) p1 = (p_next p1, ?p)" by (simp add: new_conn_def)
    have h: "p_heap ?p (p_next p1) = Some (RedisConnection (m_clusterIp p1) (m_clusterPort p1))"
      by (simp add: new_conn_def)
    obtain w2 where w2: "conn_connect net (p_next p1) ?p w1 = Inr (True, w2)"
      using up [of "sock_of ?p (p_next p1)"] h by (auto simp: conn_connect_def) (metis prod.collapse)
    from cmd [OF h, of w2] obtain r w3 where r: "conn_command net ?p (p_next p1) paras len t empty_reply w2 = Inr (True, r, w3)"
      "Q r" by blast
    have d: "delete_conn net (p_next p1) ?p w3 = Inr (?p\<lparr> p_heap := (p_heap ?p)(p_next p1 := None) \<rparr>,
        net_close net (sock_of ?p (p_next p1)) w3)"
      by (rule delete_conn_ok) (use h in auto)
    have "pool_command net paras len t empty_reply p w = Inr (True, r,
        ?p\<lparr> p_heap := (p_heap ?p)(p_next p1 := None) \<rparr>, net_close net (sock_of ?p (p_next p1)) w3)"
      using g(1) None w2 r(1) d by (simp add: pool_command_def new_conn_def Let_def)
    then show thesis using r(2) new_conn_inv [OF g(2)] by (intro that) auto
  qed
qed

section \<open>Scans that come to an end\<close>

text \<open>The nodes answer a SCAN with a cursor and keys in one read.  \<open>left\<close> is the number of calls
  a scan needs from a cursor on: unless the new cursor is 0 it is nearer to the end.\<close>

definition scan_fits :: "nat \<Rightarrow> string list \<Rightarrow> bool" where
  "scan_fits cursor keys \<longleftrightarrow> int cursor \<le> int32_max \<and> list_all scan_key_ok keys
     \<and> int (length keys) \<le> int32_max \<and> length (enc_scan cursor keys) < REDIS_READ_BUFF_SIZE"

lemma arg_small_nat: "int n \<le> int32_max \<Longrightarrow> arg_small (show_int (int n))"
  using show_nat_length_int32 [of n] by (simp add: arg_small_def show_int_of_nat)

text \<open>\<open>scan_answer net cursor R\<close>: a scan from \<open>cursor\<close> is answered with a cursor and keys in \<open>R\<close>.\<close>

definition scan_answer :: "'w net \<Rightarrow> nat \<Rightarrow> (nat \<Rightarrow> string list \<Rightarrow> bool) \<Rightarrow> bool" where
  "scan_answer net cursor R \<longleftrightarrow> (\<forall>s pat n w. \<exists>w1 w2 later cursor' keys.
      net_send net s (enc_request [''scan'', show_int (int cursor), ''MATCH'', pat, ''COUNT'', show_int n]) w = (True, w1)
      \<and> net_reads net s w1 = (Some (enc_scan cursor' keys) # later, w2) \<and> scan_fits cursor' keys \<and> R cursor' keys)"

lemma conn_scan:
  assumes up: "\<And>s ip port w. fst (net_connect net s ip port w)" and R: "scan_answer net cursor R"
    and h: "p_heap p k = Some x" and q: "arg_small (q @ ''*'')" and n: "int cursor \<le> int32_max"
  shows "\<exists>r w'. conn_command net p k (fst (scan_cmd (int cursor) q SCAN_COUNT SCAN_LOOP))
      (snd (scan_cmd (int cursor) q SCAN_COUNT SCAN_LOOP)) SCAN_PARSER empty_reply w = Inr (True, r, w')
    \<and> (\<exists>cursor' keys. r = scan_reply cursor' keys \<and> scan_fits cursor' keys \<and> R cursor' keys)"
proof -
  let ?k = "CScan (int cursor) q SCAN_COUNT SCAN_LOOP" and ?s = "sock_of p k"
  obtain wc where "conn_connect net k p w = Inr (True, wc)"
    using up [of ?s "m_serverIp x" "m_serverPort x" w] h
    by (cases "net_connect net ?s (m_serverIp x) (m_serverPort x) w") (simp add: conn_connect_def)
  then obtain w0 where w0: "(if net_alive net ?s w then Inr (True, w) else conn_connect net k p w) = Inr (True, w0)"
    by (cases "net_alive net ?s w") simp_all
  obtain w1 w2 later cursor' keys where s: "net_send net ?s (enc_request (args ?k)) w0 = (True, w1)"
    "net_reads net ?s w1 = (Some (enc_scan cursor' keys) # later, w2)" "scan_fits cursor' keys" "R cursor' keys"
    using R unfolding scan_answer_def by (simp only: args.simps ScanMode.distinct if_False) blast
  have "arg_small (show_int SCAN_COUNT)"
    using arg_small_nat [of 10000] by (simp add: SCAN_COUNT_def int32_max_def)
  then have small: "\<forall>v \<in> set (args ?k). arg_small v"
    using q arg_small_nat [OF n] by (simp add: arg_small_def)
  have len: "0 \<le> snd (scan_cmd (int cursor) q SCAN_COUNT SCAN_LOOP)" using build_fits_int [OF small] by simp
  have r: "recv_scan empty_reply (Some (enc_scan cursor' keys) # later) = Inr (scan_reply cursor' keys, True, later)"
    using s(3) unfolding scan_fits_def by (intro recv_scan_whole) simp_all
  have c: "createRedisCommand (fst (scan_cmd (int cursor) q SCAN_COUNT SCAN_LOOP))
      (nat (snd (scan_cmd (int cursor) q SCAN_COUNT SCAN_LOOP))) = Inr (True, enc_request (args ?k))"
    using build_request [OF small] by (simp only: build.simps)
  have "conn_command net p k (fst (scan_cmd (int cursor) q SCAN_COUNT SCAN_LOOP))
      (snd (scan_cmd (int cursor) q SCAN_COUNT SCAN_LOOP)) SCAN_PARSER empty_reply w = Inr (True, scan_reply cursor' keys, w2)"
    using h w0 s(1,2) len c r by (simp add: conn_command_def recv_with_def del: args.simps)
  then show ?thesis using s(3,4) by blast
qed

lemma handler_scan:
  assumes up: "\<And>s ip port w. fst (net_connect net s ip port w)" and R: "scan_answer net cursor R"
    and a: "cl_pools c a = Some p" "pool_inv p" and q: "arg_small (q @ ''*'')" and n: "int cursor \<le> int32_max"
  obtains p' cursor' keys w' where "pool_inv p'" "int cursor' \<le> int32_max" "R cursor' keys"
    "handler_command net (scan_cmd (int cursor) q SCAN_COUNT SCAN_LOOP) SCAN_PARSER empty_reply (Some a) c w
      = Inr (True, scan_reply cursor' keys, c\<lparr> cl_pools := (cl_pools c)(a \<mapsto> p') \<rparr>, w')"
proof -
  obtain r p' w' where r: "pool_command net (fst (scan_cmd (int cursor) q SCAN_COUNT SCAN_LOOP))
      (snd (scan_cmd (int cursor) q SCAN_COUNT SCAN_LOOP)) SCAN_PARSER empty_reply p w = Inr (True, r, p', w')"
    "\<exists>cursor' keys. r = scan_reply cursor' keys \<and> scan_fits cursor' keys \<and> R cursor' keys" "pool_inv p'"
    by (rule pool_command_up [OF up a(2) conn_scan [OF up R _ q n]])
  from r(2) obtain cursor' keys where "r = scan_reply cursor' keys" "scan_fits cursor' keys" "R cursor' keys" by blast
  then show thesis using a(1) r(1,3)
    by (intro that [of p' cursor' keys w']) (simp_all add: handler_command_def scan_fits_def)
qed

text \<open>A client whose pools are well-formed and whose masters have one.\<close>

definition scan_target :: "RedisClusterInfo \<Rightarrow> bool" where
  "scan_target info \<longleftrightarrow> isMaster info \<and> isAlived info"

definition pools_ok :: "client \<Rightarrow> bool" where
  "pools_ok c \<longleftrightarrow> (\<forall>a p. cl_pools c a = Some p \<longrightarrow> pool_inv p)
     \<and> (\<forall>cid info. getRedisClusterInfo c cid = Some info \<longrightarrow> scan_target info \<longrightarrow>
          (\<exists>a. clusterHandler info = Some a \<and> cl_pools c a \<noteq> None)
          \<and> 0 \<le> scanCursor info \<and> scanCursor info \<le> int32_max)"

definition scan_done :: "client \<Rightarrow> string \<Rightarrow> bool" where
  "scan_done c cid \<longleftrightarrow> (\<forall>info. getRedisClusterInfo c cid = Some info \<longrightarrow> scan_target info \<longrightarrow> scanCursor info = 0)"

text \<open>The rounds the scan of a node may need.\<close>

definition rounds :: "(nat \<Rightarrow> nat) \<Rightarrow> client \<Rightarrow> string \<Rightarrow> nat" where
  "rounds left c cid = (case getRedisClusterInfo c cid of
     None \<Rightarrow> 0 | Some info \<Rightarrow> Suc (left (nat (scanCursor info))))"

lemma rounds_Some: "getRedisClusterInfo c cid = Some info \<Longrightarrow> rounds left c cid = Suc (left (nat (scanCursor info)))"
  by (simp add: rounds_def)

text \<open>The client after a node has answered.\<close>

definition scanned :: "string \<Rightarrow> RedisClusterInfo \<Rightarrow> nat \<Rightarrow> nat \<Rightarrow> pool \<Rightarrow> client \<Rightarrow> client" where
  "scanned cid info cursor a p c = c\<lparr> cl_pools := (cl_pools c)(a \<mapsto> p),
     m_clusterMap := map_insert cid (info\<lparr> scanCursor := int cursor \<rparr>) (m_clusterMap c) \<rparr>"

lemma scanned_info: "getRedisClusterInfo (scanned cid info cursor a p c) k
    = (if k = cid then Some (info\<lparr> scanCursor := int cursor \<rparr>) else getRedisClusterInfo c k)"
  by (simp add: getRedisClusterInfo_def scanned_def)

lemma scanned_ok:
  assumes "pools_ok c" "getRedisClusterInfo c cid = Some info" "scan_target info" "clusterHandler info = Some a"
    "pool_inv p" "int cursor \<le> int32_max"
  shows "pools_ok (scanned cid info cursor a p c)"
proof -
  have "(\<exists>b. clusterHandler info' = Some b \<and> cl_pools (scanned cid info cursor a p c) b \<noteq> None)
      \<and> 0 \<le> scanCursor info' \<and> scanCursor info' \<le> int32_max"
    if k: "getRedisClusterInfo (scanned cid info cursor a p c) k = Some info'" "scan_target info'" for k info'
  proof (cases "k = cid")
    case True
    then have "info' = info\<lparr> scanCursor := int cursor \<rparr>" using k(1) by (simp add: scanned_info)
    then show ?thesis using assms(4,6) by (simp add: scanned_def)
  next
    case False
    then have "getRedisClusterInfo c k = Some info'" using k(1) by (simp add: scanned_info)
    then obtain b where "clusterHandler info' = Some b" "cl_pools c b \<noteq> None"
      "0 \<le> scanCursor info'" "scanCursor info' \<le> int32_max" using assms(1) k(2) unfolding pools_ok_def by blast
    then show ?thesis by (auto simp: scanned_def)
  qed
  moreover have "pool_inv q" if "cl_pools (scanned cid info cursor a p c) b = Some q" for b q
    using that assms(1,5) by (auto simp: scanned_def pools_ok_def split: if_splits)
  ultimately show ?thesis unfolding pools_ok_def by blast
qed

lemma take_scan_reply:
  assumes "getRedisClusterInfo c cid = Some info"
  shows "\<exists>ks. take_scan cid (scan_reply cursor keys') keys (c\<lparr> cl_pools := (cl_pools c)(a \<mapsto> p) \<rparr>)
    = (keys @ ks, int cursor, scanned cid info cursor a p c)"
  using assms
  by (simp add: take_scan_def parseScanKeysReply_def scan_reply_def updateClusterCursor_def scanned_def
      getRedisClusterInfo_def)

text \<open>The scan of some nodes has returned: there are enough keys, or their scans are complete.\<close>

definition scan_ends :: "nat \<Rightarrow> string list \<Rightarrow> client \<Rightarrow> (string list \<times> client \<times> 'w) option res \<Rightarrow> bool" where
  "scan_ends count cids c res \<longleftrightarrow> (\<exists>keys' c' w'. res = Inr (Some (keys', c', w'))
     \<and> (count \<le> length keys' \<or> (\<forall>cid \<in> set cids. scan_done c' cid))
     \<and> (\<forall>k. k \<notin> set cids \<longrightarrow> getRedisClusterInfo c' k = getRedisClusterInfo c k))"

lemma scan_ends_enough:
  "count \<le> length keys \<Longrightarrow> \<forall>k. k \<notin> set cids \<longrightarrow> getRedisClusterInfo c1 k = getRedisClusterInfo c k
   \<Longrightarrow> scan_ends count cids c (Inr (Some (keys, c1, w)))"
  by (simp add: scan_ends_def)

lemma scan_ends_same:
  assumes "scan_ends count cids c1 res" "\<forall>k. k \<notin> set cids \<longrightarrow> getRedisClusterInfo c1 k = getRedisClusterInfo c k"
  shows "scan_ends count cids c res"
  using assms unfolding scan_ends_def by fastforce

lemma scan_ends_next:
  assumes "scan_ends count rest c1 res" "cid \<notin> set rest" "scan_done c1 cid"
    "\<forall>k. k \<noteq> cid \<longrightarrow> getRedisClusterInfo c1 k = getRedisClusterInfo c k"
  shows "scan_ends count (cid # rest) c res"
proof -
  obtain keys' c' w' where r: "res = Inr (Some (keys', c', w'))" "count \<le> length keys' \<or> (\<forall>cid \<in> set rest. scan_done c' cid)"
    "\<forall>k. k \<notin> set rest \<longrightarrow> getRedisClusterInfo c' k = getRedisClusterInfo c1 k"
    using assms(1) unfolding scan_ends_def by blast
  have "scan_done c' cid" using r(3) assms(2,3) by (simp add: scan_done_def)
  then show ?thesis unfolding scan_ends_def using r assms(4) by auto
qed

text \<open>The nodes answer a SCAN in one read.  \<open>left\<close> is the number of calls a scan needs from a
  cursor on: unless the new cursor is 0 it is nearer to the end.\<close>

locale scan_net =
  fixes net :: "'w net" and left :: "nat \<Rightarrow> nat"
  assumes accepts: "fst (net_connect net s ip port w)"
    and scans: "scan_answer net cursor (\<lambda>cursor' keys. cursor' \<noteq> 0 \<longrightarrow> left cursor' < left cursor)"
begin

lemma scan_nodes_step:
  assumes "pools_ok c" "getRedisClusterInfo c cid = Some info" "scan_target info" "arg_small (q @ ''*'')"
  obtains a p cursor ks w' where "pools_ok (scanned cid info cursor a p c)"
    "cursor \<noteq> 0 \<longrightarrow> left cursor < left (nat (scanCursor info))"
    "scan_nodes (Suc n) net q count SCAN_LOOP (cid # rest) keys c w =
      (if length (keys @ ks) \<ge> count then Inr (Some (keys @ ks, scanned cid info cursor a p c, w'))
       else if cursor \<noteq> 0 then scan_nodes n net q count SCAN_LOOP (cid # rest) (keys @ ks) (scanned cid info cursor a p c) w'
       else scan_nodes n net q count SCAN_LOOP rest (keys @ ks) (scanned cid info cursor a p c) w')"
proof -
  obtain a q0 where a: "clusterHandler info = Some a" "cl_pools c a = Some q0" "pool_inv q0"
    and cur: "0 \<le> scanCursor info" "scanCursor info \<le> int32_max"
    using assms(1-3) unfolding pools_ok_def by blast
  have n: "int (nat (scanCursor info)) = scanCursor info" using cur by simp
  obtain p cursor ks0 w1 where h: "pool_inv p" "int cursor \<le> int32_max"
    "cursor \<noteq> 0 \<longrightarrow> left cursor < left (nat (scanCursor info))"
    "handler_command net (scan_cmd (scanCursor info) q SCAN_COUNT SCAN_LOOP) SCAN_PARSER empty_reply
      (Some a) c w = Inr (True, scan_reply cursor ks0, c\<lparr> cl_pools := (cl_pools c)(a \<mapsto> p) \<rparr>, w1)"
    using handler_scan [OF accepts scans a(2,3) assms(4), of "nat (scanCursor info)" w thesis] cur(2) unfolding n by blast
  obtain ks where ks: "take_scan cid (scan_reply cursor ks0) keys (c\<lparr> cl_pools := (cl_pools c)(a \<mapsto> p) \<rparr>)
      = (keys @ ks, int cursor, scanned cid info cursor a p c)" using take_scan_reply [OF assms(2)] by blast
  show thesis
    by (rule that [of cursor a p ks w1])
      (use h a(1) assms(2,3) scanned_ok [OF assms(1-3) a(1) h(1,2)] in \<open>simp_all add: scan_target_def ks\<close>)
qed

lemma scan_nodes_returns:
  assumes "arg_small (q @ ''*'')"
  shows "pools_ok c \<Longrightarrow> distinct cids \<Longrightarrow> \<forall>cid \<in> set cids. getRedisClusterInfo c cid \<noteq> None
    \<Longrightarrow> sum_list (map (rounds left c) cids) < n
    \<Longrightarrow> scan_ends count cids c (scan_nodes n net q count SCAN_LOOP cids keys c w)"
proof (induction n arbitrary: cids keys c w)
  case (Suc n)
  show ?case
  proof (cases cids)
    case Nil
    then show ?thesis by (simp add: scan_ends_def)
  next
    case (Cons cid rest)
    then obtain info where info: "getRedisClusterInfo c cid = Some info" using Suc.prems(3) by auto
    have new: "cid \<notin> set rest" "distinct rest" using Suc.prems(2) Cons by auto
    have rest: "sum_list (map (rounds left c) rest) < n" using Suc.prems(4) Cons by (simp add: rounds_Some [OF info])
    have there: "\<forall>k \<in> set rest. getRedisClusterInfo c k \<noteq> None" using Suc.prems(3) Cons by simp
    show ?thesis
    proof (cases "scan_target info")
      case False
      then have "scan_done c cid" using info by (simp add: scan_done_def)
      with Suc.IH [OF Suc.prems(1) new(2) there rest, of keys w] False show ?thesis
        using Cons info new(1) by (auto simp: scan_target_def scan_ends_enough intro: scan_ends_next)
    next
      case True
      obtain a p cursor ks w' where s: "pools_ok (scanned cid info cursor a p c)"
        "cursor \<noteq> 0 \<longrightarrow> left cursor < left (nat (scanCursor info))"
        and step: "scan_nodes (Suc n) net q count SCAN_LOOP (cid # rest) keys c w =
          (if length (keys @ ks) \<ge> count then Inr (Some (keys @ ks, scanned cid info cursor a p c, w'))
           else if cursor \<noteq> 0 then scan_nodes n net q count SCAN_LOOP (cid # rest) (keys @ ks) (scanned cid info cursor a p c) w'
           else scan_nodes n net q count SCAN_LOOP rest (keys @ ks) (scanned cid info cursor a p c) w')"
        by (rule scan_nodes_step [OF Suc.prems(1) info True assms])
      let ?c = "scanned cid info cursor a p c"
      have same: "sum_list (map (rounds left ?c) rest) = sum_list (map (rounds left c) rest)"
        using new(1) by (intro arg_cong [of _ _ sum_list]) (auto simp: rounds_def scanned_info)
      have there': "\<forall>k \<in> set (cid # rest). getRedisClusterInfo ?c k \<noteq> None" using there by (auto simp: scanned_info)
      have frame: "\<forall>k. k \<noteq> cid \<longrightarrow> getRedisClusterInfo ?c k = getRedisClusterInfo c k" by (simp add: scanned_info)
      have "scan_ends count (cid # rest) c (scan_nodes n net q count SCAN_LOOP (cid # rest) (keys @ ks) ?c w')"
        if "cursor \<noteq> 0"
      proof (rule scan_ends_same)
        have "rounds left ?c cid = Suc (left cursor)" by (simp add: rounds_def scanned_info)
        then show "scan_ends count (cid # rest) ?c (scan_nodes n net q count SCAN_LOOP (cid # rest) (keys @ ks) ?c w')"
          using Suc.prems(2,4) Cons s(2) that same
          by (intro Suc.IH [OF s(1) _ there']) (simp_all add: rounds_Some [OF info])
      qed (use frame in simp)
      moreover have "scan_ends count (cid # rest) c (scan_nodes n net q count SCAN_LOOP rest (keys @ ks) ?c w')"
        if "cursor = 0"
      proof (rule scan_ends_next)
        show "scan_ends count rest ?c (scan_nodes n net q count SCAN_LOOP rest (keys @ ks) ?c w')"
          by (rule Suc.IH [OF s(1) new(2)]) (use there' rest same in simp_all)
        show "scan_done ?c cid" using that by (simp add: scan_done_def scanned_info)
      qed (use new(1) frame in simp_all)
      ultimately show ?thesis unfolding Cons step using frame by (auto intro: scan_ends_enough)
    qed
  qed
qed simp

end

section \<open>Properties\<close>


text \<open>A node whose first answer has no key, only a cursor: the key is found from there.\<close>

definition sparse_reply :: "bytes \<Rightarrow> nat \<times> string list" where
  "sparse_reply b =
     (case dec_request b of
        Some (_ # cursor # _) \<Rightarrow>
          if cursor = ''0'' then (17, []) else if cursor = ''17'' then (0, [''gbddr1'']) else (0, [])
      | _ \<Rightarrow> (0, []))"

definition sparse_net :: "bytes net" where
  "sparse_net = \<lparr> net_time = (\<lambda>_. 0), net_alive = (\<lambda>_ _. True), net_connect = (\<lambda>_ _ _ w. (True, w)),
     net_send = (\<lambda>_ b _. (True, b)),
     net_reads = (\<lambda>_ b. ([Some (enc_scan (fst (sparse_reply b)) (snd (sparse_reply b)))], b)),
     net_close = (\<lambda>_ w. w) \<rparr>"

definition sparse_client :: client where
  "sparse_client = RedisClient\<lparr> m_redisMode := CLUSTER_MODE,
     m_clusterMap := [(''10.0.0.1:7000'', empty_info\<lparr> isMaster := True, isAlived := True, clusterHandler := Some 0 \<rparr>)],
     cl_pools := [0 \<mapsto> RedisCluster 0] \<rparr>"

lemma sparse_fits: "scan_fits 17 []" "scan_fits 0 [''gbddr1'']" "scan_fits 0 []"
proof -
  have "length (enc_scan 17 []) < REDIS_READ_BUFF_SIZE" "length (enc_scan 0 [''gbddr1'']) < REDIS_READ_BUFF_SIZE"
    "length (enc_scan 0 []) < REDIS_READ_BUFF_SIZE" by code_simp+
  then show "scan_fits 17 []" "scan_fits 0 [''gbddr1'']" "scan_fits 0 []"
    by (simp_all add: scan_fits_def int32_max_def scan_key_ok_def line_ok_def scan_buf_size_def)
qed

lemma sparse_answer:
  "(let (cursor', keys) = sparse_reply (enc_request [''scan'', show_int (int cursor), ''MATCH'', pat, ''COUNT'', n])
    in scan_fits cursor' keys \<and> (cursor' \<noteq> 0 \<longrightarrow> cursor = 0))"
proof -
  have "cursor = 0" if "show_int (int cursor) = ''0''"
  proof -
    have "int cursor = read_signed ''0''" using read_signed_show_int [of "int cursor"] that by simp
    then show ?thesis by (simp add: is_digit_def)
  qed
  then show ?thesis using sparse_fits by (auto simp: sparse_reply_def dec_enc_request)
qed

interpretation sparse: scan_net sparse_net "\<lambda>cursor. if cursor = 0 then 2 else 1"
proof unfold_locales
  show "scan_answer sparse_net cursor (\<lambda>cursor' keys. cursor' \<noteq> 0 \<longrightarrow>
      (if cursor' = 0 then 2 else 1 :: nat) < (if cursor = 0 then 2 else 1))" for cursor
    unfolding scan_answer_def
  proof (intro allI)
    fix s pat n w
    let ?b = "enc_request [''scan'', show_int (int cursor), ''MATCH'', pat, ''COUNT'', show_int n]"
    show "\<exists>w1 w2 later cursor' keys. net_send sparse_net s ?b w = (True, w1)
        \<and> net_reads sparse_net s w1 = (Some (enc_scan cursor' keys) # later, w2) \<and> scan_fits cursor' keys
        \<and> (cursor' \<noteq> 0 \<longrightarrow> (if cursor' = 0 then 2 else 1 :: nat) < (if cursor = 0 then 2 else 1))"
      by (rule exI [of _ ?b], rule exI [of _ ?b], rule exI [of _ "[]"], rule exI [of _ "fst (sparse_reply ?b)"],
          rule exI [of _ "snd (sparse_reply ?b)"])
        (use sparse_answer [of cursor pat "show_int n"] in \<open>simp add: sparse_net_def case_prod_beta\<close>)
  qed
qed (simp add: sparse_net_def)

lemma sparse_client_ok: "pools_ok sparse_client" "distinct (map fst (m_clusterMap sparse_client))"
  "m_clusterMap sparse_client = [(''10.0.0.1:7000'', empty_info\<lparr> isMaster := True, isAlived := True, clusterHandler := Some 0 \<rparr>)]"
  by (auto simp: pools_ok_def sparse_client_def getRedisClusterInfo_def empty_info_def RedisClient_def int32_max_def
      split: if_splits)


lemma sparse_first: "scan_answer sparse_net 0 (\<lambda>cursor' keys. cursor' = 17 \<and> keys = [])"
  using sparse_fits(1)
  by (simp add: scan_answer_def sparse_net_def sparse_reply_def dec_enc_request show_int_def show_nat.simps
      digit_chars)

lemma scan_noloop_cmd: "scan_cmd cursor q n SCAN_NOLOOP = scan_cmd (int 0) q n SCAN_LOOP"
  by (simp add: scan_cmd_def)

lemma sparse_noloop:
  "pools_ok c \<Longrightarrow> getRedisClusterInfo c cid = Some info \<Longrightarrow> scan_target info
   \<Longrightarrow> scan_nodes n sparse_net ''gb'' 1 SCAN_NOLOOP [cid] [] c w = Inr None"
proof (induction n arbitrary: c info w)
  case (Suc n)
  obtain a q where a: "clusterHandler info = Some a" "cl_pools c a = Some q" "pool_inv q"
    using Suc.prems unfolding pools_ok_def by blast
  have q: "arg_small (''gb'' @ ''*'')" "int 0 \<le> int32_max" by (simp_all add: arg_small_def int32_max_def)
  obtain p w' where h: "pool_inv p"
    "handler_command sparse_net (scan_cmd (int 0) ''gb'' SCAN_COUNT SCAN_LOOP) SCAN_PARSER empty_reply (Some a) c w
      = Inr (True, scan_reply 17 [], c\<lparr> cl_pools := (cl_pools c)(a \<mapsto> p) \<rparr>, w')"
    using handler_scan [OF sparse.accepts sparse_first a(2,3) q, of w] by metis
  let ?c = "scanned cid info 17 a p c"
  have "take_scan cid (scan_reply 17 []) [] (c\<lparr> cl_pools := (cl_pools c)(a \<mapsto> p) \<rparr>) = ([], 17, ?c)"
    using Suc.prems(2)
    by (simp add: take_scan_def parseScanKeysReply_def scan_reply_def string_elems_def updateClusterCursor_def
        scanned_def getRedisClusterInfo_def)
  then have "scan_nodes (Suc n) sparse_net ''gb'' 1 SCAN_NOLOOP [cid] [] c w
      = scan_nodes n sparse_net ''gb'' 1 SCAN_NOLOOP [cid] [] ?c w'"
    using Suc.prems(2,3) a(1) h(2) by (simp add: scan_target_def scan_noloop_cmd)
  also have "\<dots> = Inr None"
    by (rule Suc.IH [of _ "info\<lparr> scanCursor := 17 \<rparr>"])
      (use Suc.prems a(1) h(1) scanned_ok [of c cid info a p 17] in
        \<open>simp_all add: scanned_info scan_target_def int32_max_def\<close>)
  finally show ?case .
qed simp

text \<open>
  In \<open>SCAN_NOLOOP\<close> mode \<open>scanKeys\<close> can ask for ever: every request starts at cursor 0, but the loop
  goes on as long as the node returns another cursor, so a node that has no matching key among the
  first ones is asked the same question without end.
\<close>

lemma scan_noloop_spins: "scanKeys n sparse_net ''gb'' 1 SCAN_NOLOOP [] sparse_client w = Inr None"
proof -
  have "getRedisClusterInfo sparse_client ''10.0.0.1:7000''
      = Some (empty_info\<lparr> isMaster := True, isAlived := True, clusterHandler := Some 0 \<rparr>)"
    by (simp add: getRedisClusterInfo_def sparse_client_ok(3))
  then have "scan_nodes n sparse_net ''gb'' 1 SCAN_NOLOOP [''10.0.0.1:7000''] [] sparse_client w = Inr None"
    by (rule sparse_noloop [OF sparse_client_ok(1)]) (simp add: scan_target_def)
  then show ?thesis by (simp add: scanKeys_def sparse_client_ok(3))
qed

end
