(* ===== verification/Topology_Inv.thy ===== *)
theory Topology_Inv
  imports Topology_Props
begin

text \<open>
  The well-formedness of the topology a cluster client holds, which every step of the thread that
  follows changes preserves: every node has a pool, no pool has two owners, a pool that is freed has
  no owner left, and every slot leads to a node that is known.
\<close>

section \<open>Sorted maps\<close>

lemma str_less_irrefl [simp]: "\<not> str_less s s"
  by (induction s) auto

lemma str_less_trans: "str_less s t \<Longrightarrow> str_less t u \<Longrightarrow> str_less s u"
proof (induction s t arbitrary: u rule: str_less.induct)
  case (2 y ys)
  then show ?case by (cases u) auto
next
  case (3 x xs y ys)
  then show ?case by (cases u) (auto split: if_splits)
qed simp

lemma str_less_total: "s \<noteq> t \<Longrightarrow> str_less s t \<or> str_less t s"
proof (induction s t rule: str_less.induct)
  case (1 s)
  then show ?case by (cases s) auto
next
  case (3 x xs y ys)
  show ?case
  proof (cases "x = y")
    case True
    then show ?thesis using 3 by simp
  next
    case False
    then have "(of_char x :: nat) < of_char y \<or> (of_char y :: nat) < of_char x"
      by (metis char_of_char linorder_neqE_nat)
    then show ?thesis using False by auto
  qed
qed simp

definition sorted_map :: "(string \<times> 'v) list \<Rightarrow> bool" where
  "sorted_map m \<longleftrightarrow> sorted_wrt str_less (map fst m)"

lemma sorted_map_simps [simp]:
  "sorted_map []" "sorted_map ((k, v) # m) \<longleftrightarrow> (\<forall>k' \<in> fst ` set m. str_less k k') \<and> sorted_map m"
  by (auto simp: sorted_map_def)

lemma sorted_map_distinct: "sorted_map m \<Longrightarrow> distinct (map fst m)"
  by (induction m) fastforce+

lemma sorted_map_insert: "sorted_map m \<Longrightarrow> sorted_map (map_insert k v m)"
proof (induction k v m rule: map_insert.induct)
  case (2 k v k' v' es)
  have "str_less k' k" if "k \<noteq> k'" "\<not> str_less k k'" using that str_less_total by blast
  then show ?case using 2 by (auto intro: str_less_trans)
qed simp

lemma sorted_map_filter: "sorted_map m \<Longrightarrow> sorted_map (filter P m)"
  by (induction m) auto

lemma map_of_filter_keys: "map_of (filter (\<lambda>(k, _). P k) m) k = (if P k then map_of m k else None)"
  by (induction m) auto

lemma map_of_insert_all:
  assumes "distinct (map fst xs)"
  shows "map_of (fold (\<lambda>(k, v). map_insert k (f v)) xs m) k
    = (case map_of xs k of Some v \<Rightarrow> Some (f v) | None \<Rightarrow> map_of m k)"
  using assms
proof (induction xs arbitrary: m)
  case (Cons x xs)
  obtain k' v' where x: "x = (k', v')" by (cases x)
  have "map_of xs k' = None" using Cons.prems x by (simp add: map_of_eq_None_iff)
  then show ?case using Cons x by (auto split: option.splits)
qed simp

lemma sorted_insert_all: "sorted_map m \<Longrightarrow> sorted_map (fold (\<lambda>(k, v). map_insert k (f v)) xs m)"
  by (induction xs arbitrary: m) (auto simp: sorted_map_insert)

section \<open>The invariant\<close>

text \<open>The pool of a node (\<open>Inl\<close>), or of a node that is gone (\<open>Inr\<close>).\<close>

fun pool_of :: "client \<Rightarrow> string + string \<Rightarrow> nat option" where
  "pool_of c (Inl cid) = Option.bind (map_of (m_clusterMap c) cid) clusterHandler"
| "pool_of c (Inr cid) = Option.bind (map_of (m_unusedHandlers c) cid) (\<lambda>h. h)"

fun has_entry :: "client \<Rightarrow> string + string \<Rightarrow> bool" where
  "has_entry c (Inl cid) \<longleftrightarrow> map_of (m_clusterMap c) cid \<noteq> None"
| "has_entry c (Inr cid) \<longleftrightarrow> map_of (m_unusedHandlers c) cid \<noteq> None"

definition topology_inv :: "client \<Rightarrow> bool" where
  "topology_inv c \<longleftrightarrow> sorted_map (m_clusterMap c) \<and> sorted_map (m_unusedHandlers c)
     \<and> (\<forall>a \<in> dom (cl_pools c). a < cl_next c)
     \<and> (\<forall>x. has_entry c x \<longrightarrow> (\<exists>a \<in> dom (cl_pools c). pool_of c x = Some a))
     \<and> (\<forall>x y a. pool_of c x = Some a \<longrightarrow> pool_of c y = Some a \<longrightarrow> x = y)
     \<and> (\<forall>i cid. map_of (m_slotMap c) i = Some cid \<longrightarrow> map_of (m_clusterMap c) cid \<noteq> None)"

lemma topology_invD:
  assumes "topology_inv c"
  shows "sorted_map (m_clusterMap c)" "sorted_map (m_unusedHandlers c)" "a \<in> dom (cl_pools c) \<Longrightarrow> a < cl_next c"
    "has_entry c x \<Longrightarrow> \<exists>a \<in> dom (cl_pools c). pool_of c x = Some a"
    "pool_of c x = Some a \<Longrightarrow> pool_of c y = Some a \<Longrightarrow> x = y"
    "map_of (m_slotMap c) i = Some cid \<Longrightarrow> map_of (m_clusterMap c) cid \<noteq> None"
  using assms unfolding topology_inv_def by blast+

lemma topology_invI:
  assumes "sorted_map (m_clusterMap c)" "sorted_map (m_unusedHandlers c)" "\<And>a. a \<in> dom (cl_pools c) \<Longrightarrow> a < cl_next c"
    "\<And>x. has_entry c x \<Longrightarrow> \<exists>a \<in> dom (cl_pools c). pool_of c x = Some a"
    "\<And>x y a. pool_of c x = Some a \<Longrightarrow> pool_of c y = Some a \<Longrightarrow> x = y"
    "\<And>i cid. map_of (m_slotMap c) i = Some cid \<Longrightarrow> map_of (m_clusterMap c) cid \<noteq> None"
  shows "topology_inv c"
  unfolding topology_inv_def using assms by (intro conjI ballI allI impI)

lemma pool_of_entry: "pool_of c x = Some a \<Longrightarrow> has_entry c x"
  by (cases x) (auto simp: bind_eq_Some_conv)

lemma pool_of_dom: "topology_inv c \<Longrightarrow> pool_of c x = Some a \<Longrightarrow> a \<in> dom (cl_pools c)"
  using topology_invD(4) pool_of_entry by fastforce

text \<open>Steps that change pools but not which there are.\<close>

lemma inv_same_pools:
  assumes "topology_inv c" "m_clusterMap c' = m_clusterMap c" "m_unusedHandlers c' = m_unusedHandlers c"
    "m_slotMap c' = m_slotMap c" "cl_next c' = cl_next c" "dom (cl_pools c') = dom (cl_pools c)"
  shows "topology_inv c'"
proof -
  have "has_entry c' x = has_entry c x" "pool_of c' x = pool_of c x" for x
    using assms(2,3) by (cases x; simp)+
  then show ?thesis using assms(1) unfolding topology_inv_def assms(2-6) by simp
qed

lemma handler_command_pools:
  assumes "handler_command net cmd t r h c w = Inr (ok, r', c', w')"
  obtains a p p' where "cl_pools c a = Some p" "c' = c\<lparr> cl_pools := (cl_pools c)(a \<mapsto> p') \<rparr>"
  using assms by (auto simp: handler_command_def res_bind_Inr_iff split: option.splits)

lemma handler_command_inv:
  assumes "handler_command net cmd t r h c w = Inr (ok, r', c', w')" "topology_inv c"
  shows "topology_inv c'"
  using assms(1)
proof (cases rule: handler_command_pools)
  case (1 a p p')
  show ?thesis by (rule inv_same_pools [OF assms(2)]) (use 1 in auto)
qed

section \<open>New nodes\<close>

lemma new_pool_inv:
  assumes inv: "topology_inv c" and c': "c' = c\<lparr> cl_next := Suc (cl_next c), cl_pools := (cl_pools c)(cl_next c \<mapsto> p) \<rparr>"
  shows "topology_inv c'" "\<And>x. pool_of c' x \<noteq> Some (cl_next c)" "cl_next c \<in> dom (cl_pools c')"
proof -
  have same: "has_entry c' x = has_entry c x" "pool_of c' x = pool_of c x" for x
    by (cases x; simp add: c')+
  have m: "m_clusterMap c' = m_clusterMap c" "m_unusedHandlers c' = m_unusedHandlers c" "m_slotMap c' = m_slotMap c"
    "cl_next c' = Suc (cl_next c)" "dom (cl_pools c') = insert (cl_next c) (dom (cl_pools c))"
    by (simp_all add: c')
  show "cl_next c \<in> dom (cl_pools c')" by (simp add: m(5))
  show "pool_of c' x \<noteq> Some (cl_next c)" for x
    unfolding same using pool_of_dom [OF inv, of x "cl_next c"] topology_invD(3) [OF inv, of "cl_next c"] by blast
  show "topology_inv c'"
  proof (rule topology_invI)
    show "a < cl_next c'" if "a \<in> dom (cl_pools c')" for a
      using that topology_invD(3) [OF inv, of a] unfolding m by fastforce
    show "\<exists>a \<in> dom (cl_pools c'). pool_of c' x = Some a" if "has_entry c' x" for x
      using topology_invD(4) [OF inv, of x] that unfolding same m by blast
    show "x = y" if "pool_of c' x = Some a" "pool_of c' y = Some a" for x y a
      using that unfolding same by (rule topology_invD(5) [OF inv])
    show "map_of (m_clusterMap c') cid \<noteq> None" if "map_of (m_slotMap c') i = Some cid" for i cid
      using that unfolding m by (rule topology_invD(6) [OF inv])
  qed (use topology_invD(1,2) [OF inv] in \<open>simp_all only: m\<close>)
qed

lemma set_node_inv_gen:
  assumes inv: "topology_inv c" and a: "clusterHandler info = Some a" "a \<in> dom (cl_pools c)"
    and own: "\<And>x. pool_of c x = Some a \<Longrightarrow> x = Inl cid"
    and s: "sorted_map (m_clusterMap d)"
    and k: "\<And>k. map_of (m_clusterMap d) k = (if k = cid then Some info else map_of (m_clusterMap c) k)"
    and m: "m_unusedHandlers d = m_unusedHandlers c" "cl_pools d = cl_pools c" "cl_next d = cl_next c"
      "m_slotMap d = fill_node (cid, info) (m_slotMap c)"
  shows "topology_inv d"
proof -
  have e: "has_entry d x \<longleftrightarrow> x = Inl cid \<or> has_entry c x" for x by (cases x) (auto simp: m k)
  have p: "pool_of d x = (if x = Inl cid then Some a else pool_of c x)" for x by (cases x) (auto simp: m k a(1))
  show ?thesis
  proof (rule topology_invI)
    show "sorted_map (m_clusterMap d)" by (rule s)
    show "sorted_map (m_unusedHandlers d)" using topology_invD(2) [OF inv] by (simp only: m)
    show "b < cl_next d" if "b \<in> dom (cl_pools d)" for b using topology_invD(3) [OF inv, of b] that by (simp only: m)
    show "\<exists>b \<in> dom (cl_pools d). pool_of d x = Some b" if "has_entry d x" for x
    proof (cases "x = Inl cid")
      case True
      then show ?thesis using a(2) unfolding p m(2) by simp
    next
      case False
      then show ?thesis using that topology_invD(4) [OF inv, of x] unfolding e p m(2) by simp
    qed
    show "x = y" if q: "pool_of d x = Some b" "pool_of d y = Some b" for x y b
    proof (cases "x = Inl cid \<or> y = Inl cid")
      case True
      then have "b = a" using q unfolding p by (auto split: if_splits)
      then show ?thesis using True q own [of x] own [of y] unfolding p by (auto split: if_splits)
    next
      case False
      then show ?thesis using q topology_invD(5) [OF inv, of x b y] unfolding p by simp
    qed
    show "map_of (m_clusterMap d) j \<noteq> None" if "map_of (m_slotMap d) i = Some j" for i j
    proof (cases "j = cid")
      case False
      then have "map_of (m_slotMap c) i = Some j" using that unfolding m map_of_fill_node by (simp split: if_splits)
      then show ?thesis using topology_invD(6) [OF inv, of i j] False by (simp add: k)
    qed (simp add: k)
  qed
qed

lemma set_node_inv:
  assumes "topology_inv c" "clusterHandler info = Some a" "a \<in> dom (cl_pools c)"
    "\<And>x. pool_of c x = Some a \<Longrightarrow> x = Inl cid"
  shows "topology_inv (fill_slots cid info (set_info cid info c))"
  by (rule set_node_inv_gen [OF assms])
    (simp_all add: fill_slots_eq set_info_def sorted_map_insert topology_invD(1) [OF assms(1)])

text \<open>The nodes in the slots are among \<open>K\<close>.\<close>

definition slots_in :: "string set \<Rightarrow> client \<Rightarrow> bool" where
  "slots_in K c \<longleftrightarrow> (\<forall>i cid. map_of (m_slotMap c) i = Some cid \<longrightarrow> cid \<in> K)"

lemma slots_in_set_node:
  "slots_in K c \<Longrightarrow> cid \<in> K \<Longrightarrow> slots_in K (fill_slots cid info (set_info cid info c))"
  by (auto simp: slots_in_def fill_slots_eq set_info_def map_of_fill_node split: if_splits)

lemma save_node_new:
  assumes "save_nodes net ((cid, info) # cm) c w = Inr (ok, c', w')" "getRedisClusterInfo c cid = None"
  obtains p i w1 where "clusterHandler i = Some (cl_next c)"
    "save_nodes net cm (fill_slots cid i (set_info cid i
       (c\<lparr> cl_next := Suc (cl_next c), cl_pools := (cl_pools c)(cl_next c \<mapsto> p) \<rparr>))) w1 = Inr (ok, c', w')
     \<or> c' = c\<lparr> cl_next := Suc (cl_next c), cl_pools := (cl_pools c)(cl_next c \<mapsto> p) \<rparr>"
proof -
  let ?i = "info\<lparr> clusterHandler := Some (cl_next c), connectionNum := cl_connectionNum c \<rparr>"
  let ?r = "initConnectPool net (connectIp info) (connectPort info) (cl_connectionNum c) (RedisCluster (cl_next c)) w"
  have "\<exists>up p w1. ?r = Inr (up, p, w1)"
    using assms by (cases ?r) (auto simp: new_pool_def with_pool_def Let_def)
  then obtain up p w1 where r: "?r = Inr (up, p, w1)" by blast
  from r assms have "(if up then save_nodes net cm (fill_slots cid ?i (set_info cid ?i
       (c\<lparr> cl_next := Suc (cl_next c), cl_pools := (cl_pools c)(cl_next c \<mapsto> p) \<rparr>))) w1
      else Inr (False, c\<lparr> cl_next := Suc (cl_next c), cl_pools := (cl_pools c)(cl_next c \<mapsto> p) \<rparr>, w1))
       = Inr (ok, c', w')"
    by (cases up) (simp_all add: new_pool_def with_pool_def Let_def)
  then show thesis using that [of ?i p w1] by (simp split: if_splits)
qed

lemma save_nodes_inv:
  assumes "save_nodes net cm c w = Inr (ok, c', w')" "topology_inv c" "slots_in K c" "fst ` set cm \<subseteq> K"
  shows "topology_inv c' \<and> slots_in K c'"
  using assms
proof (induction cm arbitrary: c w)
  case (Cons e cm)
  obtain cid info where e: "e = (cid, info)" by (cases e)
  have K: "cid \<in> K" "fst ` set cm \<subseteq> K" using Cons.prems(4) e by auto
  show ?case
  proof (cases "getRedisClusterInfo c cid")
    case (Some old)
    let ?i = "info\<lparr> clusterHandler := clusterHandler old, connectionNum := connectionNum old \<rparr>"
    have "has_entry c (Inl cid)" "pool_of c (Inl cid) = clusterHandler old"
      using Some by (simp_all add: getRedisClusterInfo_def)
    then obtain a where a: "clusterHandler old = Some a" "a \<in> dom (cl_pools c)" "pool_of c (Inl cid) = Some a"
      using topology_invD(4) [OF Cons.prems(2), of "Inl cid"] by auto
    have "clusterHandler ?i = Some a" using a(1) by simp
    then have "topology_inv (fill_slots cid ?i (set_info cid ?i c))"
      using set_node_inv [OF Cons.prems(2) _ a(2)] topology_invD(5) [OF Cons.prems(2) _ a(3)] by blast
    moreover have "save_nodes net cm (fill_slots cid ?i (set_info cid ?i c)) w = Inr (ok, c', w')"
      using Cons.prems(1) Some by (simp add: e Let_def)
    ultimately show ?thesis using Cons.IH slots_in_set_node [OF Cons.prems(3) K(1)] K(2) by blast
  next
    case None
    from Cons.prems(1) [unfolded e] None show ?thesis
    proof (cases rule: save_node_new)
      case (1 p i w1)
      let ?d = "c\<lparr> cl_next := Suc (cl_next c), cl_pools := (cl_pools c)(cl_next c \<mapsto> p) \<rparr>"
      note d = new_pool_inv [OF Cons.prems(2), of ?d p, OF refl]
      have s: "slots_in K ?d" using Cons.prems(3) by (simp add: slots_in_def)
      have "topology_inv (fill_slots cid i (set_info cid i ?d))"
        by (rule set_node_inv [OF d(1) 1(1) d(3)]) (use d(2) in blast)
      from 1(2) Cons.IH [OF _ this slots_in_set_node [OF s K(1)] K(2)] d(1) s show ?thesis by blast
    qed
  qed
qed simp

section \<open>Nodes that are gone\<close>

lemma retire_inv:
  assumes inv: "topology_inv c" and s: "slots_in (fst ` set cm) c"
  shows "topology_inv (retire cm c)"
proof -
  let ?d = "retire cm c"
  have m: "m_slotMap ?d = m_slotMap c" "cl_pools ?d = cl_pools c" "cl_next ?d = cl_next c"
    by (simp_all add: retire_def Let_def)
  have live: "map_of (m_clusterMap ?d) k = (if map_of cm k = None then None else map_of (m_clusterMap c) k)" for k
    by (simp add: retire_def Let_def map_of_filter_keys)
  have dist: "distinct (map fst (filter (\<lambda>(k, _). map_of cm k = None) (m_clusterMap c)))"
    by (rule sorted_map_distinct [OF sorted_map_filter [OF topology_invD(1) [OF inv]]])
  have gone: "map_of (m_unusedHandlers ?d) k =
    (case if map_of cm k = None then map_of (m_clusterMap c) k else None of
       Some i \<Rightarrow> Some (clusterHandler i) | None \<Rightarrow> map_of (m_unusedHandlers c) k)" for k
    unfolding retire_def Let_def by (simp add: map_of_insert_all [OF dist] map_of_filter_keys)
  define was :: "string + string \<Rightarrow> string + string" where "was x = (case x of Inl k \<Rightarrow> Inl k
    | Inr k \<Rightarrow> if map_of cm k = None \<and> map_of (m_clusterMap c) k \<noteq> None then Inl k else Inr k)" for x
  have p: "pool_of ?d x = pool_of c (was x)" "has_entry c (was x)" if "has_entry ?d x" for x
    using that by (cases x; auto simp: was_def live gone split: if_splits option.splits)+
  have w: "x = y" if "was x = was y" "has_entry ?d x" "has_entry ?d y" for x y
    using that by (cases x; cases y) (auto simp: was_def live split: if_splits)
  show ?thesis
  proof (rule topology_invI)
    show "sorted_map (m_clusterMap ?d)" "sorted_map (m_unusedHandlers ?d)"
      using topology_invD(1,2) [OF inv] by (simp_all add: retire_def Let_def sorted_map_filter sorted_insert_all)
    show "b < cl_next ?d" if "b \<in> dom (cl_pools ?d)" for b using topology_invD(3) [OF inv, of b] that by (simp only: m)
    show "\<exists>b \<in> dom (cl_pools ?d). pool_of ?d x = Some b" if "has_entry ?d x" for x
      using topology_invD(4) [OF inv p(2) [OF that]] unfolding p(1) [OF that] m .
    show "x = y" if q: "pool_of ?d x = Some b" "pool_of ?d y = Some b" for x y b
      using topology_invD(5) [OF inv, of "was x" b "was y"] q p(1) pool_of_entry w by metis
    show "map_of (m_clusterMap ?d) k \<noteq> None" if "map_of (m_slotMap ?d) i = Some k" for i k
    proof -
      have "map_of (m_slotMap c) i = Some k" using that by (simp only: m)
      then have "map_of cm k \<noteq> None" "map_of (m_clusterMap c) k \<noteq> None"
        using s topology_invD(6) [OF inv, of i k] unfolding slots_in_def map_of_eq_None_iff by blast+
      then show ?thesis unfolding live by simp
    qed
  qed
qed

section \<open>Pools that are freed\<close>

lemma free_one_inv:
  assumes inv: "topology_inv c" and a: "map_of (m_unusedHandlers c) cid = Some (Some a)"
    and m: "m_clusterMap d = m_clusterMap c" "m_unusedHandlers d = filter (\<lambda>(k, _). k \<noteq> cid) (m_unusedHandlers c)"
      "dom (cl_pools d) = dom (cl_pools c) - {a}" "cl_next d = cl_next c" "m_slotMap d = m_slotMap c"
  shows "topology_inv d"
proof -
  have own: "pool_of c (Inr cid) = Some a" using a by simp
  have e: "has_entry d x \<longleftrightarrow> x \<noteq> Inr cid \<and> has_entry c x" for x
    by (cases x) (auto simp: m map_of_filter_keys split: if_splits)
  have p: "pool_of d x = (if x = Inr cid then None else pool_of c x)" for x
    by (cases x) (auto simp: m map_of_filter_keys)
  show ?thesis
  proof (rule topology_invI)
    show "sorted_map (m_clusterMap d)" "sorted_map (m_unusedHandlers d)"
      using topology_invD(1,2) [OF inv] by (simp_all only: m sorted_map_filter)
    show "b < cl_next d" if "b \<in> dom (cl_pools d)" for b
      using topology_invD(3) [OF inv, of b] that unfolding m by blast
    show "\<exists>b \<in> dom (cl_pools d). pool_of d x = Some b" if h: "has_entry d x" for x
    proof -
      from h have x: "x \<noteq> Inr cid" "has_entry c x" unfolding e by blast+
      then obtain b where b: "b \<in> dom (cl_pools c)" "pool_of c x = Some b" using topology_invD(4) [OF inv] by blast
      then have "b \<noteq> a" using x(1) topology_invD(5) [OF inv _ own] by blast
      then show ?thesis using b x(1) unfolding p m by simp
    qed
    show "x = y" if "pool_of d x = Some b" "pool_of d y = Some b" for x y b
      using that topology_invD(5) [OF inv, of x b y] unfolding p by (simp split: if_splits)
    show "map_of (m_clusterMap d) k \<noteq> None" if "map_of (m_slotMap d) i = Some k" for i k
      using that unfolding m by (rule topology_invD(6) [OF inv])
  qed
qed

lemma free_unused_inv:
  assumes "free_unused net hs c w = Inr (c', w')" "topology_inv c" "distinct (map fst hs)"
    "\<And>cid a. (cid, a) \<in> set hs \<Longrightarrow> map_of (m_unusedHandlers c) cid = Some (Some a)"
  shows "topology_inv c'"
  using assms
proof (induction hs arbitrary: c w)
  case (Cons e hs)
  obtain cid a where e: "e = (cid, a)" by (cases e)
  from Cons.prems(1) e obtain p w1 where f: "cl_pools c a \<noteq> None"
    "free_unused net hs (c\<lparr> cl_pools := ((cl_pools c)(a \<mapsto> p))(a := None),
       m_unusedHandlers := filter (\<lambda>(k, _). k \<noteq> cid) (m_unusedHandlers c) \<rparr>) w1 = Inr (c', w')"
    by (auto simp: free_pool_def with_pool_def delete_pool_def res_bind_Inr_iff split: option.splits)
  have a: "map_of (m_unusedHandlers c) cid = Some (Some a)" using Cons.prems(4) e by simp
  show ?case
  proof (rule Cons.IH [OF f(2)])
    show "topology_inv (c\<lparr> cl_pools := ((cl_pools c)(a \<mapsto> p))(a := None),
       m_unusedHandlers := filter (\<lambda>(k, _). k \<noteq> cid) (m_unusedHandlers c) \<rparr>)"
      by (rule free_one_inv [OF Cons.prems(2) a]) auto
    show "distinct (map fst hs)" using Cons.prems(3) by simp
    show "map_of (m_unusedHandlers (c\<lparr> cl_pools := ((cl_pools c)(a \<mapsto> p))(a := None),
       m_unusedHandlers := filter (\<lambda>(k, _). k \<noteq> cid) (m_unusedHandlers c) \<rparr>)) k = Some (Some b)"
      if h: "(k, b) \<in> set hs" for k b
    proof -
      have "k \<noteq> cid" using h Cons.prems(3) e by force
      then show ?thesis using h Cons.prems(4) by (simp add: map_of_filter_keys)
    qed
  qed
qed simp

lemma can_free_sub:
  assumes "can_free c xs = Inr hs" "distinct (map fst xs)"
  shows "distinct (map fst hs) \<and> (\<forall>(cid, a) \<in> set hs. map_of xs cid = Some (Some a)) \<and> fst ` set hs \<subseteq> fst ` set xs"
  using assms
proof (induction xs arbitrary: hs)
  case (Cons x xs)
  obtain cid h where x: "x = (cid, h)" by (cases x)
  from Cons.prems(1) x obtain a ok rest where r: "h = Some a" "can_free c xs = Inr rest"
    "hs = (if ok then (cid, a) # rest else rest)"
    by (auto simp: res_bind_Inr_iff split: option.splits)
  have IH: "distinct (map fst rest)" "\<forall>(cid, a) \<in> set rest. map_of xs cid = Some (Some a)"
    "fst ` set rest \<subseteq> fst ` set xs" using Cons.IH [OF r(2)] Cons.prems(2) by auto
  have "cid \<notin> fst ` set xs" using Cons.prems(2) x by simp
  then have n: "cid \<notin> fst ` set rest" using IH(3) by blast
  then have "map_of (x # xs) k = Some (Some b)" if "(k, b) \<in> set rest" for k b
    using that IH(2) x by force
  then show ?case using IH n x r by (auto split: if_splits)
qed simp

lemma release_inv:
  assumes "releaseUnusedClusterHandler net c w = Inr (c', w')" "topology_inv c"
  shows "topology_inv c'"
proof -
  from assms(1) obtain hs where h: "can_free c (m_unusedHandlers c) = Inr hs" "free_unused net hs c w = Inr (c', w')"
    by (auto simp: releaseUnusedClusterHandler_def res_bind_Inr_iff)
  note s = can_free_sub [OF h(1) sorted_map_distinct [OF topology_invD(2) [OF assms(2)]]]
  show ?thesis by (rule free_unused_inv [OF h(2) assms(2)]) (use s in auto)
qed

section \<open>The thread that follows changes\<close>

lemma ask_nodes_inv:
  "ask_nodes net old cm c w = Inr (ok, cm', c', w') \<Longrightarrow> topology_inv c \<Longrightarrow> topology_inv c'"
proof (induction old arbitrary: c w)
  case (Cons e old)
  obtain cid u where e: "e = (cid, u)" by (cases e)
  show ?case
  proof (cases "getRedisClusterInfo c cid")
    case None
    then show ?thesis using Cons e by simp
  next
    case (Some info)
    with Cons.prems(1) e obtain sent r d v where h:
      "handler_command net cluster_nodes_cmd COMMON_PARSER empty_reply (clusterHandler info) c w = Inr (sent, r, d, v)"
      by (auto simp: res_bind_Inr_iff)
    have "ask_nodes net old cm d v = Inr (ok, cm', c', w') \<or> c' = d"
      using Cons.prems(1) Some h e by (auto simp: res_bind_Inr_iff split: if_splits list.splits option.splits)
    then show ?thesis using Cons.IH handler_command_inv [OF h Cons.prems(2)] by blast
  qed
qed simp

lemma cleared_slots_inv: "topology_inv c \<Longrightarrow> topology_inv (c\<lparr> m_slotMap := [] \<rparr>)"
proof (rule topology_invI)
  assume inv: "topology_inv c"
  let ?d = "c\<lparr> m_slotMap := [] \<rparr>"
  have same: "has_entry ?d x = has_entry c x" "pool_of ?d x = pool_of c x" for x by (cases x; simp)+
  show "\<exists>a \<in> dom (cl_pools ?d). pool_of ?d x = Some a" if "has_entry ?d x" for x
    using that topology_invD(4) [OF inv, of x] unfolding same by simp
  show "x = y" if "pool_of ?d x = Some a" "pool_of ?d y = Some a" for x y a
    using that unfolding same by (rule topology_invD(5) [OF inv])
qed (use topology_invD(1-3) in simp_all)

lemma checkAndSave_inv:
  assumes "checkAndSaveRedisClusters net cm c w = Inr (ok, c', w')" "topology_inv c"
  shows "topology_inv c'"
proof -
  from assms(1) obtain d where s: "save_nodes net cm (c\<lparr> m_slotMap := [] \<rparr>) w = Inr (ok, d, w')"
    and c': "c' = (if ok then retire cm d else d)"
    by (auto simp: checkAndSaveRedisClusters_def res_bind_Inr_iff)
  have "topology_inv d \<and> slots_in (fst ` set cm) d"
    by (rule save_nodes_inv [OF s cleared_slots_inv [OF assms(2)]]) (simp_all add: slots_in_def)
  then show ?thesis unfolding c' by (simp add: retire_inv)
qed

lemma check_nodes_inv:
  assumes "DoCheckClusterNodes net c w = Inr (c', w')" "topology_inv c"
  shows "topology_inv c'"
proof -
  from assms(1) obtain d v ok cm d' v' where r: "releaseUnusedClusterHandler net c w = Inr (d, v)"
    "getRedisClustersByCommand net d v = Inr (ok, cm, d', v')"
    "c' = d' \<or> (\<exists>saved. checkAndSaveRedisClusters net cm d' v' = Inr (saved, c', w'))"
    by (auto simp: DoCheckClusterNodes_def res_bind_Inr_iff split: if_splits)
  have "topology_inv d'"
    using ask_nodes_inv [OF r(2) [unfolded getRedisClustersByCommand_def] release_inv [OF r(1) assms(2)]] .
  then show ?thesis using r(3) checkAndSave_inv by metis
qed

lemma check_thread_inv:
  assumes "CheckClusterNodesThreadFunc net c w = Inr (c', w')" "topology_inv c"
  shows "topology_inv c'"
proof (cases "m_signalQueue c = []")
  case True
  then show ?thesis using assms by (simp add: CheckClusterNodesThreadFunc_def)
next
  case False
  have "topology_inv (c\<lparr> m_signalQueue := [] \<rparr>)" by (rule inv_same_pools [OF assms(2)]) simp_all
  with check_nodes_inv show ?thesis using assms(1) False by (auto simp: CheckClusterNodesThreadFunc_def)
qed

section \<open>Commands\<close>

lemma signal_inv: "topology_inv c \<Longrightarrow> topology_inv (SignalToDoClusterNodes c)"
  by (cases "m_signalQueue c = []"; erule inv_same_pools) (simp_all add: SignalToDoClusterNodes_def)

lemma cluster_loop_inv:
  assumes "cluster_loop net load cmd t cid redirects bak r out c w = Inr (ok, out', c', w')" "topology_inv c"
  shows "topology_inv c'"
  using assms
proof (induction net load cmd t cid redirects bak r out c w rule: cluster_loop.induct)
  case (1 net load cmd t cid redirects bak r out c w)
  show ?case
  proof (cases "getRedisClusterInfo c cid")
    case (Some info)
    show ?thesis
    proof (cases "handler_command net cmd COMMON_PARSER r (clusterHandler info) c w")
      case (Inr x)
      obtain sent r1 d v where x: "x = (sent, r1, d, v)" by (cases x)
      note h = Inr [unfolded x]
      note d = handler_command_inv [OF h 1(4)]
      note bak = 1(1) [OF Some h refl refl refl _ _ refl _ d]
      note redirect = 1(2) [OF Some h refl refl refl _ _ refl refl refl refl _ _ _ signal_inv [OF d]]
      note run = 1(3) [unfolded cluster_loop.simps [of net load cmd t cid]]
      show ?thesis
      proof (cases sent)
        case False
        then show ?thesis using run Some h d bak by (auto split: option.splits)
      next
        case True
        then show ?thesis using run Some h d redirect signal_inv
          by (auto split: sum.splits prod.splits branch.splits if_splits)
      qed
    qed (use 1(3) Some in \<open>simp add: cluster_loop.simps\<close>)
  qed (use 1(3,4) in \<open>simp add: cluster_loop.simps\<close>)
qed

lemma command_inv:
  assumes "doRedisCommandCluster net load key cmd t out c w = Inr (ok, out', c', w')" "topology_inv c"
  shows "topology_inv c'"
  using assms cluster_loop_inv by (fastforce simp: doRedisCommandCluster_def split: option.splits)

section \<open>Start-up\<close>

lemma parse_lines_sorted:
  "parse_lines n s i cm b = Some (cm', b') \<Longrightarrow> sorted_map cm \<Longrightarrow> sorted_map cm'"
proof (induction n s i cm b rule: parse_lines.induct)
  case (1 n s i cm b)
  note run = 1(3) [unfolded parse_lines.simps [of n s i]]
  show ?case
  proof (cases "str_find [LF] s i")
    case None
    then show ?thesis using run 1(4) by simp
  next
    case (Some p)
    note IH = 1(1) [OF Some refl] 1(2) [OF Some refl]
    show ?thesis using run Some IH 1(4)
      by (auto simp: Let_def sorted_map_insert split: if_splits option.splits)
  qed
qed

lemma parseClusterInfo_sorted:
  assumes "parseClusterInfo n r [] = Inr (True, cm)"
  shows "sorted_map cm"
proof -
  from assms obtain s cm0 bm where p: "parse_lines n s 0 [] [] = Some (cm0, bm)" "cm = fold add_bak bm cm0"
    by (auto simp: parseClusterInfo_def split: list.splits if_splits option.splits)
  have "map fst cm = map fst cm0" unfolding p(2) fold_add_bak by (induction cm0) auto
  then show ?thesis using parse_lines_sorted [OF p(1)] by (simp add: sorted_map_def)
qed

lemma ask_servers_step:
  assumes "ask_servers net paras ((ip, port) # servers) c w = Inr (True, c', w')"
  shows "(\<exists>ps v. ask_servers net ps servers (c\<lparr> cl_next := Suc (cl_next c) \<rparr>) v = Inr (True, c', w'))
    \<or> (\<exists>r cm. parseClusterInfo (cl_connectionNum c) r [] = Inr (True, cm)
         \<and> c' = c\<lparr> cl_next := Suc (cl_next c), m_clusterMap := cm \<rparr>)"
proof -
  let ?c = "c\<lparr> cl_next := Suc (cl_next c) \<rparr>"
  obtain k p where n: "new_conn ip port (RedisCluster (cl_next c)) = (k, p)"
    by (cases "new_conn ip port (RedisCluster (cl_next c))")
  from assms n obtain up v where u: "conn_connect net k p w = Inr (up, v)"
    by (auto simp: res_bind_Inr_iff Let_def)
  show ?thesis
  proof (cases up)
    case False
    then show ?thesis using assms n u by (auto simp: res_bind_Inr_iff Let_def)
  next
    case up: True
    then obtain ok r v1 v2 x where k: "conn_command net p k paras 30 COMMON_PARSER empty_reply v = Inr (ok, r, v1)"
      "delete_conn net k p v1 = Inr (x, v2)"
      using assms n u by (auto simp: res_bind_Inr_iff Let_def)
    show ?thesis
    proof (cases ok)
      case False
      then show ?thesis using assms n u up k by (auto simp: Let_def)
    next
      case True
      then have "res_bind (parseClusterInfo (cl_connectionNum c) r [])
          (\<lambda>(ok, cm). Inr (ok, if ok then ?c\<lparr> m_clusterMap := cm \<rparr> else ?c, v2)) = Inr (True, c', w')"
        using assms n u up k by (simp add: Let_def split: if_splits)
      then obtain cm where "parseClusterInfo (cl_connectionNum c) r [] = Inr (True, cm)" "c' = ?c\<lparr> m_clusterMap := cm \<rparr>"
        by (auto simp: res_bind_Inr_iff split: if_splits)
      then show ?thesis by blast
    qed
  qed
qed

lemma ask_servers_found:
  assumes "ask_servers net paras servers c w = Inr (True, c', w')"
  shows "\<exists>k cm. c' = c\<lparr> cl_next := k, m_clusterMap := cm \<rparr> \<and> sorted_map cm"
  using assms
proof (induction servers arbitrary: paras c w)
  case (Cons s servers)
  obtain ip port where s: "s = (ip, port)" by (cases s)
  from ask_servers_step [OF Cons.prems [unfolded s]] show ?case
  proof (elim disjE exE conjE)
    fix ps v
    assume "ask_servers net ps servers (c\<lparr> cl_next := Suc (cl_next c) \<rparr>) v = Inr (True, c', w')"
    from Cons.IH [OF this] show ?thesis by simp
  next
    fix r cm
    assume "parseClusterInfo (cl_connectionNum c) r [] = Inr (True, cm)"
      "c' = c\<lparr> cl_next := Suc (cl_next c), m_clusterMap := cm \<rparr>"
    then show ?thesis using parseClusterInfo_sorted by blast
  qed
qed simp

text \<open>The client with the nodes of \<open>S\<close> only: those that have their pool.\<close>

definition view :: "string set \<Rightarrow> client \<Rightarrow> client" where
  "view S c = c\<lparr> m_clusterMap := filter (\<lambda>(k, _). k \<in> S) (m_clusterMap c) \<rparr>"

lemma view_simps [simp]:
  "m_clusterMap (view S c) = filter (\<lambda>(k, _). k \<in> S) (m_clusterMap c)" "m_unusedHandlers (view S c) = m_unusedHandlers c"
  "m_slotMap (view S c) = m_slotMap c" "cl_pools (view S c) = cl_pools c" "cl_next (view S c) = cl_next c"
  by (simp_all add: view_def)

lemma auth_inv:
  assumes "auth_if_needed net a c w = Inr (c', w')" "topology_inv (view S c)"
  shows "topology_inv (view S c')" "m_clusterMap c' = m_clusterMap c"
proof -
  have "c' = c \<or> (\<exists>b p p'. cl_pools c b = Some p \<and> c' = c\<lparr> cl_pools := (cl_pools c)(b \<mapsto> p') \<rparr>)"
    using assms(1) by (auto simp: auth_if_needed_def AuthPasswd_def res_bind_Inr_iff split: if_splits
        elim!: handler_command_pools)
  then have m: "m_clusterMap c' = m_clusterMap c" "m_unusedHandlers c' = m_unusedHandlers c" "m_slotMap c' = m_slotMap c"
    "cl_next c' = cl_next c" "dom (cl_pools c') = dom (cl_pools c)" by (auto split: if_splits)
  show "topology_inv (view S c')" by (rule inv_same_pools [OF assms(2)]) (simp_all add: m)
  show "m_clusterMap c' = m_clusterMap c" by (rule m(1))
qed

lemma init_node_inv:
  assumes "topology_inv (view S c)" "sorted_map (m_clusterMap c)"
  shows "topology_inv (view (insert cid S) (fill_slots cid info (set_info cid (info\<lparr> clusterHandler := Some (cl_next c) \<rparr>)
    (c\<lparr> cl_next := Suc (cl_next c), cl_pools := (cl_pools c)(cl_next c \<mapsto> p) \<rparr>))))"
proof -
  let ?c = "(view S c)\<lparr> cl_next := Suc (cl_next c), cl_pools := (cl_pools c)(cl_next c \<mapsto> p) \<rparr>"
  note n = new_pool_inv [OF assms(1), of ?c p, simplified]
  show ?thesis
    by (rule set_node_inv_gen [of ?c "info\<lparr> clusterHandler := Some (cl_next c) \<rparr>" "cl_next c" cid])
      (use n assms(2) in \<open>auto simp: fill_slots_eq set_info_def fill_node_def map_of_filter_keys
         sorted_map_filter sorted_map_insert\<close>)
qed

lemma init_nodes_inv:
  assumes "init_nodes net cm c w = Inr (True, c', w')" "topology_inv (view S c)" "sorted_map (m_clusterMap c)"
    "fst ` set (m_clusterMap c) \<subseteq> S \<union> fst ` set cm"
  shows "topology_inv c'"
  using assms
proof (induction cm arbitrary: c w S)
  case Nil
  have "filter (\<lambda>(k, _). k \<in> S) (m_clusterMap c) = m_clusterMap c" using Nil(4) by (force simp: filter_id_conv)
  then have "view S c = c" by (simp add: view_def)
  then show ?case using Nil by simp
next
  case (Cons e cm)
  obtain cid info where e: "e = (cid, info)" by (cases e)
  let ?d = "\<lambda>p. fill_slots cid info (set_info cid (info\<lparr> clusterHandler := Some (cl_next c) \<rparr>)
    (c\<lparr> cl_next := Suc (cl_next c), cl_pools := (cl_pools c)(cl_next c \<mapsto> p) \<rparr>))"
  from Cons.prems(1) e obtain p d v v' where a: "auth_if_needed net (cl_next c) (?d p) v = Inr (d, v')"
    and r: "init_nodes net cm d v' = Inr (True, c', w')"
    by (auto simp: new_pool_def with_pool_def res_bind_Inr_iff Let_def split: if_splits)
  note auth = auth_inv [OF a init_node_inv [OF Cons.prems(2,3)]]
  have m: "m_clusterMap d = map_insert cid (info\<lparr> clusterHandler := Some (cl_next c) \<rparr>) (m_clusterMap c)"
    using auth(2) by (simp add: fill_slots_def set_info_def)
  show ?case
  proof (rule Cons.IH [OF r auth(1)])
    show "sorted_map (m_clusterMap d)" using Cons.prems(3) by (simp add: m sorted_map_insert)
    show "fst ` set (m_clusterMap d) \<subseteq> insert cid S \<union> fst ` set cm"
      using Cons.prems(4) e by (auto simp: m simp flip: dom_map_of_conv_image_fst split: if_splits)
  qed
qed

lemma start_steps:
  assumes "init net thr CLUSTER_MODE servers name num passwd c0 w = Inr (True, c, w')" "\<not> m_connected c0"
  obtains d v d' v' where "getRedisClusterNodes net (c0\<lparr> m_redisMode := CLUSTER_MODE, m_masterName := name,
      cl_connectionNum := num, m_passwd := passwd, m_serverList := servers \<rparr>) w = Inr (True, d, v)"
    "initRedisCluster net d v = Inr (True, d', v')" "c = (snd (StartCheckClusterThread thr d'))\<lparr> m_connected := True \<rparr>"
proof -
  let ?c = "c0\<lparr> m_redisMode := CLUSTER_MODE, m_masterName := name, cl_connectionNum := num, m_passwd := passwd,
    m_serverList := servers \<rparr>"
  have "res_bind (res_bind (getRedisClusterNodes net ?c w) (\<lambda>(ok, c, w).
      if \<not> ok then Inr (False, c, w)
      else res_bind (initRedisCluster net c w) (\<lambda>(ok, c, w).
        if \<not> ok then Inr (False, c, w)
        else let (ok, c) = StartCheckClusterThread thr c in Inr (ok, c, w))))
      (\<lambda>(ok, c, w). Inr (ok, if ok then c\<lparr> m_connected := True \<rparr> else c, w)) = Inr (True, c, w')"
    using assms by (simp add: init_def Let_def)
  then obtain ok d v where 1: "getRedisClusterNodes net ?c w = Inr (ok, d, v)" and ok
    and 2: "res_bind (res_bind (initRedisCluster net d v) (\<lambda>(ok, c, w).
        if \<not> ok then Inr (False, c, w)
        else let (ok, c) = StartCheckClusterThread thr c in Inr (ok, c, w)))
      (\<lambda>(ok, c, w). Inr (ok, if ok then c\<lparr> m_connected := True \<rparr> else c, w)) = Inr (True, c, w')"
    by (cases "getRedisClusterNodes net ?c w") (auto split: if_splits)
  from 2 obtain ok' d' v' where 3: "initRedisCluster net d v = Inr (ok', d', v')" and ok'
    and 4: "res_bind (let (ok, c) = StartCheckClusterThread thr d' in Inr (ok, c, v'))
      (\<lambda>(ok, c, w). Inr (ok, if ok then c\<lparr> m_connected := True \<rparr> else c, w)) = Inr (True, c, w')"
    by (cases "initRedisCluster net d v") (auto split: if_splits)
  have "c = (snd (StartCheckClusterThread thr d'))\<lparr> m_connected := True \<rparr>"
    using 4 by (cases "StartCheckClusterThread thr d'") (simp split: if_splits)
  then show thesis using that 1 3 \<open>ok\<close> \<open>ok'\<close> by simp
qed

lemma start_inv:
  assumes "init net thr CLUSTER_MODE servers name num passwd RedisClient w = Inr (True, c, w')"
  shows "topology_inv c"
proof -
  have "\<not> m_connected RedisClient" by (simp add: RedisClient_def)
  with assms show ?thesis
  proof (cases rule: start_steps)
    case (1 d v d' v')
    from ask_servers_found [OF 1(1) [unfolded getRedisClusterNodes_def]] obtain k cm
      where m: "m_clusterMap d = cm" "m_unusedHandlers d = []" "m_slotMap d = []" "cl_pools d = Map.empty" "sorted_map cm"
      by (auto simp: RedisClient_def)
    have e: "\<not> has_entry (view {} d) x" for x by (cases x) (simp_all add: m)
    have "topology_inv (view {} d)"
      by (rule topology_invI) (use e pool_of_entry in \<open>fastforce simp: m\<close>)+
    then have "topology_inv d'"
      using init_nodes_inv [OF 1(2) [unfolded initRedisCluster_def], of "{}"] m(1,5) by simp
    then show ?thesis
      unfolding 1(3) by (rule inv_same_pools) (simp_all add: StartCheckClusterThread_def)
  qed
qed

section \<open>The life of a cluster client\<close>

text \<open>What happens to a client that was started in cluster mode: its users send commands and, when one of them
  was redirected, the thread asks for the topology and follows it.\<close>

inductive cluster_life :: "'w net \<Rightarrow> 'e loader \<Rightarrow> client \<Rightarrow> 'w \<Rightarrow> bool" for net load where
  start: "init net thr CLUSTER_MODE servers name num passwd RedisClient w = Inr (True, c, w')
    \<Longrightarrow> cluster_life net load c w'"
| command: "cluster_life net load c w \<Longrightarrow> doRedisCommandCluster net load key cmd t out c w = Inr (ok, out', c', w')
    \<Longrightarrow> cluster_life net load c' w'"
| follow: "cluster_life net load c w \<Longrightarrow> CheckClusterNodesThreadFunc net c w = Inr (c', w')
    \<Longrightarrow> cluster_life net load c' w'"

lemma cluster_life_inv: "cluster_life net load c w \<Longrightarrow> topology_inv c"
  by (induction rule: cluster_life.induct) (blast intro: start_inv command_inv check_thread_inv)+

text \<open>A slot of a well-formed client leads to a node with a pool that no other node has, in use or waiting.\<close>

definition slot_served :: "client \<Rightarrow> string \<Rightarrow> bool" where
  "slot_served c cid \<longleftrightarrow> (\<exists>info a p. getRedisClusterInfo c cid = Some info \<and> clusterHandler info = Some a
     \<and> cl_pools c a = Some p \<and> (\<forall>x. pool_of c x = Some a \<longrightarrow> x = Inl cid))"

lemma inv_slot_served:
  assumes "topology_inv c" "getClusterIdBySlot c i = Some cid"
  shows "slot_served c cid"
proof -
  obtain info where i: "map_of (m_clusterMap c) cid = Some info"
    using topology_invD(6) [OF assms(1)] assms(2) by (auto simp: getClusterIdBySlot_def)
  obtain a where a: "a \<in> dom (cl_pools c)" "pool_of c (Inl cid) = Some a"
    using topology_invD(4) [OF assms(1), of "Inl cid"] i by auto
  then show ?thesis
    unfolding slot_served_def getRedisClusterInfo_def using i topology_invD(5) [OF assms(1) _ a(2)]
    by (auto simp del: pool_of.simps simp: pool_of.simps(1))
qed

text \<open>
  C4. The topology a cluster client holds is well-formed at every moment of its life, whatever the nodes answer:
  after a start that succeeded, after every command and after every change the thread followed, also when
  connecting to a new node failed half-way.  Its maps are in order, every node that is known and every node that
  is gone has a pool that still exists and that no other has, so no pool is freed while a node uses it, and every
  slot leads to a node that is known and has its pool.
\<close>

theorem cluster_life_typed:
  assumes "cluster_life net load c w"
  shows "topology_inv c \<and> (\<forall>i cid. getClusterIdBySlot c i = Some cid \<longrightarrow> slot_served c cid)"
  using cluster_life_inv [OF assms] inv_slot_served by blast

theorem cluster_life_typed_witness:
  "\<exists>c w. cluster_life (nodes_net three_nodes) no_load c w \<and> topology_inv c
     \<and> getClusterIdBySlot c 5462 = Some ''10.0.0.1:7000'' \<and> slot_served c ''10.0.0.1:7000''"
proof -
  obtain c cm e w' where e: "init (nodes_net three_nodes) True CLUSTER_MODE [(''10.0.0.1'', 7000)] [] 2 [] RedisClient ()
      = Inr (True, e, w')" "m_slotMap c = []" "connected_to cm c e" "set cm = entry 2 three_nodes ` set three_nodes"
    using cluster_start [OF three.cluster_net_axioms three_nodes_ok] .
  have l: "cluster_life (nodes_net three_nodes) no_load e w'" using e(1) by (rule cluster_life.start)
  have "map_option addr (find (\<lambda>n. serves n 5462) three_nodes) = Some ''10.0.0.1:7000''"
    by (simp add: three_nodes_def serves_def addr_def show_nat.simps digit_chars)
  then have "getClusterIdBySlot e 5462 = Some ''10.0.0.1:7000''"
    using slots_of_topology [OF three_nodes_ok e(4), of 5462] e(2,3) by (simp add: getClusterIdBySlot_def connected_to_def)
  then show ?thesis using l cluster_life_typed [OF l] by blast
qed

end
