(* ===== verification/Client_Lock.thy ===== *)
theory Client_Lock
  imports Redis_Client
begin

text \<open>
  The optimistic lock of cluster mode in \<open>redisclient.cpp\<close>: \<open>getSerialWithLock\<close> watches a key and reads it,
  \<open>setSerialWithLock\<close> writes it in a transaction that fails when the key was changed in between, and
  \<open>releaseLock\<close> gives it up.  The commands of a lock share the connection that the lock remembers.  The
  loop over spare nodes and redirects need not end when spare nodes form a cycle; its first argument bounds
  the number of rounds, and \<open>None\<close> means that the bound was reached.
\<close>

section \<open>The lock and its connection\<close>

text \<open>The connection is remembered with the pool it belongs to.\<close>

record RedisLockInfo =
  lk_clusterId :: string
  lk_connection :: "(nat \<times> nat) option"

definition no_lock :: RedisLockInfo where
  "no_lock = \<lparr> lk_clusterId = [], lk_connection = None \<rparr>"

definition handler_pool :: "nat option \<Rightarrow> client \<Rightarrow> (nat \<times> pool) res" where
  "handler_pool h c =
     (case h of
        None \<Rightarrow> Inl NullDeref
      | Some a \<Rightarrow> (case cl_pools c a of None \<Rightarrow> Inl Dangling | Some p \<Rightarrow> Inr (a, p)))"

text \<open>\<open>handler->doRedisCommandOneConnection(..., release, &lockInfo.connection)\<close>.  A connection of another
  pool is used as it is, and the release does not find it in this pool.\<close>

definition lock_command ::
  "'w net \<Rightarrow> cmd \<Rightarrow> bool \<Rightarrow> nat option \<Rightarrow> (nat \<times> nat) option \<Rightarrow> client \<Rightarrow> 'w
   \<Rightarrow> (bool \<times> RedisReplyInfo \<times> (nat \<times> nat) option \<times> client \<times> 'w) res" where
  "lock_command net cmd release h con c w =
     res_bind (handler_pool h c) (\<lambda>(a, p).
     case con of
       Some (b, k) \<Rightarrow>
         if b = a then
           res_bind (one_conn_command net (fst cmd) (snd cmd) empty_reply release (Some k) p w) (\<lambda>(ok, r, k, p, w).
           Inr (ok, r, map_option (Pair a) k, set_pool a p c, w))
         else
           (case cl_pools c b of
              None \<Rightarrow> Inl Dangling
            | Some q \<Rightarrow>
                res_bind (conn_command net q k (fst cmd) (snd cmd) COMMON_PARSER empty_reply w) (\<lambda>(ok, r, w).
                Inr (ok, r, con, c, w)))
     | None \<Rightarrow>
         res_bind (one_conn_command net (fst cmd) (snd cmd) empty_reply release None p w) (\<lambda>(ok, r, k, p, w).
         Inr (ok, r, map_option (Pair a) k, set_pool a p c, w)))"

text \<open>\<open>handler->freeConnection(lockInfo.connection)\<close>\<close>

definition lock_free :: "'w net \<Rightarrow> nat option \<Rightarrow> (nat \<times> nat) option \<Rightarrow> client \<Rightarrow> 'w \<Rightarrow> (client \<times> 'w) res" where
  "lock_free net h con c w =
     res_bind (handler_pool h c) (\<lambda>(a, p).
     case con of
       Some (b, k) \<Rightarrow>
         if b = a then res_bind (freeConnection net k p w) (\<lambda>(p, w). Inr (set_pool a p c, w)) else Inr (c, w)
     | None \<Rightarrow> Inr (c, w))"

section \<open>The reply\<close>

text \<open>The switch over the type of the command; the first result is false where the branch returns false.\<close>

definition lock_switch ::
  "'w net \<Rightarrow> 'e loader \<Rightarrow> RedisCommandType \<Rightarrow> nat option \<Rightarrow> (nat \<times> nat) option \<Rightarrow> RedisReplyInfo \<Rightarrow> 'e option \<Rightarrow> client \<Rightarrow> 'w
   \<Rightarrow> (bool \<times> redir \<times> 'e option \<times> client \<times> 'w) res" where
  "lock_switch net load t h con r ser c w =
     (let mode = m_redisMode c; rd = (False, []) in
      case t of
        REDIS_COMMAND_GET \<Rightarrow>
          (case ser of
             None \<Rightarrow> Inl NullDeref
           | Some sr \<Rightarrow>
               res_bind (parseGetSerialReply mode load r sr rd) (\<lambda>(ok, sr, rd). Inr (ok, rd, Some sr, c, w)))
      | REDIS_COMMAND_SET \<Rightarrow>
          (let (ok, rd) = parseSetSerialReply mode r rd in Inr (ok, rd, ser, c, w))
      | REDIS_COMMAND_WATCH \<Rightarrow>
          (let (ok, rd) = parseStatusResponseReply mode r rd in Inr (ok, rd, ser, c, w))
      | REDIS_COMMAND_UNWATCH \<Rightarrow>
          (let (ok, rd) = parseStatusResponseReply mode r rd in
           if \<not> ok then Inr (False, rd, ser, c, w)
           else if resultString r \<noteq> ''OK'' then
             res_bind (lock_free net h con c w) (\<lambda>(c, w). Inr (True, rd, ser, c, w))
           else Inr (True, rd, ser, c, w))
      | REDIS_COMMAND_MULTI \<Rightarrow>
          (let (ok, rd) = parseStatusResponseReply mode r rd in Inr (ok, rd, ser, c, w))
      | REDIS_COMMAND_EXEC \<Rightarrow>
          (let (ok, rd) = parseExecReply_cluster mode r rd in Inr (ok, rd, ser, c, w))
      | _ \<Rightarrow> Inr (True, rd, ser, c, w))"

section \<open>A command under the lock\<close>

type_synonym ('e, 'w) locked = "(bool \<times> RedisLockInfo \<times> 'e option \<times> client \<times> 'w) option res"

text \<open>The loop at the label \<open>REDIS_COMMAND\<close>.  A command that failed on a node without spare nodes goes on
  with the empty reply, and a second redirect to the same node ends the loop with success.\<close>

fun lock_loop ::
  "nat \<Rightarrow> 'w net \<Rightarrow> 'e loader \<Rightarrow> cmd \<Rightarrow> RedisCommandType \<Rightarrow> string \<Rightarrow> string list \<Rightarrow> RedisLockInfo \<Rightarrow> 'e option \<Rightarrow> client \<Rightarrow> 'w
   \<Rightarrow> ('e, 'w) locked" where
  "lock_loop 0 net load cmd t cid redirects lock ser c w = Inr None"
| "lock_loop (Suc n) net load cmd t cid redirects lock ser c w =
     (case getRedisClusterInfo c cid of
        None \<Rightarrow> Inr (Some (False, lock, ser, c, w))
      | Some info \<Rightarrow>
          res_bind (lock_command net cmd (t = REDIS_COMMAND_EXEC \<or> t = REDIS_COMMAND_UNWATCH) (clusterHandler info)
              (lk_connection lock) c w) (\<lambda>(sent, r, con, c, w).
          let lock = lock\<lparr> lk_connection := con \<rparr> in
          if \<not> sent \<and> lk_clusterId lock \<noteq> [] then Inr (Some (False, lock, ser, c, w))
          else if \<not> sent \<and> bakClusterList info \<noteq> [] then
            lock_loop n net load cmd t (hd (bakClusterList info)) redirects lock ser c w
          else
            let r = (if sent then r else freeReplyInfo r) in
            res_bind (lock_switch net load t (clusterHandler info) con r ser c w)
              (\<lambda>(ok, (needRedirect, redirectInfo), ser, c, w).
            if \<not> ok then Inr (Some (False, lock, ser, c, w))
            else if needRedirect \<and> lk_clusterId lock \<noteq> [] then Inr (Some (False, lock, ser, c, w))
            else if needRedirect \<and> redirectInfo \<notin> set redirects then
              lock_loop n net load cmd t redirectInfo (redirects @ [redirectInfo]) lock ser c w
            else
              let cid = (if needRedirect then redirectInfo else cid) in
              Inr (Some (True, if lk_clusterId lock = [] then lock\<lparr> lk_clusterId := cid \<rparr> else lock, ser, c, w)))))"

definition doRedisCommandWithLock ::
  "nat \<Rightarrow> 'w net \<Rightarrow> 'e loader \<Rightarrow> string \<Rightarrow> cmd \<Rightarrow> RedisCommandType \<Rightarrow> RedisLockInfo \<Rightarrow> 'e option \<Rightarrow> client \<Rightarrow> 'w
   \<Rightarrow> ('e, 'w) locked" where
  "doRedisCommandWithLock n net load key cmd t lock ser c w =
     (if m_redisMode c \<noteq> CLUSTER_MODE then Inl CheckFailed
      else if lk_clusterId lock = [] then
        (case getClusterIdBySlot c (unat (crc16 key) mod REDIS_SLOT_NUM) of
           None \<Rightarrow> Inr (Some (False, lock, ser, c, w))
         | Some cid \<Rightarrow> lock_loop n net load cmd t cid [] lock ser c w)
      else lock_loop n net load cmd t (lk_clusterId lock) [] lock ser c w)"

section \<open>The operations\<close>

definition then_locked ::
  "('e, 'w) locked \<Rightarrow> (bool \<Rightarrow> RedisLockInfo \<Rightarrow> 'e option \<Rightarrow> client \<Rightarrow> 'w \<Rightarrow> ('e, 'w) locked) \<Rightarrow> ('e, 'w) locked" where
  "then_locked m f =
     res_bind m (\<lambda>x. case x of None \<Rightarrow> Inr None | Some (ok, lock, ser, c, w) \<Rightarrow> f ok lock ser c w)"

lemma then_locked_simps [simp]:
  "then_locked (Inl e) f = Inl e" "then_locked (Inr None) f = Inr None"
  "then_locked (Inr (Some (ok, lock, ser, c, w))) f = f ok lock ser c w"
  by (simp_all add: then_locked_def)

text \<open>UNWATCH after a failure; its result is not looked at.\<close>

definition unwatch_locked ::
  "nat \<Rightarrow> 'w net \<Rightarrow> 'e loader \<Rightarrow> string \<Rightarrow> bool \<Rightarrow> RedisLockInfo \<Rightarrow> 'e option \<Rightarrow> client \<Rightarrow> 'w \<Rightarrow> ('e, 'w) locked" where
  "unwatch_locked n net load key res lock ser c w =
     then_locked (doRedisCommandWithLock n net load key unwatch_lock_cmd REDIS_COMMAND_UNWATCH lock None c w)
       (\<lambda>_ lock _ c w. Inr (Some (res, lock, ser, c, w)))"

definition getSerialWithLock ::
  "nat \<Rightarrow> 'w net \<Rightarrow> 'e loader \<Rightarrow> string \<Rightarrow> 'e \<Rightarrow> RedisLockInfo \<Rightarrow> client \<Rightarrow> 'w \<Rightarrow> ('e, 'w) locked" where
  "getSerialWithLock n net load key sr lock c w =
     then_locked (doRedisCommandWithLock n net load key (build (CWatch key)) REDIS_COMMAND_WATCH lock None c w)
       (\<lambda>ok lock _ c w.
     if \<not> ok then Inr (Some (False, lock, Some sr, c, w))
     else
       then_locked (doRedisCommandWithLock n net load key (build (CGet key)) REDIS_COMMAND_GET lock (Some sr) c w)
         (\<lambda>ok lock ser c w.
       if ok then Inr (Some (True, lock, ser, c, w))
       else unwatch_locked n net load key False lock ser c w))"

definition setSerialWithLock ::
  "nat \<Rightarrow> 'w net \<Rightarrow> 'e loader \<Rightarrow> ('e \<Rightarrow> db_out \<Rightarrow> db_out res) \<Rightarrow> string \<Rightarrow> 'e \<Rightarrow> RedisLockInfo \<Rightarrow> client \<Rightarrow> 'w
   \<Rightarrow> ('e, 'w) locked" where
  "setSerialWithLock n net load save key sr lock c w =
     then_locked (doRedisCommandWithLock n net load key (build CMulti) REDIS_COMMAND_MULTI lock None c w)
       (\<lambda>ok lock _ c w.
     if \<not> ok then unwatch_locked n net load key False lock (Some sr) c w
     else
       res_bind (saved save sr) (\<lambda>v.
       then_locked (doRedisCommandWithLock n net load key (build (CSet key v)) REDIS_COMMAND_SET lock None c w)
         (\<lambda>ok lock _ c w.
       if \<not> ok then unwatch_locked n net load key False lock (Some sr) c w
       else
         then_locked (doRedisCommandWithLock n net load key (build CExec) REDIS_COMMAND_EXEC lock None c w)
           (\<lambda>ok lock _ c w. Inr (Some (ok, lock, Some sr, c, w))))))"

definition releaseLock ::
  "nat \<Rightarrow> 'w net \<Rightarrow> 'e loader \<Rightarrow> string \<Rightarrow> RedisLockInfo \<Rightarrow> client \<Rightarrow> 'w \<Rightarrow> ('e, 'w) locked" where
  "releaseLock n net load key lock c w =
     (if lk_clusterId lock = [] then Inr (Some (False, lock, None, c, w))
      else unwatch_locked n net load key True lock None c w)"

end
