(* ===== verification/Managers.thy ===== *)
theory Managers
  imports Redis_Client
begin

text \<open>
  The managers \<open>DeviceMgr\<close>, \<open>ChannelMgr\<close> and \<open>ExecutingInviteCmdMgr\<close>: each keeps
  the identifiers of its entities in a Redis set and the data of each entity under a key
  made of a prefix and the identifier.  The three have the same code over different
  entities; the shared steps come first.  Every manager guards its operations with a
  lock, so that an operation is one step here.
\<close>

section \<open>Shared steps\<close>

definition insert_in_cluster ::
  "'w net \<Rightarrow> ('e \<Rightarrow> db_out \<Rightarrow> db_out res) \<Rightarrow> string \<Rightarrow> string \<Rightarrow> string \<Rightarrow> string \<Rightarrow> 'e \<Rightarrow> client \<Rightarrow> 'w
   \<Rightarrow> (int \<times> client \<times> 'w) res" where
  "insert_in_cluster net save setKey key undoKey ident x c w =
     res_bind (setSerial net save key x c w) (\<lambda>(ok, c, w).
     if \<not> ok then Inr (-1, c, w)
     else res_bind (sadd net setKey ident c w) (\<lambda>(ok, c, w).
       if ok then Inr (0, c, w)
       else res_bind (del net undoKey c w) (\<lambda>(_, c, w). Inr (-1, c, w))))"

definition delete_in_cluster ::
  "'w net \<Rightarrow> ('e \<Rightarrow> db_out \<Rightarrow> db_out res) \<Rightarrow> string \<Rightarrow> string \<Rightarrow> string \<Rightarrow> string \<Rightarrow> 'e \<Rightarrow> client \<Rightarrow> 'w
   \<Rightarrow> (int \<times> client \<times> 'w) res" where
  "delete_in_cluster net save setKey key undoKey ident x c w =
     res_bind (del net key c w) (\<lambda>(ok, c, w).
     if \<not> ok then Inr (-1, c, w)
     else res_bind (srem net setKey ident c w) (\<lambda>(ok, c, w).
       if ok then Inr (0, c, w)
       else res_bind (setSerial net save undoKey x c w) (\<lambda>(_, c, w). Inr (-1, c, w))))"

text \<open>The calls of a transaction, up to the first that fails; then \<open>FinishTransaction\<close>,
  at the end of the function or at its label \<open>FAIL\<close>.\<close>

type_synonym 'w tstep = "nat option \<Rightarrow> client \<Rightarrow> 'w \<Rightarrow> (bool \<times> client \<times> 'w) res"

fun run_steps :: "'w tstep list \<Rightarrow> 'w tstep" where
  "run_steps [] con c w = Inr (True, c, w)"
| "run_steps (f # fs) con c w =
     res_bind (f con c w) (\<lambda>(ok, c, w). if ok then run_steps fs con c w else Inr (False, c, w))"

definition in_transaction :: "'w net \<Rightarrow> 'w tstep list \<Rightarrow> client \<Rightarrow> 'w \<Rightarrow> (int \<times> client \<times> 'w) res" where
  "in_transaction net steps c w =
     res_bind (PrepareTransaction net c w) (\<lambda>(con, c, w).
     case con of
       None \<Rightarrow> Inr (-1, c, w)
     | Some _ \<Rightarrow>
         res_bind (run_steps steps con c w) (\<lambda>(ok, c, w).
         res_bind (FinishTransaction net con c w) (\<lambda>(_, c, w). Inr (if ok then 0 else -1, c, w))))"

definition insert_in_transaction ::
  "'w net \<Rightarrow> ('e \<Rightarrow> db_out \<Rightarrow> db_out res) \<Rightarrow> string \<Rightarrow> string \<Rightarrow> string \<Rightarrow> 'e \<Rightarrow> client \<Rightarrow> 'w
   \<Rightarrow> (int \<times> client \<times> 'w) res" where
  "insert_in_transaction net save setKey key ident x = in_transaction net
     [StartTransaction net, \<lambda>con. TSet net save con key x, \<lambda>con. TSadd net con setKey ident,
      ExecTransaction net]"

definition delete_in_transaction ::
  "'w net \<Rightarrow> string \<Rightarrow> string \<Rightarrow> string \<Rightarrow> client \<Rightarrow> 'w \<Rightarrow> (int \<times> client \<times> 'w) res" where
  "delete_in_transaction net setKey key ident = in_transaction net
     [StartTransaction net, \<lambda>con. TDel net con key, \<lambda>con. TSrem net con setKey ident,
      ExecTransaction net]"

definition search ::
  "'w net \<Rightarrow> 'e loader \<Rightarrow> string \<Rightarrow> string \<Rightarrow> string \<Rightarrow> 'e \<Rightarrow> client \<Rightarrow> 'w \<Rightarrow> (int \<times> 'e \<times> client \<times> 'w) res" where
  "search net load setKey key ident x c w =
     res_bind (sismember net setKey ident c w) (\<lambda>(exist, c, w).
     if exist then
       res_bind (getSerial net load key x c w) (\<lambda>(ok, x, c, w). Inr (if ok then 0 else -1, x, c, w))
     else Inr (-1, x, c, w))"

text \<open>One object per identifier; those that load are appended, after \<open>touch\<close>.\<close>

fun load_ids ::
  "'w net \<Rightarrow> 'e loader \<Rightarrow> string \<Rightarrow> 'e \<Rightarrow> ('e \<Rightarrow> 'e) \<Rightarrow> string list \<Rightarrow> 'e list \<Rightarrow> client \<Rightarrow> 'w
   \<Rightarrow> (int \<times> 'e list \<times> client \<times> 'w) res" where
  "load_ids net load prefix new touch [] xs c w = Inr (0, xs, c, w)"
| "load_ids net load prefix new touch (i # is) xs c w =
     res_bind (getSerial net load (prefix @ i) new c w) (\<lambda>(ok, x, c, w).
       load_ids net load prefix new touch is (if ok then xs @ [touch x] else xs) c w)"

definition load_all ::
  "'w net \<Rightarrow> 'e loader \<Rightarrow> string \<Rightarrow> string \<Rightarrow> 'e \<Rightarrow> ('e \<Rightarrow> 'e) \<Rightarrow> 'e list \<Rightarrow> client \<Rightarrow> 'w
   \<Rightarrow> (int \<times> 'e list \<times> client \<times> 'w) res" where
  "load_all net load setKey prefix new touch xs c w =
     res_bind (smembers net setKey [] c w) (\<lambda>(_, is, c, w).
       load_ids net load prefix new touch is xs c w)"

fun del_ids :: "'w net \<Rightarrow> string \<Rightarrow> string list \<Rightarrow> client \<Rightarrow> 'w \<Rightarrow> (client \<times> 'w) res" where
  "del_ids net prefix [] c w = Inr (c, w)"
| "del_ids net prefix (i # is) c w =
     res_bind (del net (prefix @ i) c w) (\<lambda>(_, c, w). del_ids net prefix is c w)"

definition clear_all :: "'w net \<Rightarrow> string \<Rightarrow> string \<Rightarrow> client \<Rightarrow> 'w \<Rightarrow> (client \<times> 'w) res" where
  "clear_all net setKey prefix c w =
     res_bind (smembers net setKey [] c w) (\<lambda>(_, is, c, w).
     res_bind (del net setKey c w) (\<lambda>(_, c, w). del_ids net prefix is c w))"

fun add_all ::
  "'w net \<Rightarrow> ('e \<Rightarrow> db_out \<Rightarrow> db_out res) \<Rightarrow> string \<Rightarrow> string \<Rightarrow> ('e \<Rightarrow> string) \<Rightarrow> 'e list \<Rightarrow> client \<Rightarrow> 'w
   \<Rightarrow> (client \<times> 'w) res" where
  "add_all net save setKey prefix ident [] c w = Inr (c, w)"
| "add_all net save setKey prefix ident (x # xs) c w =
     res_bind (sadd net setKey (ident x) c w) (\<lambda>(_, c, w).
     res_bind (setSerial net save (prefix @ ident x) x c w) (\<lambda>(_, c, w).
       add_all net save setKey prefix ident xs c w))"

definition update_all ::
  "'w net \<Rightarrow> ('e \<Rightarrow> db_out \<Rightarrow> db_out res) \<Rightarrow> string \<Rightarrow> string \<Rightarrow> ('e \<Rightarrow> string) \<Rightarrow> 'e list \<Rightarrow> client \<Rightarrow> 'w
   \<Rightarrow> (int \<times> client \<times> 'w) res" where
  "update_all net save setKey prefix ident xs c w =
     res_bind (clear_all net setKey prefix c w) (\<lambda>(c, w).
     res_bind (add_all net save setKey prefix ident xs c w) (\<lambda>(c, w). Inr (0, c, w)))"

section \<open>Devices\<close>

definition device_key :: string where
  "device_key = ''gbddrdeviceset''"

definition LoadDevices :: "'w net \<Rightarrow> device list \<Rightarrow> client \<Rightarrow> 'w \<Rightarrow> (int \<times> device list \<times> client \<times> 'w) res" where
  "LoadDevices net = load_all net device_load device_key device_key (Device []) id"

definition SearchDevice ::
  "'w net \<Rightarrow> string \<Rightarrow> device \<Rightarrow> client \<Rightarrow> 'w \<Rightarrow> (int \<times> device \<times> client \<times> 'w) res" where
  "SearchDevice net i = search net device_load device_key (device_key @ i) i"

definition InsertDeviceInCluster :: "'w net \<Rightarrow> device \<Rightarrow> client \<Rightarrow> 'w \<Rightarrow> (int \<times> client \<times> 'w) res" where
  "InsertDeviceInCluster net d = insert_in_cluster net device_save device_key
     (device_key @ GetDeviceId d) (device_key @ GetDeviceId d) (GetDeviceId d) d"

definition InsertDeviceInTransaction :: "'w net \<Rightarrow> device \<Rightarrow> client \<Rightarrow> 'w \<Rightarrow> (int \<times> client \<times> 'w) res" where
  "InsertDeviceInTransaction net d = insert_in_transaction net device_save device_key
     (device_key @ GetDeviceId d) (GetDeviceId d) d"

definition InsertDevice :: "'w net \<Rightarrow> RedisMode \<Rightarrow> device \<Rightarrow> client \<Rightarrow> 'w \<Rightarrow> (int \<times> client \<times> 'w) res" where
  "InsertDevice net mode d =
     (if mode = STAND_ALONE_OR_PROXY_MODE then InsertDeviceInTransaction net d
      else InsertDeviceInCluster net d)"

definition DeleteDeviceInCluster :: "'w net \<Rightarrow> device \<Rightarrow> client \<Rightarrow> 'w \<Rightarrow> (int \<times> client \<times> 'w) res" where
  "DeleteDeviceInCluster net d = delete_in_cluster net device_save device_key
     (device_key @ GetDeviceId d) (device_key @ GetDeviceId d) (GetDeviceId d) d"

definition DeleteDeviceInTransaction :: "'w net \<Rightarrow> device \<Rightarrow> client \<Rightarrow> 'w \<Rightarrow> (int \<times> client \<times> 'w) res" where
  "DeleteDeviceInTransaction net d = delete_in_transaction net device_key
     (device_key @ GetDeviceId d) (GetDeviceId d)"

definition DeleteDevice :: "'w net \<Rightarrow> RedisMode \<Rightarrow> device \<Rightarrow> client \<Rightarrow> 'w \<Rightarrow> (int \<times> client \<times> 'w) res" where
  "DeleteDevice net mode d =
     (if mode = STAND_ALONE_OR_PROXY_MODE then DeleteDeviceInTransaction net d
      else DeleteDeviceInCluster net d)"

definition ClearDevices :: "'w net \<Rightarrow> client \<Rightarrow> 'w \<Rightarrow> (int \<times> client \<times> 'w) res" where
  "ClearDevices net c w =
     res_bind (clear_all net device_key device_key c w) (\<lambda>(c, w). Inr (0, c, w))"

definition UpdateDevices :: "'w net \<Rightarrow> device list \<Rightarrow> client \<Rightarrow> 'w \<Rightarrow> (int \<times> client \<times> 'w) res" where
  "UpdateDevices net = update_all net device_save device_key device_key GetDeviceId"

definition GetDeviceCount :: "'w net \<Rightarrow> client \<Rightarrow> 'w \<Rightarrow> (int \<times> client \<times> 'w) res" where
  "GetDeviceCount net = scard net device_key"

section \<open>Channels\<close>

definition channel_key :: string where
  "channel_key = ''gbddrchannelset''"

definition LoadChannels :: "'w net \<Rightarrow> channel list \<Rightarrow> client \<Rightarrow> 'w \<Rightarrow> (int \<times> channel list \<times> client \<times> 'w) res" where
  "LoadChannels net = load_all net channel_load channel_key channel_key (Channel [] []) id"

definition SearchChannel ::
  "'w net \<Rightarrow> string \<Rightarrow> channel \<Rightarrow> client \<Rightarrow> 'w \<Rightarrow> (int \<times> channel \<times> client \<times> 'w) res" where
  "SearchChannel net i = search net channel_load channel_key (channel_key @ i) i"

definition InsertChannelInCluster :: "'w net \<Rightarrow> channel \<Rightarrow> client \<Rightarrow> 'w \<Rightarrow> (int \<times> client \<times> 'w) res" where
  "InsertChannelInCluster net x = insert_in_cluster net channel_save channel_key
     (channel_key @ GetChannelId x) (channel_key @ GetChannelId x) (GetChannelId x) x"

definition InsertChannelInTransaction :: "'w net \<Rightarrow> channel \<Rightarrow> client \<Rightarrow> 'w \<Rightarrow> (int \<times> client \<times> 'w) res" where
  "InsertChannelInTransaction net x = insert_in_transaction net channel_save channel_key
     (channel_key @ GetChannelId x) (GetChannelId x) x"

definition InsertChannel :: "'w net \<Rightarrow> RedisMode \<Rightarrow> channel \<Rightarrow> client \<Rightarrow> 'w \<Rightarrow> (int \<times> client \<times> 'w) res" where
  "InsertChannel net mode x =
     (if mode = STAND_ALONE_OR_PROXY_MODE then InsertChannelInTransaction net x
      else InsertChannelInCluster net x)"

definition DeleteChannelInCluster :: "'w net \<Rightarrow> channel \<Rightarrow> client \<Rightarrow> 'w \<Rightarrow> (int \<times> client \<times> 'w) res" where
  "DeleteChannelInCluster net x = delete_in_cluster net channel_save channel_key
     (channel_key @ GetChannelId x) (channel_key @ GetChannelId x) (GetChannelId x) x"

definition DeleteChannelInTransaction :: "'w net \<Rightarrow> channel \<Rightarrow> client \<Rightarrow> 'w \<Rightarrow> (int \<times> client \<times> 'w) res" where
  "DeleteChannelInTransaction net x = delete_in_transaction net channel_key
     (channel_key @ GetChannelId x) (GetChannelId x)"

definition DeleteChannel :: "'w net \<Rightarrow> RedisMode \<Rightarrow> channel \<Rightarrow> client \<Rightarrow> 'w \<Rightarrow> (int \<times> client \<times> 'w) res" where
  "DeleteChannel net mode x =
     (if mode = STAND_ALONE_OR_PROXY_MODE then DeleteChannelInTransaction net x
      else DeleteChannelInCluster net x)"

definition ClearChannels :: "'w net \<Rightarrow> client \<Rightarrow> 'w \<Rightarrow> (int \<times> client \<times> 'w) res" where
  "ClearChannels net c w =
     res_bind (clear_all net channel_key channel_key c w) (\<lambda>(c, w). Inr (0, c, w))"

definition UpdateChannels :: "'w net \<Rightarrow> channel list \<Rightarrow> client \<Rightarrow> 'w \<Rightarrow> (int \<times> client \<times> 'w) res" where
  "UpdateChannels net = update_all net channel_save channel_key channel_key GetChannelId"

definition GetChannelCount :: "'w net \<Rightarrow> client \<Rightarrow> 'w \<Rightarrow> (int \<times> client \<times> 'w) res" where
  "GetChannelCount net = scard net channel_key"

section \<open>Executing invite commands\<close>

text \<open>One set and one range of keys per worker thread.  \<open>n\<close> is \<open>worker_thread_num_\<close>.\<close>

definition cmd_key :: string where
  "cmd_key = ''gbddrexecutinginvitecmdset''"

definition worker_key :: "int \<Rightarrow> string" where
  "worker_key no = cmd_key @ show_int no"

definition worker_ok :: "int \<Rightarrow> int \<Rightarrow> bool" where
  "worker_ok n no \<longleftrightarrow> \<not> (no < 0 \<or> no \<ge> n)"

definition LoadCmds ::
  "'w net \<Rightarrow> int \<Rightarrow> executing_invite_cmd \<Rightarrow> int \<Rightarrow> executing_invite_cmd list \<Rightarrow> client \<Rightarrow> 'w
   \<Rightarrow> (int \<times> executing_invite_cmd list \<times> client \<times> 'w) res" where
  "LoadCmds net n junk no xs c w =
     (if \<not> worker_ok n no then Inr (-1, xs, c, w)
      else load_all net cmd_load (worker_key no) (worker_key no)
        (ExecutingInviteCmd junk (cmd_seq junk)) (SetSipRestarted True) xs c w)"

text \<open>The loop over the workers; the result of each call is ignored.\<close>

fun load_workers ::
  "'w net \<Rightarrow> int \<Rightarrow> executing_invite_cmd \<Rightarrow> nat \<Rightarrow> nat \<Rightarrow> client \<Rightarrow> 'w
   \<Rightarrow> (executing_invite_cmd list list \<times> client \<times> 'w) res" where
  "load_workers net n junk i 0 c w = Inr ([], c, w)"
| "load_workers net n junk i (Suc k) c w =
     res_bind (LoadCmds net n junk (int i) [] c w) (\<lambda>(_, xs, c, w).
     res_bind (load_workers net n junk (Suc i) k c w) (\<lambda>(xss, c, w). Inr (xs # xss, c, w)))"

definition SearchCmd ::
  "'w net \<Rightarrow> int \<Rightarrow> string \<Rightarrow> executing_invite_cmd \<Rightarrow> int \<Rightarrow> client \<Rightarrow> 'w
   \<Rightarrow> (int \<times> executing_invite_cmd \<times> client \<times> 'w) res" where
  "SearchCmd net n i x no c w =
     (if \<not> worker_ok n no then Inr (-1, x, c, w)
      else search net cmd_load (worker_key no) (worker_key no @ i) i x c w)"

definition InsertCmdInCluster ::
  "'w net \<Rightarrow> executing_invite_cmd \<Rightarrow> int \<Rightarrow> client \<Rightarrow> 'w \<Rightarrow> (int \<times> client \<times> 'w) res" where
  "InsertCmdInCluster net x no = insert_in_cluster net cmd_save (worker_key no)
     (worker_key no @ GetId x) (cmd_key @ GetId x) (GetId x) x"

definition InsertCmdInTransaction ::
  "'w net \<Rightarrow> executing_invite_cmd \<Rightarrow> int \<Rightarrow> client \<Rightarrow> 'w \<Rightarrow> (int \<times> client \<times> 'w) res" where
  "InsertCmdInTransaction net x no = insert_in_transaction net cmd_save (worker_key no)
     (worker_key no @ GetId x) (GetId x) x"

definition InsertCmd ::
  "'w net \<Rightarrow> RedisMode \<Rightarrow> int \<Rightarrow> executing_invite_cmd \<Rightarrow> int \<Rightarrow> client \<Rightarrow> 'w \<Rightarrow> (int \<times> client \<times> 'w) res" where
  "InsertCmd net mode n x no c w =
     (if \<not> worker_ok n no then Inr (-1, c, w)
      else if mode = STAND_ALONE_OR_PROXY_MODE then InsertCmdInTransaction net x no c w
      else InsertCmdInCluster net x no c w)"

definition DeleteCmdInCluster ::
  "'w net \<Rightarrow> executing_invite_cmd \<Rightarrow> int \<Rightarrow> client \<Rightarrow> 'w \<Rightarrow> (int \<times> client \<times> 'w) res" where
  "DeleteCmdInCluster net x no = delete_in_cluster net cmd_save (worker_key no)
     (worker_key no @ GetId x) (cmd_key @ GetId x) (GetId x) x"

definition DeleteCmdInTransaction ::
  "'w net \<Rightarrow> executing_invite_cmd \<Rightarrow> int \<Rightarrow> client \<Rightarrow> 'w \<Rightarrow> (int \<times> client \<times> 'w) res" where
  "DeleteCmdInTransaction net x no = delete_in_transaction net (worker_key no)
     (worker_key no @ GetId x) (GetId x)"

definition DeleteCmd ::
  "'w net \<Rightarrow> RedisMode \<Rightarrow> int \<Rightarrow> executing_invite_cmd \<Rightarrow> int \<Rightarrow> client \<Rightarrow> 'w \<Rightarrow> (int \<times> client \<times> 'w) res" where
  "DeleteCmd net mode n x no c w =
     (if \<not> worker_ok n no then Inr (-1, c, w)
      else if mode = STAND_ALONE_OR_PROXY_MODE then DeleteCmdInTransaction net x no c w
      else DeleteCmdInCluster net x no c w)"

definition ClearCmds :: "'w net \<Rightarrow> int \<Rightarrow> int \<Rightarrow> client \<Rightarrow> 'w \<Rightarrow> (int \<times> client \<times> 'w) res" where
  "ClearCmds net n no c w =
     (if \<not> worker_ok n no then Inr (-1, c, w)
      else res_bind (clear_all net (worker_key no) (worker_key no) c w) (\<lambda>(c, w). Inr (0, c, w)))"

fun clear_workers :: "'w net \<Rightarrow> int \<Rightarrow> nat \<Rightarrow> nat \<Rightarrow> client \<Rightarrow> 'w \<Rightarrow> (int \<times> client \<times> 'w) res" where
  "clear_workers net n i 0 c w = Inr (0, c, w)"
| "clear_workers net n i (Suc k) c w =
     res_bind (ClearCmds net n (int i) c w) (\<lambda>(_, c, w). clear_workers net n (Suc i) k c w)"

definition UpdateCmds ::
  "'w net \<Rightarrow> int \<Rightarrow> executing_invite_cmd list \<Rightarrow> int \<Rightarrow> client \<Rightarrow> 'w \<Rightarrow> (int \<times> client \<times> 'w) res" where
  "UpdateCmds net n xs no c w =
     (if \<not> worker_ok n no then Inr (-1, c, w)
      else update_all net cmd_save (worker_key no) (worker_key no) GetId xs c w)"

fun update_workers ::
  "'w net \<Rightarrow> int \<Rightarrow> executing_invite_cmd list list \<Rightarrow> nat \<Rightarrow> client \<Rightarrow> 'w \<Rightarrow> (int \<times> client \<times> 'w) res" where
  "update_workers net n [] i c w = Inr (0, c, w)"
| "update_workers net n (xs # xss) i c w =
     res_bind (UpdateCmds net n xs (int i) c w) (\<lambda>(_, c, w). update_workers net n xss (Suc i) c w)"

definition UpdateAllCmds ::
  "'w net \<Rightarrow> int \<Rightarrow> executing_invite_cmd list list \<Rightarrow> client \<Rightarrow> 'w \<Rightarrow> (int \<times> client \<times> 'w) res" where
  "UpdateAllCmds net n xss c w =
     (if int (length xss) \<noteq> n then Inr (-1, c, w) else update_workers net n xss 0 c w)"

definition GetExecutingInviteCmdListSize ::
  "'w net \<Rightarrow> int \<Rightarrow> int \<Rightarrow> client \<Rightarrow> 'w \<Rightarrow> (int \<times> client \<times> 'w) res" where
  "GetExecutingInviteCmdListSize net n no c w =
     (if \<not> worker_ok n no then Inr (-1, c, w) else scard net (worker_key no) c w)"

end
