(* ===== verification/Manager_Spec.thy ===== *)
theory Manager_Spec
  imports Managers Ref_Server
begin

text \<open>
  What a manager promises: it is a finite map from identifiers to entities.
  \<open>represents\<close> relates such a map to the data of the server, and each operation of a
  manager is shown to be the operation on the map, over every network that meets
  \<open>redis_net\<close> and for every entity that meets \<open>serial\<close>.
\<close>

section \<open>The map behind a manager\<close>

text \<open>A key serves both as the key of the set and as the prefix of the keys of the data.\<close>

definition represents :: "string \<Rightarrow> ('e \<Rightarrow> bytes) \<Rightarrow> (string \<rightharpoonup> 'e) \<Rightarrow> db \<Rightarrow> bool" where
  "represents key enc M db \<longleftrightarrow> members_of db key = Some (dom M)
     \<and> (\<forall>i x. M i = Some x \<longrightarrow> db (key @ i) = Some (RStr (enc x)))"

text \<open>The entities that can be stored: an identifier that is not empty (the key of the
  data would be the key of the set), no zero bytes, and data that fit a request.\<close>

definition storable :: "string \<Rightarrow> ('e \<Rightarrow> bytes) \<Rightarrow> ('e \<Rightarrow> bool) \<Rightarrow> ('e \<Rightarrow> string) \<Rightarrow> 'e \<Rightarrow> bool" where
  "storable key enc ok ident x \<longleftrightarrow> ok x \<and> ident x \<noteq> [] \<and> str_ok (ident x)
     \<and> arg_small (key @ ident x) \<and> arg_small (enc x)"

definition map_ok :: "string \<Rightarrow> ('e \<Rightarrow> bytes) \<Rightarrow> ('e \<Rightarrow> bool) \<Rightarrow> ('e \<Rightarrow> string) \<Rightarrow> (string \<rightharpoonup> 'e) \<Rightarrow> bool" where
  "map_ok key enc ok ident M \<longleftrightarrow>
     (\<forall>i x. M i = Some x \<longrightarrow> ident x = i \<and> storable key enc ok ident x)"

definition map_small :: "(string \<rightharpoonup> 'e) \<Rightarrow> bool" where
  "map_small M \<longleftrightarrow> small_set (dom M)"

lemma map_ok_upd:
  "map_ok key enc ok ident M \<Longrightarrow> storable key enc ok ident x \<Longrightarrow> map_ok key enc ok ident (M(ident x \<mapsto> x))"
  by (simp add: map_ok_def)

lemma map_ok_del: "map_ok key enc ok ident M \<Longrightarrow> map_ok key enc ok ident (M(i := None))"
  by (simp add: map_ok_def)

lemma members_put_set [simp]:
  "members_of (put_set k S db) k = Some S" "k' \<noteq> k \<Longrightarrow> put_set k S db k' = db k'"
  by (simp_all add: members_of_def put_set_def)

lemma members_of_upd [simp]: "k \<noteq> k' \<Longrightarrow> members_of (db(k' := v)) k = members_of db k"
  by (simp add: members_of_def)

text \<open>The data after an insertion, in either order of the two commands, and after a
  deletion.\<close>

definition inserted :: "string \<Rightarrow> ('e \<Rightarrow> bytes) \<Rightarrow> (string \<rightharpoonup> 'e) \<Rightarrow> string \<Rightarrow> 'e \<Rightarrow> db \<Rightarrow> db" where
  "inserted key enc M i x db = put_set key (insert i (dom M)) (db(key @ i \<mapsto> RStr (enc x)))"

definition deleted :: "string \<Rightarrow> (string \<rightharpoonup> 'e) \<Rightarrow> string \<Rightarrow> db \<Rightarrow> db" where
  "deleted key M i db = put_set key (dom M - {i}) (db(key @ i := None))"

definition cleared :: "string \<Rightarrow> (string \<rightharpoonup> 'e) \<Rightarrow> db \<Rightarrow> db" where
  "cleared key M db k = (if k = key \<or> k \<in> (@) key ` dom M then None else db k)"

lemma inserted_swap:
  "i \<noteq> [] \<Longrightarrow> (put_set key (insert i (dom M)) db)(key @ i \<mapsto> RStr (enc x)) = inserted key enc M i x db"
  by (auto simp: inserted_def put_set_def fun_eq_iff)

lemma represents_inserted:
  assumes "represents key enc M db" "map_ok key enc ok ident M" "i \<noteq> []"
  shows "represents key enc (M(i \<mapsto> x)) (inserted key enc M i x db)"
  using assms by (fastforce simp: inserted_def represents_def map_ok_def storable_def)

lemma represents_deleted:
  assumes "represents key enc M db" "map_ok key enc ok ident M" "i \<noteq> []"
  shows "represents key enc (M(i := None)) (deleted key M i db)"
  using assms by (fastforce simp: deleted_def represents_def map_ok_def storable_def)

lemma represents_cleared: "represents key enc Map.empty (cleared key M db)"
  by (simp add: represents_def cleared_def members_of_def)

text \<open>Keys that do not start with the key of the manager are left alone.\<close>

definition foreign :: "string \<Rightarrow> string \<Rightarrow> bool" where
  "foreign key k \<longleftrightarrow> take (length key) k \<noteq> key"

lemma foreign_frame:
  assumes "foreign key k"
  shows "inserted key enc M i x db k = db k" "deleted key M i db k = db k" "cleared key M db k = db k"
proof -
  have "k \<noteq> key" "k \<noteq> key @ j" for j using assms by (auto simp: foreign_def)
  then show "inserted key enc M i x db k = db k" "deleted key M i db k = db k" "cleared key M db k = db k"
    by (auto simp: inserted_def deleted_def cleared_def)
qed

lemma represents_frame:
  assumes "represents key enc M db" "\<And>i. db' (key @ i) = db (key @ i)"
  shows "represents key enc M db'"
  using assms assms(2) [of "[]"] by (simp add: represents_def members_of_def)

text \<open>The reply to a transaction of the managers, and what the client makes of it.\<close>

lemma exec_reply_set:
  assumes "i \<in> {0, 1}"
  shows "reply_fits (RArray (map exec_elem [RStatus ''OK'', RInt i]))"
    "parseExecReply (reply_of (RArray (map exec_elem [RStatus ''OK'', RInt i])))"
  using assms by - ((elim insertE emptyE; hypsubst; code_simp)+)

lemma exec_reply_del:
  assumes "i \<in> {0, 1}" "j \<in> {0, 1}"
  shows "reply_fits (RArray (map exec_elem [RInt i, RInt j]))"
    "parseExecReply (reply_of (RArray (map exec_elem [RInt i, RInt j])))"
  using assms by - ((elim insertE emptyE; hypsubst; code_simp)+)

text \<open>The entities of a list, later ones on top.\<close>

definition put_all :: "('e \<Rightarrow> string) \<Rightarrow> 'e list \<Rightarrow> (string \<rightharpoonup> 'e) \<Rightarrow> (string \<rightharpoonup> 'e)" where
  "put_all ident xs M = fold (\<lambda>x M. M(ident x \<mapsto> x)) xs M"

lemma map_ok_put_all:
  "map_ok key enc ok ident M \<Longrightarrow> \<forall>x \<in> set xs. storable key enc ok ident x \<Longrightarrow>
   map_ok key enc ok ident (put_all ident xs M)"
  by (induction xs arbitrary: M) (simp_all add: put_all_def map_ok_upd)

lemma map_ok_empty [simp]: "map_ok key enc ok ident Map.empty"
  by (simp add: map_ok_def)

section \<open>The operations on the map\<close>

locale entity_store = redis_net net data tx + serial save load enc ok merge
  for net :: "'w net" and data :: "'w \<Rightarrow> db" and tx :: "sock \<Rightarrow> 'w \<Rightarrow> bytes list list option"
    and save load and enc :: "'a db_serialize_scheme \<Rightarrow> bytes" and ok merge
  + fixes key :: string and ident :: "'a db_serialize_scheme \<Rightarrow> string"
begin

abbreviation rep :: "(string \<rightharpoonup> 'a db_serialize_scheme) \<Rightarrow> db \<Rightarrow> bool" where
  "rep \<equiv> represents key enc"

abbreviation can_store :: "'a db_serialize_scheme \<Rightarrow> bool" where
  "can_store \<equiv> storable key enc ok ident"

abbreviation good :: "(string \<rightharpoonup> 'a db_serialize_scheme) \<Rightarrow> bool" where
  "good \<equiv> map_ok key enc ok ident"

lemma saved_enc: "arg_small (enc x) \<Longrightarrow> saved save x = Inr (enc x)"
  using save_fresh [of x] by (auto simp: saved_def arg_small_def stream_limit_def out_bytes_def getSize_def)

lemma can_storeD:
  assumes "can_store x"
  shows "arg_small key" "arg_small (key @ ident x)" "arg_small (ident x)" "arg_small (enc x)"
    "ident x \<noteq> []" "ok x" "saved save x = Inr (enc x)"
  using assms saved_enc by (auto simp: storable_def arg_small_def)

lemma insert_in_cluster_map:
  assumes cl: "client_ok tx c w" and rep: "rep M (data w)" "good M" and x: "can_store x"
  obtains c' w' where "insert_in_cluster net save key (key @ ident x) undo (ident x) x c w = Inr (0, c', w')"
    "ends (inserted key enc M (ident x) x (data w)) c c' w'"
proof -
  obtain c1 w1 where s1: "setSerial net save (key @ ident x) x c w = Inr (True, c1, w1)"
    "ends ((data w)(key @ ident x \<mapsto> RStr (enc x))) c c1 w1"
    by (rule setSerial_live [OF cl can_storeD(2,4,7) [OF x]])
  then have m: "members_of (data w1) key = Some (dom M)" "client_ok tx c1 w1"
    using rep can_storeD(5) [OF x] by (auto simp: ends_def represents_def)
  obtain c2 w2 where s2: "sadd net key (ident x) c1 w1 = Inr (True, c2, w2)"
    "ends (put_set key (insert (ident x) (dom M)) (data w1)) c1 c2 w2"
    by (rule sadd_live [OF m(2) can_storeD(1,3) [OF x] m(1)])
  show thesis
    using s1 s2 by (intro that [of c2 w2]) (auto simp: insert_in_cluster_def ends_def inserted_def)
qed

text \<open>A transaction of two queued commands.\<close>

lemma in_transaction_two:
  assumes cl: "client_ok tx c w" "m_redisMode c = STAND_ALONE_OR_PROXY_MODE"
    and a: "\<forall>v \<in> set (args a). arg_small v" "queueable (args a)"
    and b: "\<forall>v \<in> set (args b). arg_small v" "queueable (args b)"
    and t: "t \<in> {REDIS_COMMAND_SET, REDIS_COMMAND_DEL, REDIS_COMMAND_SADD, REDIS_COMMAND_SREM}"
      "u \<in> {REDIS_COMMAND_SET, REDIS_COMMAND_DEL, REDIS_COMMAND_SADD, REDIS_COMMAND_SREM}"
    and exec: "\<And>rs db'. run_queue [args a, args b] (data w) rs db' \<Longrightarrow> reply_fits (RArray (map exec_elem rs))
      \<and> parseExecReply (reply_of (RArray (map exec_elem rs))) \<and> db' = db2"
  obtains c' w' where "in_transaction net [StartTransaction net,
      \<lambda>con. doTransactionCommandInConnection net (build a) t con,
      \<lambda>con. doTransactionCommandInConnection net (build b) u con, ExecTransaction net] c w
      = Inr (0, c', w')" "ends db2 c c' w'"
proof -
  obtain k c1 w1 where s1: "PrepareTransaction net c w = Inr (Some k, c1, w1)" "holds k None c1 w1"
    "data w1 = data w" "serving c1 = serving c" by (rule PrepareTransaction_live [OF cl])
  obtain c2 w2 where s2: "StartTransaction net (Some k) c1 w1 = Inr (True, c2, w2)" "holds k (Some []) c2 w2"
    "data w2 = data w1" "serving c2 = serving c1" by (rule StartTransaction_live [OF s1(2)])
  obtain c3 w3 where s3: "doTransactionCommandInConnection net (build a) t (Some k) c2 w2 = Inr (True, c3, w3)"
    "holds k (Some ([] @ [args a])) c3 w3" "data w3 = data w2" "serving c3 = serving c2"
    by (rule queued_live [OF s2(2) a t(1)])
  obtain c4 w4 where s4: "doTransactionCommandInConnection net (build b) u (Some k) c3 w3 = Inr (True, c4, w4)"
    "holds k (Some ([args a] @ [args b])) c4 w4" "data w4 = data w3" "serving c4 = serving c3"
    using queued_live [OF s3(2) b t(2)] by auto
  have d: "data w4 = data w" using s1 s2 s3 s4 by simp
  have q: "list_all queueable ([args a] @ [args b])" using a(2) b(2) by simp
  have f: "\<forall>rs db. run_queue ([args a] @ [args b]) (data w4) rs db \<longrightarrow> reply_fits (RArray (map exec_elem rs))"
    unfolding d using exec by simp
  obtain rs c5 w5 where s5: "ExecTransaction net (Some k) c4 w4
      = Inr (parseExecReply (reply_of (RArray (map exec_elem rs))), c5, w5)"
    "run_queue ([args a] @ [args b]) (data w4) rs (data w5)" "holds k None c5 w5" "serving c5 = serving c4"
    by (rule ExecTransaction_live [OF s4(2) q f])
  have r: "parseExecReply (reply_of (RArray (map exec_elem rs)))" "data w5 = db2"
    using s5(2) exec [of rs "data w5"] unfolding d by simp_all
  obtain c6 where s6: "FinishTransaction net (Some k) c5 w5 = Inr (True, c6, w5)" "client_ok tx c6 w5"
    "m_redisMode c6 = m_redisMode c5" "serving c6 = serving c5" by (rule FinishTransaction_live [OF s5(3)])
  have "m_redisMode c5 = STAND_ALONE_OR_PROXY_MODE" using s5(3) by (simp add: holds_def)
  then show thesis using s1 s2 s3 s4 s5 s6 r cl
    by (intro that [of c6 w5]) (simp_all add: in_transaction_def ends_def)
qed

lemma insert_in_transaction_map:
  assumes cl: "client_ok tx c w" "m_redisMode c = STAND_ALONE_OR_PROXY_MODE"
    and rep: "rep M (data w)" "good M" and x: "can_store x"
  obtains c' w' where "insert_in_transaction net save key (key @ ident x) (ident x) x c w = Inr (0, c', w')"
    "ends (inserted key enc M (ident x) x (data w)) c c' w'"
proof -
  let ?a = "CSet (key @ ident x) (enc x)" and ?b = "CTSadd key (ident x)"
  let ?d = "(data w)(key @ ident x \<mapsto> RStr (enc x))"
  let ?db = "put_set key (insert (ident x) (dom M)) ?d"
  have m: "members_of ?d key = Some (dom M)"
    using rep(1) can_storeD(5) [OF x] by (simp add: represents_def)
  have ex: "reply_fits (RArray (map exec_elem rs)) \<and> parseExecReply (reply_of (RArray (map exec_elem rs))) \<and> db' = ?db"
    if "run_queue [args ?a, args ?b] (data w) rs db'" for rs db'
    using that m exec_reply_set [of "if ident x \<in> dom M then 0 else 1"]
    by (auto simp: redis_spec_def on_set_def)
  obtain c' w' where "in_transaction net [StartTransaction net,
      \<lambda>con. doTransactionCommandInConnection net (build ?a) REDIS_COMMAND_SET con,
      \<lambda>con. doTransactionCommandInConnection net (build ?b) REDIS_COMMAND_SADD con, ExecTransaction net] c w
      = Inr (0, c', w')" "ends ?db c c' w'"
    by (rule in_transaction_two [OF cl, of ?a ?b REDIS_COMMAND_SET REDIS_COMMAND_SADD ?db])
      (use can_storeD [OF x] ex in \<open>auto simp: queueable_def arg_small_def\<close>)
  then show thesis
    using can_storeD(7) [OF x] by (intro that [of c' w'])
      (auto simp: insert_in_transaction_def TSet_def [abs_def] TSadd_def [abs_def] inserted_def)
qed

lemma delete_in_cluster_present:
  assumes cl: "client_ok tx c w" and rep: "rep M (data w)" "good M" and x: "can_store x"
    and i: "key @ ident x \<in> dom (data w)"
  obtains c' w' where "delete_in_cluster net save key (key @ ident x) undo (ident x) x c w = Inr (0, c', w')"
    "ends (deleted key M (ident x) (data w)) c c' w'"
proof -
  obtain c1 w1 where s1: "del net (key @ ident x) c w = Inr (True, c1, w1)"
    "ends ((data w)(key @ ident x := None)) c c1 w1"
    using del_live [OF cl can_storeD(2) [OF x]] i by metis
  then have m: "members_of (data w1) key = Some (dom M)" "client_ok tx c1 w1"
    using rep(1) can_storeD(5) [OF x] by (auto simp: ends_def represents_def)
  obtain c2 w2 where s2: "srem net key (ident x) c1 w1 = Inr (True, c2, w2)"
    "ends (put_set key (dom M - {ident x}) (data w1)) c1 c2 w2"
    by (rule srem_live [OF m(2) can_storeD(1,3) [OF x] m(1)])
  show thesis
    using s1 s2 by (intro that [of c2 w2]) (auto simp: delete_in_cluster_def ends_def deleted_def)
qed

lemma delete_in_cluster_map:
  assumes cl: "client_ok tx c w" and rep: "rep M (data w)" "good M" and x: "can_store x"
    and i: "ident x \<in> dom M"
  obtains c' w' where "delete_in_cluster net save key (key @ ident x) undo (ident x) x c w = Inr (0, c', w')"
    "ends (deleted key M (ident x) (data w)) c c' w'"
proof -
  have "key @ ident x \<in> dom (data w)" using rep(1) i by (auto simp: represents_def)
  then show thesis using delete_in_cluster_present [OF cl rep x] that by blast
qed

lemma delete_in_transaction_map:
  assumes cl: "client_ok tx c w" "m_redisMode c = STAND_ALONE_OR_PROXY_MODE"
    and rep: "rep M (data w)" "good M" and x: "can_store x"
  obtains c' w' where "delete_in_transaction net key (key @ ident x) (ident x) c w = Inr (0, c', w')"
    "ends (deleted key M (ident x) (data w)) c c' w'"
proof -
  let ?a = "CDel (key @ ident x)" and ?b = "CTSrem key (ident x)"
  let ?d = "(data w)(key @ ident x := None)" and ?i = "key @ ident x \<in> dom (data w)"
  let ?db = "put_set key (dom M - {ident x}) ?d"
  have m: "members_of ?d key = Some (dom M)"
    using rep(1) can_storeD(5) [OF x] by (simp add: represents_def)
  have ex: "reply_fits (RArray (map exec_elem rs)) \<and> parseExecReply (reply_of (RArray (map exec_elem rs))) \<and> db' = ?db"
    if "run_queue [args ?a, args ?b] (data w) rs db'" for rs db'
    using that m exec_reply_del [of "if ?i then 1 else 0" "if ident x \<in> dom M then 1 else 0"]
    by (auto simp: redis_spec_def on_set_def simp del: exec_elem.simps reply_of.simps)
  obtain c' w' where "in_transaction net [StartTransaction net,
      \<lambda>con. doTransactionCommandInConnection net (build ?a) REDIS_COMMAND_DEL con,
      \<lambda>con. doTransactionCommandInConnection net (build ?b) REDIS_COMMAND_SREM con, ExecTransaction net] c w
      = Inr (0, c', w')" "ends ?db c c' w'"
    by (rule in_transaction_two [OF cl, of ?a ?b REDIS_COMMAND_DEL REDIS_COMMAND_SREM ?db])
      (use can_storeD [OF x] ex in \<open>auto simp: queueable_def arg_small_def\<close>)
  then show thesis
    by (intro that [of c' w'])
      (auto simp: delete_in_transaction_def TDel_def [abs_def] TSrem_def [abs_def] deleted_def)
qed

lemma get_entity:
  assumes cl: "client_ok tx c w" and rep: "rep M (data w)" "good M" and x: "M i = Some x"
  obtains c' w' where "getSerial net load (key @ i) old c w = Inr (True, merge old x, c', w')"
    "ends (data w) c c' w'"
proof -
  have s: "can_store x" "ident x = i" using rep(2) x by (auto simp: map_ok_def)
  obtain inp where l: "load old (DBInStream (enc x @ [NUL]) (length (enc x))) = Inr (merge old x, inp)"
    "m_loadError inp = 0" using load_fresh can_storeD(6) [OF s(1)] by blast
  have k: "arg_small (key @ i)" "data w (key @ i) = Some (RStr (enc x))" "length (enc x) < 2 ^ 29"
    using can_storeD [OF s(1)] s(2) rep(1) x by (auto simp: represents_def arg_small_def)
  show thesis by (rule getSerial_live [where load = load and sr = old, OF cl k l]) (rule that)
qed

lemma search_map:
  assumes cl: "client_ok tx c w" and rep: "rep M (data w)" "good M" and i: "arg_small (key @ i)"
  obtains c' w' where "search net load key (key @ i) i old c w
      = Inr (case M i of None \<Rightarrow> (-1, old, c', w') | Some x \<Rightarrow> (0, merge old x, c', w'))"
    "ends (data w) c c' w'"
proof -
  have k: "arg_small key" "arg_small i" "members_of (data w) key = Some (dom M)"
    using i rep(1) by (auto simp: represents_def arg_small_def)
  obtain c1 w1 where s1: "sismember net key i c w = Inr (i \<in> dom M, c1, w1)" "ends (data w) c c1 w1"
    by (rule sismember_live [OF cl k])
  show thesis
  proof (cases "M i")
    case None
    then show thesis using s1 by (intro that [of c1 w1]) (auto simp: search_def)
  next
    case (Some x)
    have c1: "client_ok tx c1 w1" "rep M (data w1)" using s1(2) rep(1) by (auto simp: ends_def)
    obtain c2 w2 where s2: "getSerial net load (key @ i) old c1 w1 = Inr (True, merge old x, c2, w2)"
      "ends (data w1) c1 c2 w2" by (rule get_entity [OF c1 rep(2) Some])
    have "i \<in> dom M" using Some by blast
    then show thesis using s1 s2 Some by (intro that [of c2 w2]) (auto simp: search_def ends_def)
  qed
qed

lemma load_ids_map:
  assumes "client_ok tx c w" "rep M (data w)" "good M" "set is \<subseteq> dom M"
  shows "\<exists>c' w'. load_ids net load key old touch is xs c w
      = Inr (0, xs @ map (\<lambda>i. touch (merge old (the (M i)))) is, c', w') \<and> ends (data w) c c' w'"
  using assms
proof (induction "is" arbitrary: xs c w)
  case Nil
  then show ?case by (simp add: ends_def)
next
  case (Cons i "is")
  then obtain x where x: "M i = Some x" by auto
  obtain c1 w1 where s1: "getSerial net load (key @ i) old c w = Inr (True, merge old x, c1, w1)"
    "ends (data w) c c1 w1" by (rule get_entity [OF Cons.prems(1-3) x])
  then have "client_ok tx c1 w1" "rep M (data w1)" using Cons.prems by (auto simp: ends_def)
  from Cons.IH [OF this Cons.prems(3), of "xs @ [touch (merge old x)]"] s1 x Cons.prems(4)
  show ?case by (auto simp: ends_def)
qed

lemma load_all_map:
  assumes cl: "client_ok tx c w" and rep: "rep M (data w)" "good M" and k: "arg_small key" "map_small M"
  obtains "is" c' w' where "load_all net load key key old touch xs c w
      = Inr (0, xs @ map (\<lambda>i. touch (merge old (the (M i)))) is, c', w')"
    "set is = dom M" "distinct is" "ends (data w) c c' w'"
proof -
  have m: "members_of (data w) key = Some (dom M)" "small_set (dom M)"
    using rep(1) k(2) by (auto simp: represents_def map_small_def)
  obtain ms c1 w1 where s1: "smembers net key [] c w = Inr (True, [] @ ms, c1, w1)" "set ms = dom M"
    "distinct ms" "ends (data w) c c1 w1" by (rule smembers_live [OF cl k(1) m])
  then have "client_ok tx c1 w1" "rep M (data w1)" using rep by (auto simp: ends_def)
  then obtain c2 w2 where "load_ids net load key old touch ms xs c1 w1
      = Inr (0, xs @ map (\<lambda>i. touch (merge old (the (M i)))) ms, c2, w2)" "ends (data w1) c1 c2 w2"
    using load_ids_map [of c1 w1 M ms] rep(2) s1(2) by blast
  then show thesis using s1 by (intro that [of ms c2 w2]) (auto simp: load_all_def ends_def)
qed

lemma del_ids_map:
  assumes "client_ok tx c w" "\<forall>i \<in> set is. arg_small (key @ i)"
  shows "\<exists>c' w'. del_ids net key is c w = Inr (c', w')
      \<and> ends (\<lambda>k. if k \<in> (@) key ` set is then None else data w k) c c' w'"
  using assms
proof (induction "is" arbitrary: c w)
  case Nil
  then show ?case by (simp add: ends_def)
next
  case (Cons i "is")
  then obtain b c1 w1 where s1: "del net (key @ i) c w = Inr (b, c1, w1)"
    "ends ((data w)(key @ i := None)) c c1 w1" using del_live [of c w "key @ i"] by (metis list.set_intros(1))
  then have "client_ok tx c1 w1" by (simp add: ends_def)
  from Cons.IH [OF this] Cons.prems(2) obtain c2 w2 where "del_ids net key is c1 w1 = Inr (c2, w2)"
    "ends (\<lambda>k. if k \<in> (@) key ` set is then None else data w1 k) c1 c2 w2" by auto
  moreover have "(\<lambda>k. if k \<in> (@) key ` set is then None else data w1 k)
      = (\<lambda>k. if k \<in> (@) key ` set (i # is) then None else data w k)"
    using s1(2) by (auto simp: ends_def fun_eq_iff)
  ultimately show ?case using s1 by (auto simp: ends_def)
qed

lemma clear_all_map:
  assumes cl: "client_ok tx c w" and rep: "rep M (data w)" "good M" and k: "arg_small key" "map_small M"
  obtains c' w' where "clear_all net key key c w = Inr (c', w')"
    "ends (cleared key M (data w)) c c' w'"
proof -
  have m: "members_of (data w) key = Some (dom M)" "small_set (dom M)"
    using rep(1) k(2) by (auto simp: represents_def map_small_def)
  obtain ms c1 w1 where s1: "smembers net key [] c w = Inr (True, [] @ ms, c1, w1)" "set ms = dom M"
    "ends (data w) c c1 w1" using smembers_live [OF cl k(1) m] by metis
  then have c1: "client_ok tx c1 w1" by (simp add: ends_def)
  obtain b c2 w2 where s2: "del net key c1 w1 = Inr (b, c2, w2)" "ends ((data w1)(key := None)) c1 c2 w2"
    using del_live [OF c1 k(1)] by blast
  have ids: "\<forall>i \<in> set ms. arg_small (key @ i)"
    using s1(2) rep(2) by (auto simp: map_ok_def storable_def)
  have "client_ok tx c2 w2" using s2(2) by (simp add: ends_def)
  from del_ids_map [OF this ids] obtain c3 w3 where s3: "del_ids net key ms c2 w2 = Inr (c3, w3)"
    "ends (\<lambda>k. if k \<in> (@) key ` set ms then None else data w2 k) c2 c3 w3" by blast
  moreover have "(\<lambda>k. if k \<in> (@) key ` set ms then None else data w2 k)
      = cleared key M (data w)"
    using s1 s2 by (auto simp: ends_def cleared_def fun_eq_iff)
  ultimately show thesis using s1 s2 by (intro that [of c3 w3]) (auto simp: clear_all_def ends_def)
qed

lemma add_all_map:
  assumes "client_ok tx c w" "rep M (data w)" "good M" "\<forall>x \<in> set xs. can_store x"
  shows "\<exists>c' w'. add_all net save key key ident xs c w = Inr (c', w') \<and> ends (data w') c c' w'
      \<and> rep (put_all ident xs M) (data w') \<and> (\<forall>k. foreign key k \<longrightarrow> data w' k = data w k)"
  using assms
proof (induction xs arbitrary: M c w)
  case Nil
  then show ?case by (simp add: ends_def put_all_def)
next
  case (Cons x xs)
  then have x: "can_store x" and m: "members_of (data w) key = Some (dom M)"
    by (auto simp: represents_def)
  obtain c1 w1 where s1: "sadd net key (ident x) c w = Inr (True, c1, w1)"
    "ends (put_set key (insert (ident x) (dom M)) (data w)) c c1 w1"
    by (rule sadd_live [OF Cons.prems(1) can_storeD(1,3) [OF x] m])
  then have c1: "client_ok tx c1 w1" by (simp add: ends_def)
  obtain c2 w2 where s2: "setSerial net save (key @ ident x) x c1 w1 = Inr (True, c2, w2)"
    "ends ((data w1)(key @ ident x \<mapsto> RStr (enc x))) c1 c2 w2"
    by (rule setSerial_live [OF c1 can_storeD(2,4,7) [OF x]])
  have d: "data w2 = inserted key enc M (ident x) x (data w)"
    using s1 s2 inserted_swap [OF can_storeD(5) [OF x]] by (simp add: ends_def)
  have c2: "client_ok tx c2 w2" "rep (M(ident x \<mapsto> x)) (data w2)"
    using s2 represents_inserted [OF Cons.prems(2,3) can_storeD(5) [OF x], of x] d
    by (auto simp: ends_def)
  have "\<forall>y \<in> set xs. can_store y" using Cons.prems(4) by simp
  from Cons.IH [OF c2 map_ok_upd [OF Cons.prems(3) x] this] obtain c3 w3 where
    "add_all net save key key ident xs c2 w2 = Inr (c3, w3)" "ends (data w3) c2 c3 w3"
    "rep (put_all ident xs (M(ident x \<mapsto> x))) (data w3)" "\<forall>k. foreign key k \<longrightarrow> data w3 k = data w2 k"
    by blast
  moreover have "\<forall>k. foreign key k \<longrightarrow> data w2 k = data w k" by (simp add: d foreign_frame(1))
  ultimately show ?case using s1 s2 by (simp add: ends_def put_all_def)
qed

lemma update_all_map:
  assumes cl: "client_ok tx c w" and rep: "rep M (data w)" "good M" and k: "arg_small key" "map_small M"
    and xs: "\<forall>x \<in> set xs. can_store x"
  obtains c' w' where "update_all net save key key ident xs c w = Inr (0, c', w')" "ends (data w') c c' w'"
    "rep (put_all ident xs Map.empty) (data w')" "\<forall>k. foreign key k \<longrightarrow> data w' k = data w k"
proof -
  obtain c1 w1 where s1: "clear_all net key key c w = Inr (c1, w1)" "ends (cleared key M (data w)) c c1 w1"
    by (rule clear_all_map [OF cl rep k])
  then have "client_ok tx c1 w1" "rep Map.empty (data w1)" "good Map.empty"
    using represents_cleared by (auto simp: ends_def map_ok_def)
  from add_all_map [OF this xs] s1 show thesis
    by (auto simp: update_all_def ends_def foreign_frame(3) intro!: that)
qed

lemma count_map:
  assumes cl: "client_ok tx c w" and rep: "rep M (data w)" and k: "arg_small key" "map_small M"
  obtains c' w' where "scard net key c w = Inr (int (card (dom M)), c', w')" "ends (data w) c c' w'"
proof -
  have m: "members_of (data w) key = Some (dom M)" "int (card (dom M)) \<le> int32_max"
    using rep k(2) card_small_set [of "dom M"] by (auto simp: represents_def map_small_def int32_max_def)
  show thesis by (rule scard_live [OF cl k(1) m]) (rule that)
qed

text \<open>The operations of a manager as changes of its map.\<close>

definition becomes :: "(string \<rightharpoonup> 'a db_serialize_scheme) \<Rightarrow> client \<Rightarrow> 'w \<Rightarrow> client \<Rightarrow> 'w \<Rightarrow> bool" where
  "becomes M c w c' w' \<longleftrightarrow> client_ok tx c' w' \<and> m_redisMode c' = m_redisMode c \<and> rep M (data w') \<and> good M
     \<and> (\<forall>k. foreign key k \<longrightarrow> data w' k = data w k)"

lemma insert_becomes:
  assumes cl: "client_ok tx c w" and rep: "rep M (data w)" "good M" and x: "can_store x"
  shows "\<exists>c' w'. (if m_redisMode c = STAND_ALONE_OR_PROXY_MODE
      then insert_in_transaction net save key (key @ ident x) (ident x) x c w
      else insert_in_cluster net save key (key @ ident x) undo (ident x) x c w) = Inr (0, c', w')
    \<and> becomes (M(ident x \<mapsto> x)) c w c' w'"
proof -
  have new: "becomes (M(ident x \<mapsto> x)) c w c' w'" if "ends (inserted key enc M (ident x) x (data w)) c c' w'" for c' w'
    using that represents_inserted [OF rep can_storeD(5) [OF x], of x] map_ok_upd [OF rep(2) x]
    by (auto simp: becomes_def ends_def foreign_frame)
  show ?thesis
  proof (cases "m_redisMode c = STAND_ALONE_OR_PROXY_MODE")
    case True
    then show ?thesis using insert_in_transaction_map [OF cl True rep x] new by metis
  next
    case False
    then show ?thesis using insert_in_cluster_map [OF cl rep x] new by metis
  qed
qed

lemma delete_becomes:
  assumes cl: "client_ok tx c w" and rep: "rep M (data w)" "good M" and x: "can_store x"
  shows "\<exists>ret c' w'. (if m_redisMode c = STAND_ALONE_OR_PROXY_MODE
      then delete_in_transaction net key (key @ ident x) (ident x) c w
      else delete_in_cluster net save key (key @ ident x) undo (ident x) x c w) = Inr (ret, c', w')
    \<and> becomes (M(ident x := None)) c w c' w'"
proof -
  have gone: "becomes (M(ident x := None)) c w c' w'" if "ends (deleted key M (ident x) (data w)) c c' w'" for c' w'
    using that represents_deleted [OF rep can_storeD(5) [OF x]] map_ok_del [OF rep(2)]
    by (auto simp: becomes_def ends_def foreign_frame)
  show ?thesis
  proof (cases "m_redisMode c = STAND_ALONE_OR_PROXY_MODE")
    case True
    then show ?thesis using delete_in_transaction_map [OF cl True rep x] gone by metis
  next
    case False
    show ?thesis
    proof (cases "key @ ident x \<in> dom (data w)")
      case True
      then show ?thesis using False delete_in_cluster_present [OF cl rep x True] gone by metis
    next
      case missing: False
      then have d: "(data w)(key @ ident x := None) = data w" by (auto simp: fun_eq_iff)
      have "M (ident x) = None" using missing rep(1) by (cases "M (ident x)") (auto simp: represents_def)
      then have M: "M(ident x := None) = M" by (auto simp: fun_eq_iff)
      obtain c1 w1 where "del net (key @ ident x) c w = Inr (False, c1, w1)" "ends (data w) c c1 w1"
        using del_live [OF cl can_storeD(2) [OF x]] missing unfolding d by metis
      then show ?thesis using False rep by (auto simp: delete_in_cluster_def M becomes_def ends_def)
    qed
  qed
qed

lemma clear_becomes:
  assumes "client_ok tx c w" "rep M (data w)" "good M" "arg_small key" "map_small M"
  shows "\<exists>c' w'. clear_all net key key c w = Inr (c', w') \<and> becomes Map.empty c w c' w'"
proof -
  obtain c' w' where "clear_all net key key c w = Inr (c', w')" "ends (cleared key M (data w)) c c' w'"
    by (rule clear_all_map [OF assms])
  then show ?thesis using represents_cleared [of key enc M "data w"] by (auto simp: becomes_def ends_def foreign_frame)
qed

lemma update_becomes:
  assumes "client_ok tx c w" "rep M (data w)" "good M" "arg_small key" "map_small M" "\<forall>x \<in> set xs. can_store x"
  shows "\<exists>c' w'. update_all net save key key ident xs c w = Inr (0, c', w') \<and> becomes (put_all ident xs Map.empty) c w c' w'"
proof -
  obtain c' w' where "update_all net save key key ident xs c w = Inr (0, c', w')" "ends (data w') c c' w'"
    "rep (put_all ident xs Map.empty) (data w')" "\<forall>k. foreign key k \<longrightarrow> data w' k = data w k"
    by (rule update_all_map [OF assms])
  then show ?thesis using map_ok_put_all [OF map_ok_empty assms(6)] by (auto simp: becomes_def ends_def)
qed

end

end
