(* ===== verification/Manager_Props.thy ===== *)
theory Manager_Props
  imports Manager_Spec
begin

text \<open>
  The properties of the three managers, from the map of \<open>Manager_Spec\<close>, with witnesses
  on the reference server; and the cases in which a manager does not keep its promise.
\<close>

section \<open>The managers as stores\<close>

lemma device_store:
  "redis_net net data tx \<Longrightarrow> entity_store net data tx device_save device_load device_enc device_ok device_merge"
  by (intro entity_store.intro device.serial_axioms)

lemma channel_store:
  "redis_net net data tx \<Longrightarrow>
   entity_store net data tx channel_save channel_load channel_enc channel_ok channel_merge"
  by (intro entity_store.intro channel.serial_axioms)

lemma cmd_store:
  "redis_net net data tx \<Longrightarrow> entity_store net data tx cmd_save cmd_load cmd_enc cmd_ok cmd_merge"
  by (intro entity_store.intro cmd.serial_axioms)

interpretation ref_device: entity_store ref_net ref_data ref_tx device_save device_load device_enc
  device_ok device_merge device_key GetDeviceId
  by (rule device_store) (rule ref.redis_net_axioms)

interpretation ref_channel: entity_store ref_net ref_data ref_tx channel_save channel_load channel_enc
  channel_ok channel_merge channel_key GetChannelId
  by (rule channel_store) (rule ref.redis_net_axioms)

interpretation ref_cmd: entity_store ref_net ref_data ref_tx cmd_save cmd_load cmd_enc
  cmd_ok cmd_merge "worker_key 0" GetId
  by (rule cmd_store) (rule ref.redis_net_axioms)

text \<open>The states of the managers: the map they hold, over the data of the server.\<close>

definition devices_at :: "(string \<rightharpoonup> device) \<Rightarrow> db \<Rightarrow> bool" where
  "devices_at M db \<longleftrightarrow> represents device_key device_enc M db
     \<and> map_ok device_key device_enc device_ok GetDeviceId M"

definition device_storable :: "device \<Rightarrow> bool" where
  "device_storable = storable device_key device_enc device_ok GetDeviceId"

definition channels_at :: "(string \<rightharpoonup> channel) \<Rightarrow> db \<Rightarrow> bool" where
  "channels_at M db \<longleftrightarrow> represents channel_key channel_enc M db
     \<and> map_ok channel_key channel_enc channel_ok GetChannelId M"

definition channel_storable :: "channel \<Rightarrow> bool" where
  "channel_storable = storable channel_key channel_enc channel_ok GetChannelId"

definition cmds_at :: "int \<Rightarrow> (string \<rightharpoonup> executing_invite_cmd) \<Rightarrow> db \<Rightarrow> bool" where
  "cmds_at no M db \<longleftrightarrow> represents (worker_key no) cmd_enc M db
     \<and> map_ok (worker_key no) cmd_enc cmd_ok GetId M"

definition cmd_storable :: "int \<Rightarrow> executing_invite_cmd \<Rightarrow> bool" where
  "cmd_storable no = storable (worker_key no) cmd_enc cmd_ok GetId"

lemmas at_defs = devices_at_def device_storable_def channels_at_def channel_storable_def
  cmds_at_def cmd_storable_def

text \<open>A client of the reference server: one pool with one free connection, in stand-alone
  or in sentinel mode.\<close>

definition one_pool :: pool where
  "one_pool = (RedisCluster 7)\<lparr> p_heap := [0 \<mapsto> (RedisConnection ''10.0.0.1'' 6379)\<lparr> m_available := True \<rparr>],
     p_next := 1, m_clusterIp := ''10.0.0.1'', m_clusterPort := 6379, m_connectionNum := 1,
     m_connections := [0] \<rparr>"

definition one_node :: RedisProxyInfo where
  "one_node = empty_proxy\<lparr> proxyId := ''m'', px_clusterHandler := Some 7, px_isAlived := True \<rparr>"

definition one_client :: "RedisMode \<Rightarrow> client" where
  "one_client mode = \<lparr> m_redisMode = mode, cl_connectionNum = 1, m_redisProxy = one_node, m_slotMap = [],
     m_clusterMap = [], m_signalQueue = [], m_dataNodes = [(''m'', one_node)], m_masterClusterId = ''m'',
     cl_pools = [7 \<mapsto> one_pool], cl_next = 8, m_connected = True, m_passwd = [], m_serverList = [],
     m_unusedHandlers = [], m_checkClusterNodesThreadStarted = False, m_sentinelList = [], m_masterName = [],
     m_sentinelHandlers = [], m_initMasterAddr = ([], 0), m_threadArg = None, m_subscribeThreadIdList = [],
     m_sentinelHealthCheckThreadStarted = False \<rparr>"

definition fresh_world :: ref_world where
  "fresh_world = \<lparr> w_time = 0, w_db = Map.empty, w_tx = (\<lambda>_. None), w_out = (\<lambda>_. []) \<rparr>"

lemma one_client_ok: "mode \<noteq> CLUSTER_MODE \<Longrightarrow> w_tx w = (\<lambda>_. None) \<Longrightarrow> client_ok ref_tx (one_client mode) w"
  by (cases mode)
    (auto simp: client_ok_def serving_def one_client_def one_node_def one_pool_def RedisCluster_def
      pool_inv_def pool_free_def pool_idle_def RedisConnection_def)

lemma empty_at: "devices_at Map.empty (ref_data fresh_world)"
  "channels_at Map.empty (ref_data fresh_world)" "cmds_at no Map.empty (ref_data fresh_world)"
  by (simp_all add: at_defs represents_def map_ok_def members_of_def abs_db_def fresh_world_def)

definition world_with_d1 :: ref_world where
  "world_with_d1 = fresh_world\<lparr> w_db := [device_key \<mapsto> LSet [''d1''],
     device_key @ ''d1'' \<mapsto> LStr (device_enc (Device ''d1''))] \<rparr>"

lemma d1_id [simp]: "GetDeviceId (Device i) = i"
  by (simp add: GetDeviceId_def Device_def)

lemma d1_storable: "device_storable (Device ''d1'')"
  by (simp add: device_storable_def storable_def device_ok_def str_ok_def arg_small_def device_key_def
      device_enc_def Device_def GetDeviceId_def cstr_def)

lemma d1_at: "devices_at [''d1'' \<mapsto> Device ''d1''] (ref_data world_with_d1)"
  using d1_storable
  by (auto simp: devices_at_def represents_def map_ok_def members_of_def abs_db_def world_with_d1_def
      device_storable_def)

lemma clients_ok:
  "client_ok ref_tx (one_client STAND_ALONE_OR_PROXY_MODE) fresh_world"
  "client_ok ref_tx (one_client SENTINEL_MODE) fresh_world"
  "client_ok ref_tx (one_client STAND_ALONE_OR_PROXY_MODE) world_with_d1"
  "client_ok ref_tx (one_client SENTINEL_MODE) world_with_d1"
  by (rule one_client_ok; simp add: fresh_world_def world_with_d1_def)+

lemma d1_small: "map_small [''d1'' \<mapsto> x]"
  by (simp add: map_small_def small_set_def str_ok_def)

lemma only_member: "set xs = {x} \<Longrightarrow> distinct xs \<Longrightarrow> xs = [x]"
  by (cases xs; cases "tl xs") auto

lemma dom_put_all: "dom (put_all ident xs M) = ident ` set xs \<union> dom M"
  by (induction xs arbitrary: M) (auto simp: put_all_def)

lemma no_channels: "channels_at Map.empty (ref_data world_with_d1)"
  by (simp add: channels_at_def represents_def members_of_def abs_db_def world_with_d1_def fresh_world_def
      channel_key_def device_key_def)

section \<open>Devices\<close>





text \<open>
  C18. \<open>SearchDevice\<close> returns 0 and the stored fields for a device the manager holds, and
  -1 with the caller's object unchanged for any other identifier; the data stay as they are.
\<close>

theorem SearchDevice_finds:
  assumes net: "redis_net net data tx" and cl: "client_ok tx c w"
    and M: "devices_at M (data w)" and i: "arg_small (device_key @ i)"
  shows "\<exists>c' w'. SearchDevice net i old c w
       = Inr (case M i of None \<Rightarrow> (-1, old, c', w') | Some d \<Rightarrow> (0, device_merge old d, c', w'))
     \<and> client_ok tx c' w' \<and> data w' = data w"
proof -
  have m: "represents device_key device_enc M (data w)" "map_ok device_key device_enc device_ok GetDeviceId M"
    using M by (auto simp: at_defs)
  show ?thesis
    by (rule entity_store.search_map [OF device_store [OF net] cl m i, of old])
      (auto simp: SearchDevice_def redis_net.ends_def [OF net])
qed

theorem SearchDevice_finds_witness:
  "(\<exists>c' w'. SearchDevice ref_net ''d1'' (Device ''x'') (one_client SENTINEL_MODE) world_with_d1
       = Inr (0, device_merge (Device ''x'') (Device ''d1''), c', w'))
   \<and> (\<exists>c' w'. SearchDevice ref_net ''d2'' (Device ''x'') (one_client SENTINEL_MODE) world_with_d1
       = Inr (-1, Device ''x'', c', w'))"
  using SearchDevice_finds [OF ref.redis_net_axioms clients_ok(4) d1_at, of "''d1''" "Device ''x''"]
    SearchDevice_finds [OF ref.redis_net_axioms clients_ok(4) d1_at, of "''d2''" "Device ''x''"]
  by (auto simp: arg_small_def device_key_def)

text \<open>
  C19. \<open>LoadDevices\<close> appends every device the manager holds exactly once, with all its
  fields, and nothing else.
\<close>

theorem LoadDevices_complete:
  assumes net: "redis_net net data tx" and cl: "client_ok tx c w"
    and M: "devices_at M (data w)" "map_small M"
  shows "\<exists>is c' w'. LoadDevices net ds c w = Inr (0, ds @ map (\<lambda>i. device_merge (Device []) (the (M i))) is, c', w')
     \<and> set is = dom M \<and> distinct is \<and> client_ok tx c' w' \<and> data w' = data w"
proof -
  have m: "represents device_key device_enc M (data w)" "map_ok device_key device_enc device_ok GetDeviceId M"
    "arg_small device_key" using M by (auto simp: at_defs device_key_def arg_small_def)
  show ?thesis
    by (rule entity_store.load_all_map [OF device_store [OF net] cl m M(2), of "Device []" id ds])
      (auto simp: LoadDevices_def redis_net.ends_def [OF net])
qed

theorem LoadDevices_complete_witness:
  "\<exists>c' w'. LoadDevices ref_net [] (one_client SENTINEL_MODE) world_with_d1
     = Inr (0, [device_merge (Device []) (Device ''d1'')], c', w')"
proof -
  let ?M = "[''d1'' \<mapsto> Device ''d1'']"
  from LoadDevices_complete [OF ref.redis_net_axioms clients_ok(4) d1_at d1_small, of "[]"]
  obtain "is" c' w' where h: "LoadDevices ref_net [] (one_client SENTINEL_MODE) world_with_d1
      = Inr (0, [] @ map (\<lambda>i. device_merge (Device []) (the (?M i))) is, c', w')"
    "set is = dom ?M" "distinct is"
    by (elim exE conjE)
  have "is = [''d1'']" using h(2,3) by (simp add: only_member)
  then show ?thesis using h(1) by simp
qed

text \<open>
  C20. \<open>UpdateDevices\<close> replaces the devices by those of the list, the last of several with
  the same identifier, and touches no key of another manager.
\<close>

theorem UpdateDevices_replaces:
  assumes net: "redis_net net data tx" and cl: "client_ok tx c w"
    and M: "devices_at M (data w)" "map_small M" and ds: "\<forall>d \<in> set ds. device_storable d"
  shows "\<exists>c' w'. UpdateDevices net ds c w = Inr (0, c', w') \<and> client_ok tx c' w'
     \<and> devices_at (put_all GetDeviceId ds Map.empty) (data w')
     \<and> (\<forall>k. foreign device_key k \<longrightarrow> data w' k = data w k)"
proof -
  have m: "represents device_key device_enc M (data w)" "map_ok device_key device_enc device_ok GetDeviceId M"
    "arg_small device_key" "\<forall>d \<in> set ds. storable device_key device_enc device_ok GetDeviceId d"
    using M ds by (auto simp: at_defs device_key_def arg_small_def)
  show ?thesis
    by (rule entity_store.update_all_map [OF device_store [OF net] cl m(1-3) M(2) m(4)])
      (use map_ok_put_all [OF map_ok_empty m(4)] in
        \<open>auto simp: UpdateDevices_def devices_at_def redis_net.ends_def [OF net]\<close>)
qed

theorem UpdateDevices_replaces_witness:
  "\<exists>c' w'. UpdateDevices ref_net [Device ''d1'', Device ''d1''] (one_client SENTINEL_MODE) world_with_d1
       = Inr (0, c', w') \<and> devices_at [''d1'' \<mapsto> Device ''d1''] (ref_data w')"
proof -
  have ds: "\<forall>d \<in> set [Device ''d1'', Device ''d1'']. device_storable d" using d1_storable by simp
  have e: "put_all GetDeviceId [Device ''d1'', Device ''d1''] Map.empty = [''d1'' \<mapsto> Device ''d1'']"
    by (simp add: put_all_def)
  from UpdateDevices_replaces [OF ref.redis_net_axioms clients_ok(4) d1_at d1_small ds]
  show ?thesis unfolding e by blast
qed

text \<open>
  C21. \<open>ClearDevices\<close> leaves no device, and \<open>GetDeviceCount\<close> returns the number of devices
  the manager holds.
\<close>

theorem ClearDevices_empties:
  assumes net: "redis_net net data tx" and cl: "client_ok tx c w"
    and M: "devices_at M (data w)" "map_small M"
  shows "\<exists>c' w' c'' w''. GetDeviceCount net c w = Inr (int (card (dom M)), c', w')
     \<and> ClearDevices net c' w' = Inr (0, c'', w'') \<and> client_ok tx c'' w''
     \<and> devices_at Map.empty (data w'') \<and> (\<forall>k. foreign device_key k \<longrightarrow> data w'' k = data w k)"
proof -
  note store = device_store [OF net]
  have m: "represents device_key device_enc M (data w)" "map_ok device_key device_enc device_ok GetDeviceId M"
    "arg_small device_key" using M by (auto simp: at_defs device_key_def arg_small_def)
  obtain c1 w1 where s1: "scard net device_key c w = Inr (int (card (dom M)), c1, w1)"
    "redis_net.ends data tx (data w) c c1 w1" by (rule entity_store.count_map [OF store cl m(1,3) M(2)])
  then have c1: "client_ok tx c1 w1" "represents device_key device_enc M (data w1)" "data w1 = data w"
    using m(1) by (auto simp: redis_net.ends_def [OF net])
  obtain c2 w2 where s2: "clear_all net device_key device_key c1 w1 = Inr (c2, w2)"
    "redis_net.ends data tx (cleared device_key M (data w1)) c1 c2 w2"
    by (rule entity_store.clear_all_map [OF store c1(1,2) m(2,3) M(2)])
  then have "client_ok tx c2 w2" "data w2 = cleared device_key M (data w)"
    using c1(3) by (auto simp: redis_net.ends_def [OF net])
  then show ?thesis
    using s1(1) s2(1) represents_cleared [of device_key device_enc M "data w"]
    by (auto simp: GetDeviceCount_def ClearDevices_def devices_at_def foreign_frame)
qed

theorem ClearDevices_empties_witness:
  "\<exists>c' w' c'' w''. GetDeviceCount ref_net (one_client SENTINEL_MODE) world_with_d1 = Inr (1, c', w')
     \<and> ClearDevices ref_net c' w' = Inr (0, c'', w'') \<and> devices_at Map.empty (ref_data w'')"
  using ClearDevices_empties [OF ref.redis_net_axioms clients_ok(4) d1_at d1_small] by auto



section \<open>Channels\<close>

definition ch1 :: channel where
  "ch1 = Channel ''d1'' ''c1''"

lemma ch1_storable: "channel_storable ch1" "GetChannelId ch1 = ''d1c1''"
  by (simp_all add: ch1_def channel_storable_def storable_def channel_ok_def str_ok_def arg_small_def
      channel_key_def channel_enc_def Channel_def GetChannelId_def cstr_def)

lemma keys_foreign: "foreign device_key (channel_key @ i)" "foreign channel_key (device_key @ i)"
  by (simp_all add: foreign_def device_key_def channel_key_def)



section \<open>Executing invite commands\<close>

lemma worker_key_digit: "0 \<le> no \<Longrightarrow> no < 10 \<Longrightarrow> worker_key no = cmd_key @ [digit_char (nat no)]"
  by (simp add: worker_key_def show_int_def show_nat.simps)

lemma workers_foreign:
  assumes "0 \<le> a" "a < 10" "0 \<le> b" "b < 10" "a \<noteq> b"
  shows "foreign (worker_key a) (worker_key b @ i)"
proof -
  have n: "nat a < 10" "nat b < 10" "nat a \<noteq> nat b" using assms by auto
  have "digit_char (nat a) \<noteq> digit_char (nat b)"
    using of_char_digit_char [OF n(1)] of_char_digit_char [OF n(2)] n(3) by (metis add_left_cancel)
  then show ?thesis using assms by (simp add: foreign_def worker_key_digit)
qed

lemma worker_small: "0 \<le> no \<Longrightarrow> no < 10 \<Longrightarrow> arg_small (worker_key no)"
  by (simp add: worker_key_digit arg_small_def cmd_key_def)

text \<open>
  C23. With at most ten workers their commands are kept apart: \<open>Update\<close> for one worker
  replaces its commands by the list, \<open>Load\<close> then gives each of them once, marked as
  restarted, and the commands of every other worker are as before.
\<close>

theorem workers_are_separate:
  assumes net: "redis_net net data tx" and cl: "client_ok tx c w" and n: "n \<le> 10"
    and no: "worker_ok n no" and m: "worker_ok n m" "m \<noteq> no"
    and M: "cmds_at no M (data w)" "map_small M" "cmds_at m M' (data w)"
    and xs: "\<forall>x \<in> set xs. cmd_storable no x" "map_small (put_all GetId xs Map.empty)"
  shows "\<exists>c1 w1 is c2 w2. UpdateCmds net n xs no c w = Inr (0, c1, w1)
     \<and> LoadCmds net n junk no [] c1 w1 = Inr (0, map (\<lambda>i. SetSipRestarted True (cmd_merge
          (ExecutingInviteCmd junk (cmd_seq junk)) (the (put_all GetId xs Map.empty i)))) is, c2, w2)
     \<and> set is = GetId ` set xs \<and> distinct is \<and> cmds_at m M' (data w2)"
proof -
  note store = cmd_store [OF net]
  let ?N = "put_all GetId xs Map.empty" and ?new = "ExecutingInviteCmd junk (cmd_seq junk)"
  have w: "0 \<le> no" "no < 10" "0 \<le> m" "m < 10" using no m n by (auto simp: worker_ok_def)
  have k: "represents (worker_key no) cmd_enc M (data w)" "map_ok (worker_key no) cmd_enc cmd_ok GetId M"
    "arg_small (worker_key no)" "\<forall>x \<in> set xs. storable (worker_key no) cmd_enc cmd_ok GetId x"
    using M(1) xs(1) worker_small [OF w(1,2)] by (auto simp: at_defs)
  obtain c1 w1 where s1: "update_all net cmd_save (worker_key no) (worker_key no) GetId xs c w = Inr (0, c1, w1)"
    "redis_net.ends data tx (data w1) c c1 w1" "represents (worker_key no) cmd_enc ?N (data w1)"
    "\<forall>k. foreign (worker_key no) k \<longrightarrow> data w1 k = data w k"
    by (rule entity_store.update_all_map [OF store cl k(1-3) M(2) k(4)])
  then have c1: "client_ok tx c1 w1" by (simp add: redis_net.ends_def [OF net])
  have other: "cmds_at m M' (data w1)"
    using M(3) s1(4) workers_foreign [OF w m(2) [symmetric]]
    by (auto simp: cmds_at_def intro: represents_frame)
  obtain "is" c2 w2 where s2: "load_all net cmd_load (worker_key no) (worker_key no) ?new (SetSipRestarted True) [] c1 w1
      = Inr (0, [] @ map (\<lambda>i. SetSipRestarted True (cmd_merge ?new (the (?N i)))) is, c2, w2)"
    "set is = dom ?N" "distinct is" "redis_net.ends data tx (data w1) c1 c2 w2"
    by (rule entity_store.load_all_map [OF store c1 s1(3) map_ok_put_all [OF map_ok_empty k(4)] k(3) xs(2)])
  have "data w2 = data w1" using s2(4) by (simp add: redis_net.ends_def [OF net])
  then show ?thesis using s1(1) s2(1-3) no other dom_put_all [of GetId xs Map.empty]
    by (auto simp: UpdateCmds_def LoadCmds_def)
qed

definition junk_cmd :: executing_invite_cmd where
  "junk_cmd = \<lparr> m_data_version = 0, support_data_version = False, cmd_sender_id = ''s'', cmd_device_id = ''d'',
     cmd_type = 1, cmd_seq = 7, sip_restarted = False \<rparr>"

lemma junk_cmd_storable: "GetId junk_cmd = ''sd7''" "cmd_storable 0 junk_cmd" "cmd_storable 1 junk_cmd"
proof -
  have "length (cmd_enc junk_cmd) = 12" by code_simp
  moreover show i: "GetId junk_cmd = ''sd7''" by code_simp
  ultimately show "cmd_storable 0 junk_cmd" "cmd_storable 1 junk_cmd"
    by (simp_all add: cmd_storable_def storable_def arg_small_def worker_key_digit cmd_key_def str_ok_def
        cmd_ok_def junk_cmd_def)
qed

theorem workers_are_separate_witness:
  "\<exists>c1 w1 c2 w2. UpdateCmds ref_net 2 [junk_cmd] 0 (one_client SENTINEL_MODE) fresh_world = Inr (0, c1, w1)
     \<and> LoadCmds ref_net 2 junk_cmd 0 [] c1 w1 = Inr (0, [SetSipRestarted True junk_cmd], c2, w2)
     \<and> cmds_at 1 Map.empty (ref_data w2)"
proof -
  let ?N = "put_all GetId [junk_cmd] Map.empty"
  have N: "?N = [''sd7'' \<mapsto> junk_cmd]" by (simp add: put_all_def junk_cmd_storable)
  have pre: "map_small (Map.empty :: string \<rightharpoonup> executing_invite_cmd)" "map_small ?N"
    "\<forall>x \<in> set [junk_cmd]. cmd_storable 0 x"
    using junk_cmd_storable(2) unfolding N by (simp_all add: map_small_def small_set_def str_ok_def)
  have new: "cmd_merge (ExecutingInviteCmd junk_cmd (cmd_seq junk_cmd)) junk_cmd = junk_cmd"
    by (simp add: cmd_merge_def ExecutingInviteCmd_def junk_cmd_def)
  from workers_are_separate [where n = 2 and no = 0 and m = 1 and junk = junk_cmd,
      OF ref.redis_net_axioms clients_ok(2) _ _ _ _ empty_at(3) pre(1) empty_at(3) pre(3,2)]
  obtain c1 w1 "is" c2 w2 where h: "UpdateCmds ref_net 2 [junk_cmd] 0 (one_client SENTINEL_MODE) fresh_world = Inr (0, c1, w1)"
    "LoadCmds ref_net 2 junk_cmd 0 [] c1 w1 = Inr (0, map (\<lambda>i. SetSipRestarted True (cmd_merge
          (ExecutingInviteCmd junk_cmd (cmd_seq junk_cmd)) (the (?N i)))) is, c2, w2)"
    "set is = GetId ` set [junk_cmd]" "distinct is" "cmds_at 1 Map.empty (ref_data w2)"
    by (auto simp: worker_ok_def)
  have "is = [''sd7'']" using h(3,4) by (simp add: only_member junk_cmd_storable)
  then show ?thesis using h(1,2,5) by (auto simp: N new)
qed

text \<open>
  C34. With more than ten workers the keys collide: a command of worker 1 with number 0 and no
  sender and device is stored under the key of the set of worker 10, so that \<open>Insert\<close>
  returns 0 and the commands of worker 10 are gone.
\<close>

theorem eleven_workers_collide:
  assumes net: "redis_net net data tx" and cl: "client_ok tx c w" and M: "cmds_at 1 M (data w)"
  shows "\<exists>c' w'. InsertCmd net (m_redisMode c) 11 (ExecutingInviteCmd junk 0) 1 c w = Inr (0, c', w')
     \<and> members_of (data w') (worker_key 10) = None"
proof -
  let ?x = "ExecutingInviteCmd junk 0"
  note store = cmd_store [OF net]
  have "ToString 0 = ''0''" by code_simp
  then have i: "GetId ?x = ''0''" by (simp add: GetId_def ExecutingInviteCmd_def)
  have col: "worker_key 1 @ ''0'' = worker_key 10" by code_simp
  have m: "represents (worker_key 1) cmd_enc M (data w)" "map_ok (worker_key 1) cmd_enc cmd_ok GetId M"
    "storable (worker_key 1) cmd_enc cmd_ok GetId ?x"
    using M i by (auto simp: at_defs storable_def arg_small_def worker_key_digit cmd_key_def str_ok_def
        cmd_ok_def ExecutingInviteCmd_def cmd_enc_def cstr_def)
  obtain c' w' where "InsertCmd net (m_redisMode c) 11 ?x 1 c w = Inr (0, c', w')"
    "redis_net.ends data tx (inserted (worker_key 1) cmd_enc M (GetId ?x) ?x (data w)) c c' w'"
  proof (cases "m_redisMode c = STAND_ALONE_OR_PROXY_MODE")
    case True
    then show thesis
      using entity_store.insert_in_transaction_map [OF store cl True m] that
      by (auto simp: InsertCmd_def InsertCmdInTransaction_def worker_ok_def)
  next
    case False
    then show thesis
      using entity_store.insert_in_cluster_map [OF store cl m] that
      by (auto simp: InsertCmd_def InsertCmdInCluster_def worker_ok_def)
  qed
  moreover have "members_of (inserted (worker_key 1) cmd_enc M (GetId ?x) ?x (data w)) (worker_key 10) = None"
    using col [symmetric] by (simp add: inserted_def i members_of_def)
  ultimately show ?thesis by (auto simp: redis_net.ends_def [OF net])
qed

theorem eleven_workers_collide_witness:
  "\<exists>c' w'. InsertCmd ref_net (m_redisMode (one_client SENTINEL_MODE)) 11 (ExecutingInviteCmd junk_cmd 0) 1
       (one_client SENTINEL_MODE) fresh_world = Inr (0, c', w')
     \<and> members_of (ref_data w') (worker_key 10) = None"
  by (rule eleven_workers_collide [OF ref.redis_net_axioms clients_ok(2) empty_at(3)])

section \<open>Transactions that fail\<close>

text \<open>The reference client in the middle of a transaction.\<close>

definition busy_client :: client where
  "busy_client = (one_client STAND_ALONE_OR_PROXY_MODE)\<lparr> cl_pools := [7 \<mapsto>
     set_conn 0 (RedisConnection ''10.0.0.1'' 6379) one_pool] \<rparr>"

definition multi_world :: ref_world where
  "multi_world = fresh_world\<lparr> w_tx := (\<lambda>_. None)((7, 0) := Some []) \<rparr>"



end
