(* ===== verification/Lock_Props.thy ===== *)
theory Lock_Props
  imports Client_Lock Cluster_Topology Manager_Props
begin

text \<open>
  The optimistic lock is an atomic compare and set: what \<open>setSerialWithLock\<close> writes is stored exactly when
  nobody touched the key since \<open>getSerialWithLock\<close> read it.  \<open>lock_answers\<close> states what the Redis
  documentation promises for WATCH, UNWATCH, MULTI and EXEC of one connection, \<open>meanwhile\<close> what other clients
  do between two commands, and the locale \<open>lock_net\<close> is a network that reaches such a server.
\<close>

section \<open>What the server promises\<close>

text \<open>The session of a connection that watches keys or is inside a transaction.\<close>

record lock_session =
  ss_watch :: "string set"
  ss_dirty :: bool
  ss_queue :: "bytes list list option"

definition opened :: "lock_session option \<Rightarrow> lock_session" where
  "opened ses = (case ses of None \<Rightarrow> \<lparr> ss_watch = {}, ss_dirty = False, ss_queue = None \<rparr> | Some ss \<Rightarrow> ss)"

text \<open>Nothing is promised for requests that the lock does not send.\<close>

definition lock_answers ::
  "bytes list \<Rightarrow> lock_session option \<Rightarrow> db \<Rightarrow> (resp \<times> lock_session option \<times> db) set" where
  "lock_answers ws ses db =
     (let ss = opened ses in
      case ss_queue ss of
        None \<Rightarrow>
          if ws = [''unwatch''] then {(RStatus ''OK'', None, db)}
          else if ws = [''multi''] then {(RStatus ''OK'', Some (ss\<lparr> ss_queue := Some [] \<rparr>), db)}
          else (case ws of
              [c, k] \<Rightarrow>
                if c = ''watch'' then {(RStatus ''OK'', Some (ss\<lparr> ss_watch := insert k (ss_watch ss) \<rparr>), db)}
                else if c = ''get'' then {(r, ses, db') | r db'. (r, db') \<in> redis_spec ws db}
                else UNIV
            | _ \<Rightarrow> UNIV)
      | Some q \<Rightarrow>
          if ws = [''exec''] then
            (if ss_dirty ss then {(RNilArray, None, db)}
             else if list_all queueable q
             then {(RArray (map exec_elem rs), None, db') | rs db'. run_queue q db rs db'} else UNIV)
          else if queueable ws then {(RStatus ''QUEUED'', Some (ss\<lparr> ss_queue := Some (q @ [ws]) \<rparr>), db)}
          else UNIV)"

text \<open>Other clients write the keys of \<open>T\<close>: the sessions that watch one of them are marked.\<close>

definition meanwhile ::
  "('w \<Rightarrow> db) \<Rightarrow> (sock \<Rightarrow> 'w \<Rightarrow> lock_session option) \<Rightarrow> string set \<Rightarrow> 'w \<Rightarrow> 'w \<Rightarrow> bool" where
  "meanwhile data sess T w w' \<longleftrightarrow> (\<forall>k. k \<notin> T \<longrightarrow> data w' k = data w k)
     \<and> (\<forall>s. sess s w' = map_option (\<lambda>ss. ss\<lparr> ss_dirty := ss_dirty ss \<or> ss_watch ss \<inter> T \<noteq> {} \<rparr>) (sess s w))"

section \<open>Commands under a lock\<close>

text \<open>The client has a node for the key, with a free connection.\<close>

definition lockable :: "(sock \<Rightarrow> 'w \<Rightarrow> 'q option) \<Rightarrow> string \<Rightarrow> client \<Rightarrow> 'w \<Rightarrow> bool" where
  "lockable sess key c w \<longleftrightarrow> m_redisMode c = CLUSTER_MODE \<and>
     (\<exists>cid info a p. getClusterIdBySlot c (unat (crc16 key) mod REDIS_SLOT_NUM) = Some cid \<and> cid \<noteq> []
        \<and> getRedisClusterInfo c cid = Some info \<and> clusterHandler info = Some a \<and> cl_pools c a = Some p
        \<and> pool_inv p \<and> pool_free p \<and> pool_idle sess p w)"

text \<open>The lock holds a connection of the node whose session is \<open>ses\<close>.\<close>

definition locked_by ::
  "(sock \<Rightarrow> 'w \<Rightarrow> 'q option) \<Rightarrow> RedisLockInfo \<Rightarrow> 'q option \<Rightarrow> string \<Rightarrow> client \<Rightarrow> 'w \<Rightarrow> bool" where
  "locked_by sess lock ses key c w \<longleftrightarrow> m_redisMode c = CLUSTER_MODE \<and> lk_clusterId lock \<noteq> [] \<and>
     getClusterIdBySlot c (unat (crc16 key) mod REDIS_SLOT_NUM) = Some (lk_clusterId lock) \<and>
     (\<exists>info a p k l. getRedisClusterInfo c (lk_clusterId lock) = Some info \<and> clusterHandler info = Some a
        \<and> lk_connection lock = Some (a, k) \<and> cl_pools c a = Some p \<and> pool_inv p \<and> pool_idle sess p w
        \<and> k \<in> set (m_connections p) \<and> p_heap p k = Some l \<and> \<not> m_available l \<and> sess (sock_of p k) w = ses)"

definition watched :: "string \<Rightarrow> bool \<Rightarrow> bytes list list option \<Rightarrow> lock_session option" where
  "watched key d q = Some \<lparr> ss_watch = {key}, ss_dirty = d, ss_queue = q \<rparr>"

lemma pool_same [simp]:
  "getRedisClusterInfo (set_pool a p c) cid = getRedisClusterInfo c cid"
  "getClusterIdBySlot (set_pool a p c) i = getClusterIdBySlot c i"
  "m_redisMode (set_pool a p c) = m_redisMode c" "cl_pools (set_pool a p c) a = Some p"
  by (simp_all add: set_pool_def getRedisClusterInfo_def getClusterIdBySlot_def)

text \<open>The two outcomes of EXEC.\<close>

definition exec_reply :: "bool \<Rightarrow> resp" where
  "exec_reply d = (if d then RNilArray else RArray [ELine ''+OK''])"

lemma exec_answer:
  "lock_answers [''exec''] (watched key d (Some [[''set'', key, v]])) db
     = {(exec_reply d, None, if d then db else db(key \<mapsto> RStr v))}"
  by (cases d) (simp_all add: lock_answers_def opened_def watched_def queueable_def redis_spec_def exec_reply_def)

lemma exec_reply_fits: "reply_fits (exec_reply d)"
proof (cases d)
  case True
  then show ?thesis by (simp add: exec_reply_def reply_fits_def nil_line_def crlf_def)
next
  case False
  then show ?thesis
    by (simp add: exec_reply_def reply_fits_def crlf_def line_elem_ok_def line_ok_def buf_size_def show_nat.simps
        int32_max_def REDIS_READ_BUFF_SIZE_def)
qed

lemma exec_verdict: "parseExecReply_cluster mode (reply_of (exec_reply d)) (False, []) = (\<not> d, (False, []))"
  by (cases d) (simp_all add: exec_reply_def parseExecReply_cluster_def checkIfNeedRedirect_def has_prefix_def cstr_def
      empty_reply_def)

locale lock_net = server_net net data sess lock_answers
  for net :: "'w net" and data :: "'w \<Rightarrow> db" and sess :: "sock \<Rightarrow> 'w \<Rightarrow> lock_session option"
begin

text \<open>WATCH takes a connection of the node.\<close>

lemma watch_live:
  assumes ok: "lockable sess key c w" and key: "arg_small key"
  obtains lock c' w' where "doRedisCommandWithLock (Suc n) net load key (build (CWatch key)) REDIS_COMMAND_WATCH no_lock None c w
      = Inr (Some (True, lock, None, c', w'))"
    "locked_by sess lock (watched key False None) key c' w'" "data w' = data w"
proof -
  from ok obtain cid info a p where c: "m_redisMode c = CLUSTER_MODE"
    "getClusterIdBySlot c (unat (crc16 key) mod REDIS_SLOT_NUM) = Some cid" "cid \<noteq> []"
    "getRedisClusterInfo c cid = Some info" "clusterHandler info = Some a" "cl_pools c a = Some p"
    "pool_inv p" "pool_free p" "idle p w" unfolding lockable_def by blast
  obtain b p1 w1 where g: "getAvailableConnection net p w = Inr (b, p1, w1)" "pool_inv p1" "idle p1 w1"
    "calm w w1" "p_obj p1 = p_obj p" "b \<noteq> None"
    and b: "\<And>k. b = Some k \<Longrightarrow> sess (sock_of p k) w1 = None \<and> k \<in> set (m_connections p1)
       \<and> (\<exists>r. p_heap p1 k = Some r \<and> \<not> m_available r)"
    using getAvailableConnection_live [OF c(7,9)] c(8) by metis
  then obtain k where k: "b = Some k" by blast
  from b [OF k] obtain l where l: "sess (sock_of p1 k) w1 = None" "k \<in> set (m_connections p1)"
    "p_heap p1 k = Some l" "\<not> m_available l" using g(5) by (auto simp: sock_of_def)
  have d1: "data w1 = data w" using g(4) by (simp add: calm_def)
  have small: "\<forall>v \<in> set (args (CWatch key)). arg_small v" using key by (simp add: arg_small_def)
  have ans: "lock_answers (args (CWatch key)) None (data w) = {(RStatus ''OK'', watched key False None, data w)}"
    by (simp add: lock_answers_def opened_def watched_def)
  have "0 \<le> snd (build (CWatch key))" using build_fits_int [OF small] by linarith
  moreover have "\<forall>(r, _) \<in> lock_answers (args (CWatch key)) (sess (sock_of p1 k) w1) (data w1). reply_fits r"
    unfolding l(1) d1 ans by (simp add: reply_fits_status line_ok_def buf_size_def)
  ultimately obtain r w2 where r: "conn_command net p1 k (fst (build (CWatch key))) (snd (build (CWatch key)))
      COMMON_PARSER empty_reply w1 = Inr (True, reply_of r, w2)"
    "(r, sess (sock_of p1 k) w2, data w2) \<in> lock_answers (args (CWatch key)) (sess (sock_of p1 k) w1) (data w1)"
    "others_idle sess (sock_of p1 k) w1 w2"
    using conn_command_live [OF l(3) args_count(2) _ build_request [OF small]] by blast
  have r2: "r = RStatus ''OK''" "sess (sock_of p1 k) w2 = watched key False None" "data w2 = data w"
    using r(2) unfolding l(1) d1 ans by auto
  have i: "idle p1 w2" using g(3) r(3) l(3,4) by (rule idle_others)
  let ?lock = "\<lparr> lk_clusterId = cid, lk_connection = Some (a, k) \<rparr>"
  show thesis
  proof (rule that [of ?lock "set_pool a p1 c" w2])
    show "locked_by sess ?lock (watched key False None) key (set_pool a p1 c) w2"
      unfolding locked_by_def using c l g(2) i r2(2) by simp
    show "doRedisCommandWithLock (Suc n) net load key (build (CWatch key)) REDIS_COMMAND_WATCH no_lock None c w
      = Inr (Some (True, ?lock, None, set_pool a p1 c, w2))"
      using c g(1) k r(1) r2(1)
      by (simp add: doRedisCommandWithLock_def no_lock_def lock_command_def handler_pool_def one_conn_command_def
          lock_switch_def parseStatusResponseReply_def checkIfNeedRedirect_def)
  qed (rule r2(3))
qed

text \<open>A command of a lock that is held goes to its connection.  EXEC gives the connection back.\<close>

definition after :: "RedisLockInfo \<Rightarrow> bool \<times> redir \<times> 'e option \<times> client \<times> 'w \<Rightarrow> ('e, 'w) locked" where
  "after lock = (\<lambda>(ok, (needRedirect, _), ser, c, w).
     if \<not> ok then Inr (Some (False, lock, ser, c, w))
     else if needRedirect then Inr (Some (False, lock, ser, c, w)) else Inr (Some (True, lock, ser, c, w)))"

lemma held_live:
  assumes held: "locked_by sess lock ses key c w" and small: "\<forall>v \<in> set (args cm). arg_small v"
    and fits: "\<forall>(r, _) \<in> lock_answers (args cm) ses (data w). reply_fits r" and t: "t \<noteq> REDIS_COMMAND_UNWATCH"
  obtains r ses' h con c' w' where "(r, ses', data w') \<in> lock_answers (args cm) ses (data w)"
    "t \<noteq> REDIS_COMMAND_EXEC \<Longrightarrow> locked_by sess lock ses' key c' w'"
    "t = REDIS_COMMAND_EXEC \<Longrightarrow> ses' = None \<Longrightarrow> lockable sess key c' w'" "m_redisMode c' = CLUSTER_MODE"
    "doRedisCommandWithLock (Suc n) net load key (build cm) t lock ser c w
       = res_bind (lock_switch net load t h con (reply_of r) ser c' w') (after lock)"
proof -
  from held obtain info a p k l where c: "m_redisMode c = CLUSTER_MODE" "lk_clusterId lock \<noteq> []"
    "getClusterIdBySlot c (unat (crc16 key) mod REDIS_SLOT_NUM) = Some (lk_clusterId lock)"
    "getRedisClusterInfo c (lk_clusterId lock) = Some info" "clusterHandler info = Some a"
    "lk_connection lock = Some (a, k)" "cl_pools c a = Some p" "pool_inv p" "idle p w"
    "k \<in> set (m_connections p)" "p_heap p k = Some l" "\<not> m_available l" "sess (sock_of p k) w = ses"
    unfolding locked_by_def by blast
  have "0 \<le> snd (build cm)" using build_fits_int [OF small] by linarith
  then obtain r w' where r: "conn_command net p k (fst (build cm)) (snd (build cm)) COMMON_PARSER
      empty_reply w = Inr (True, reply_of r, w')"
    "(r, sess (sock_of p k) w', data w') \<in> lock_answers (args cm) ses (data w)"
    "others_idle sess (sock_of p k) w w'"
    using conn_command_live [OF c(11) args_count(2) _ build_request [OF small], of w] fits
    unfolding c(13) by blast
  have i: "idle p w'" using c(9) r(3) c(11,12) by (rule idle_others)
  have lock: "lock\<lparr> lk_connection := Some (a, k) \<rparr> = lock" using c(6) by simp
  show thesis
  proof (cases "t = REDIS_COMMAND_EXEC")
    case False
    show thesis
    proof (rule that [OF r(2)])
      show "locked_by sess lock (sess (sock_of p k) w') key (set_pool a p c) w'"
        unfolding locked_by_def using c i by simp
      show "doRedisCommandWithLock (Suc n) net load key (build cm) t lock ser c w
       = res_bind (lock_switch net load t (Some a) (Some (a, k)) (reply_of r) ser (set_pool a p c) w') (after lock)"
        using c r(1) t False
        by (simp add: doRedisCommandWithLock_def lock_command_def handler_pool_def one_conn_command_def lock
            after_def cong: if_cong)
    qed (use False c(1) in simp_all)
  next
    case True
    let ?p = "set_conn k (l\<lparr> m_available := True \<rparr>) p"
    have rel: "releaseConnection net k p w' = Inr (?p, w')" using c(10,11) by (simp add: releaseConnection_def)
    show thesis
    proof (rule that [OF r(2)])
      show "lockable sess key (set_pool a ?p c) w'" if "sess (sock_of p k) w' = None"
        unfolding lockable_def using c release_live [OF c(8,10,11) i that] by simp
      show "doRedisCommandWithLock (Suc n) net load key (build cm) t lock ser c w
       = res_bind (lock_switch net load t (Some a) (Some (a, k)) (reply_of r) ser (set_pool a ?p c) w') (after lock)"
        using c r(1) True rel
        by (simp add: doRedisCommandWithLock_def lock_command_def handler_pool_def one_conn_command_def lock
            after_def cong: if_cong)
    qed (use True c(1) in simp_all)
  qed
qed

lemmas lock_replies = lock_switch_def parseStatusResponseReply_def parseSetSerialReply_def parseExecReply_cluster_def
  checkIfNeedRedirect_def after_def Let_def

lemma held_status:
  assumes held: "locked_by sess lock ses key c w" and small: "\<forall>v \<in> set (args cm). arg_small v"
    and ans: "lock_answers (args cm) ses (data w) = {(RStatus l, ses', data w)}" "line_ok l" "length l < buf_size"
    and t: "t \<in> {REDIS_COMMAND_SET, REDIS_COMMAND_MULTI}"
  obtains c' w' where "doRedisCommandWithLock (Suc n) net load key (build cm) t lock ser c w
      = Inr (Some (True, lock, ser, c', w'))" "locked_by sess lock ses' key c' w'" "data w' = data w"
proof -
  have fits: "\<forall>(r, _) \<in> lock_answers (args cm) ses (data w). reply_fits r"
    unfolding ans(1) using ans(2,3) by (simp add: reply_fits_status)
  have t': "t \<noteq> REDIS_COMMAND_UNWATCH" "t \<noteq> REDIS_COMMAND_EXEC" using t by auto
  show thesis
  proof (rule held_live [OF held small fits t'(1), of n load ser])
    fix r ses1 h con c' w'
    assume r: "(r, ses1, data w') \<in> lock_answers (args cm) ses (data w)"
      and held': "t \<noteq> REDIS_COMMAND_EXEC \<Longrightarrow> locked_by sess lock ses1 key c' w'"
      and run: "doRedisCommandWithLock (Suc n) net load key (build cm) t lock ser c w
       = res_bind (lock_switch net load t h con (reply_of r) ser c' w') (after lock)"
    have e: "r = RStatus l" "ses1 = ses'" "data w' = data w" using r unfolding ans(1) by simp_all
    show thesis
    proof (rule that [of c' w'])
      show "doRedisCommandWithLock (Suc n) net load key (build cm) t lock ser c w = Inr (Some (True, lock, ser, c', w'))"
        unfolding run e(1) using t by (auto simp: lock_replies)
    qed (use held' t'(2) e in simp_all)
  qed
qed

lemma multi_live:
  assumes "locked_by sess lock (watched key d None) key c w"
  obtains c' w' where "doRedisCommandWithLock (Suc n) net load key (build CMulti) REDIS_COMMAND_MULTI lock ser c w
      = Inr (Some (True, lock, ser, c', w'))" "locked_by sess lock (watched key d (Some [])) key c' w'" "data w' = data w"
  by (rule held_status [OF assms, of CMulti "''OK''" "watched key d (Some [])" REDIS_COMMAND_MULTI n load ser])
    (simp_all add: lock_answers_def opened_def watched_def arg_small_def line_ok_def buf_size_def)

lemma set_live:
  assumes "locked_by sess lock (watched key d (Some [])) key c w" "arg_small key" "arg_small v"
  obtains c' w' where "doRedisCommandWithLock (Suc n) net load key (build (CSet key v)) REDIS_COMMAND_SET lock ser c w
      = Inr (Some (True, lock, ser, c', w'))" "locked_by sess lock (watched key d (Some [[''set'', key, v]])) key c' w'"
    "data w' = data w"
  by (rule held_status [OF assms(1), of "CSet key v" "''QUEUED''" "watched key d (Some [[''set'', key, v]])"
        REDIS_COMMAND_SET n load ser])
    (use assms(2,3) in \<open>simp_all add: lock_answers_def opened_def watched_def arg_small_def line_ok_def buf_size_def
       queueable_def\<close>)

lemma exec_live:
  assumes held: "locked_by sess lock (watched key d (Some [[''set'', key, v]])) key c w"
  obtains c' w' where "doRedisCommandWithLock (Suc n) net load key (build CExec) REDIS_COMMAND_EXEC lock ser c w
      = Inr (Some (\<not> d, lock, ser, c', w'))" "lockable sess key c' w'"
    "data w' = (if d then data w else (data w)(key \<mapsto> RStr v))"
proof -
  let ?db = "if d then data w else (data w)(key \<mapsto> RStr v)"
  note ans = exec_answer [of key d v "data w"]
  have small: "\<forall>v \<in> set (args CExec). arg_small v" by (simp add: arg_small_def)
  have fits: "\<forall>(r, _) \<in> lock_answers (args CExec) (watched key d (Some [[''set'', key, v]])) (data w). reply_fits r"
    unfolding args.simps ans using exec_reply_fits by simp
  show thesis
  proof (rule held_live [OF held small fits, of REDIS_COMMAND_EXEC n load ser])
    fix r ses1 h con c' w'
    assume r: "(r, ses1, data w') \<in> lock_answers (args CExec) (watched key d (Some [[''set'', key, v]])) (data w)"
      and free: "REDIS_COMMAND_EXEC = REDIS_COMMAND_EXEC \<Longrightarrow> ses1 = None \<Longrightarrow> lockable sess key c' w'"
      and run: "doRedisCommandWithLock (Suc n) net load key (build CExec) REDIS_COMMAND_EXEC lock ser c w
       = res_bind (lock_switch net load REDIS_COMMAND_EXEC h con (reply_of r) ser c' w') (after lock)"
    have e: "r = exec_reply d" "ses1 = None" "data w' = ?db" using r unfolding args.simps ans by simp_all
    show thesis
    proof (rule that [of c' w'])
      show "doRedisCommandWithLock (Suc n) net load key (build CExec) REDIS_COMMAND_EXEC lock ser c w
        = Inr (Some (\<not> d, lock, ser, c', w'))"
        unfolding run e(1) lock_switch_def by (simp add: exec_verdict after_def)
    qed (use free e in simp_all)
  qed simp
qed

lemma get_live:
  assumes held: "locked_by sess lock (watched key d None) key c w" and key: "arg_small key"
    and v: "data w key = Some (RStr v)" "length v < 2 ^ 29"
    and load: "load sr (DBInStream (v @ [NUL]) (length v)) = Inr (sr', inp)" "m_loadError inp = 0"
  obtains c' w' where "doRedisCommandWithLock (Suc n) net load key (build (CGet key)) REDIS_COMMAND_GET lock (Some sr) c w
      = Inr (Some (True, lock, Some sr', c', w'))" "locked_by sess lock (watched key d None) key c' w'" "data w' = data w"
proof -
  have ans: "lock_answers (args (CGet key)) (watched key d None) (data w)
      = {(RBulk (Some v), watched key d None, data w)}"
    using v(1) by (simp add: lock_answers_def opened_def watched_def redis_spec_def)
  have small: "\<forall>v \<in> set (args (CGet key)). arg_small v" using key by (simp add: arg_small_def)
  have fits: "\<forall>(r, _) \<in> lock_answers (args (CGet key)) (watched key d None) (data w). reply_fits r"
    unfolding ans using reply_fits_bulk [OF v(2)] by simp
  show thesis
  proof (rule held_live [OF held small fits, of REDIS_COMMAND_GET n load "Some sr"])
    fix r ses1 h con c' w'
    assume r: "(r, ses1, data w') \<in> lock_answers (args (CGet key)) (watched key d None) (data w)"
      and held': "REDIS_COMMAND_GET \<noteq> REDIS_COMMAND_EXEC \<Longrightarrow> locked_by sess lock ses1 key c' w'"
      and run: "doRedisCommandWithLock (Suc n) net load key (build (CGet key)) REDIS_COMMAND_GET lock (Some sr) c w
       = res_bind (lock_switch net load REDIS_COMMAND_GET h con (reply_of r) (Some sr) c' w') (after lock)"
    have e: "r = RBulk (Some v)" "ses1 = watched key d None" "data w' = data w" using r unfolding ans by simp_all
    show thesis
    proof (rule that [of c' w'])
      show "doRedisCommandWithLock (Suc n) net load key (build (CGet key)) REDIS_COMMAND_GET lock (Some sr) c w
        = Inr (Some (True, lock, Some sr', c', w'))"
        unfolding run e(1) using load by (simp add: lock_replies parseGetSerialReply_def)
    qed (use held' e in simp_all)
  qed simp
qed

lemma getSerialWithLock_live:
  assumes ok: "lockable sess key c w" and key: "arg_small key"
    and v: "data w key = Some (RStr v)" "length v < 2 ^ 29"
    and load: "load sr (DBInStream (v @ [NUL]) (length v)) = Inr (sr', inp)" "m_loadError inp = 0"
  obtains lock c' w' where "getSerialWithLock (Suc n) net load key sr no_lock c w = Inr (Some (True, lock, Some sr', c', w'))"
    "locked_by sess lock (watched key False None) key c' w'" "data w' = data w"
proof -
  obtain lock c1 w1 where 1: "doRedisCommandWithLock (Suc n) net load key (build (CWatch key)) REDIS_COMMAND_WATCH no_lock None c w
      = Inr (Some (True, lock, None, c1, w1))"
    "locked_by sess lock (watched key False None) key c1 w1" "data w1 = data w"
    by (rule watch_live [OF ok key])
  have "data w1 key = Some (RStr v)" using v(1) 1(3) by simp
  note get = get_live [where load = load and sr = sr, OF 1(2) key this v(2) load]
  obtain c2 w2 where 2: "doRedisCommandWithLock (Suc n) net load key (build (CGet key)) REDIS_COMMAND_GET lock (Some sr) c1 w1
      = Inr (Some (True, lock, Some sr', c2, w2))" "locked_by sess lock (watched key False None) key c2 w2" "data w2 = data w1"
    by (rule get)
  show thesis by (rule that [of lock c2 w2]) (use 1 2 in \<open>simp_all add: getSerialWithLock_def\<close>)
qed

lemma setSerialWithLock_live:
  assumes held: "locked_by sess lock (watched key d None) key c w" and small: "arg_small key" "arg_small u"
    and u: "saved save y = Inr u"
  obtains c' w' where "setSerialWithLock (Suc n) net load save key y lock c w = Inr (Some (\<not> d, lock, Some y, c', w'))"
    "lockable sess key c' w'" "data w' = (if d then data w else (data w)(key \<mapsto> RStr u))"
proof -
  obtain c1 w1 where 1: "doRedisCommandWithLock (Suc n) net load key (build CMulti) REDIS_COMMAND_MULTI lock None c w
      = Inr (Some (True, lock, None, c1, w1))" "locked_by sess lock (watched key d (Some [])) key c1 w1" "data w1 = data w"
    by (rule multi_live [OF held])
  obtain c2 w2 where 2: "doRedisCommandWithLock (Suc n) net load key (build (CSet key u)) REDIS_COMMAND_SET lock None c1 w1
      = Inr (Some (True, lock, None, c2, w2))" "locked_by sess lock (watched key d (Some [[''set'', key, u]])) key c2 w2"
    "data w2 = data w1" by (rule set_live [OF 1(2) small])
  obtain c3 w3 where 3: "doRedisCommandWithLock (Suc n) net load key (build CExec) REDIS_COMMAND_EXEC lock None c2 w2
      = Inr (Some (\<not> d, lock, None, c3, w3))" "lockable sess key c3 w3"
    "data w3 = (if d then data w2 else (data w2)(key \<mapsto> RStr u))" by (rule exec_live [OF 2(2)])
  show thesis
    by (rule that [of c3 w3]) (use 1 2 3 u in \<open>simp_all add: setSerialWithLock_def del: build.simps\<close>)
qed

text \<open>Other clients leave the client alone but mark the session.\<close>

lemma locked_meanwhile:
  assumes "locked_by sess lock (watched key d q) key c w" "meanwhile data sess T w w'"
  shows "locked_by sess lock (watched key (d \<or> key \<in> T) q) key c w'"
proof -
  have s: "sess s w' = map_option (\<lambda>ss. ss\<lparr> ss_dirty := ss_dirty ss \<or> ss_watch ss \<inter> T \<noteq> {} \<rparr>) (sess s w)" for s
    using assms(2) unfolding meanwhile_def by blast
  have n: "sess s w' = None" if "sess s w = None" for s unfolding s that by simp
  have i: "idle p w'" if "idle p w" for p using that n unfolding idle_def by blast
  have m: "sess s w' = watched key (d \<or> key \<in> T) q" if "sess s w = watched key d q" for s
    unfolding s that by (simp add: watched_def)
  show ?thesis using assms(1) i m unfolding locked_by_def by blast
qed

end


section \<open>A server that meets the contract\<close>

record lock_world =
  lw_db :: ldb
  lw_ses :: "sock \<Rightarrow> lock_session option"
  lw_out :: "sock \<Rightarrow> bytes list"

definition lock_serve :: "bytes list \<Rightarrow> lock_session option \<Rightarrow> ldb \<Rightarrow> resp \<times> lock_session option \<times> ldb" where
  "lock_serve ws ses m =
     (let ss = opened ses in
      case ss_queue ss of
        None \<Rightarrow>
          if ws = [''unwatch''] then (RStatus ''OK'', None, m)
          else if ws = [''multi''] then (RStatus ''OK'', Some (ss\<lparr> ss_queue := Some [] \<rparr>), m)
          else if length ws = 2 \<and> hd ws = ''watch''
          then (RStatus ''OK'', Some (ss\<lparr> ss_watch := insert (ws ! 1) (ss_watch ss) \<rparr>), m)
          else (let (r, m) = ref_exec ws m in (r, ses, m))
      | Some q \<Rightarrow>
          if ws = [''exec''] then
            (if ss_dirty ss then (RNilArray, None, m)
             else let (rs, m) = ref_run q m in (RArray (map exec_elem rs), None, m))
          else (RStatus ''QUEUED'', Some (ss\<lparr> ss_queue := Some (q @ [ws]) \<rparr>), m))"

text \<open>The sessions that watch a key that was changed are marked.\<close>

definition mark :: "ldb \<Rightarrow> ldb \<Rightarrow> lock_session \<Rightarrow> lock_session" where
  "mark m m' ss = ss\<lparr> ss_dirty := ss_dirty ss \<or> (\<exists>k \<in> ss_watch ss. m' k \<noteq> m k) \<rparr>"

definition lock_send :: "sock \<Rightarrow> bytes \<Rightarrow> lock_world \<Rightarrow> bool \<times> lock_world" where
  "lock_send s b w =
     (case dec_request b of
        None \<Rightarrow> (True, w)
      | Some ws \<Rightarrow>
          (let (r, t, m) = lock_serve ws (lw_ses w s) (lw_db w) in
           (True, w\<lparr> lw_db := m, lw_ses := (\<lambda>s'. map_option (mark (lw_db w) m) (lw_ses w s'))(s := t),
              lw_out := (lw_out w)(s := cut (enc_resp r)) \<rparr>)))"

definition lock_ref_net :: "lock_world net" where
  "lock_ref_net = \<lparr> net_time = (\<lambda>_. 0), net_alive = (\<lambda>_ _. True),
     net_connect = (\<lambda>s _ _ w. (True, w\<lparr> lw_ses := (lw_ses w)(s := None) \<rparr>)),
     net_send = lock_send,
     net_reads = (\<lambda>s w. (map Some (lw_out w s), w\<lparr> lw_out := (lw_out w)(s := []) \<rparr>)),
     net_close = (\<lambda>s w. w\<lparr> lw_ses := (lw_ses w)(s := None) \<rparr>) \<rparr>"

lemma lock_serve_spec:
  assumes "lock_serve ws ses m = (r, ses', m')"
  shows "(r, ses', abs_db m') \<in> lock_answers ws ses (abs_db m)"
proof (cases "ss_queue (opened ses)")
  case None
  consider (two) c k where "ws = [c, k]" | (other) "\<nexists>c k. ws = [c, k]" by blast
  then show ?thesis
  proof cases
    case two
    show ?thesis
      using assms None ref_exec_spec [of ws m]
      by (auto simp: two lock_serve_def lock_answers_def meets_def Let_def split: if_splits prod.splits)
  next
    case other
    then have "(case ws of [c, k] \<Rightarrow> P c k | _ \<Rightarrow> UNIV) = UNIV" for P :: "bytes \<Rightarrow> bytes \<Rightarrow> (resp \<times> lock_session option \<times> db) set"
      by (simp split: list.splits)
    then show ?thesis
      using assms None by (auto simp: lock_serve_def lock_answers_def Let_def split: if_splits)
  qed
next
  case (Some q)
  then show ?thesis
    using assms ref_run_spec [of q m]
    by (auto simp: lock_serve_def lock_answers_def Let_def split: if_splits prod.splits)
qed

abbreviation lock_data :: "lock_world \<Rightarrow> db" where
  "lock_data w \<equiv> abs_db (lw_db w)"

abbreviation lock_ses :: "sock \<Rightarrow> lock_world \<Rightarrow> lock_session option" where
  "lock_ses s w \<equiv> lw_ses w s"

interpretation lock_ref: lock_net lock_ref_net lock_data lock_ses
proof
  fix s ws and w :: lock_world
  obtain r t m where r: "lock_serve ws (lw_ses w s) (lw_db w) = (r, t, m)" by (metis prod_cases3)
  define w1 where "w1 = w\<lparr> lw_db := m, lw_ses := (\<lambda>s'. map_option (mark (lw_db w) m) (lw_ses w s'))(s := t),
    lw_out := (lw_out w)(s := cut (enc_resp r)) \<rparr>"
  have "net_send lock_ref_net s (enc_request ws) w = (True, w1)"
    using r by (simp add: lock_ref_net_def lock_send_def dec_enc_request w1_def)
  moreover have "net_reads lock_ref_net s w1 = (map Some (cut (enc_resp r)) @ [], w1\<lparr> lw_out := (lw_out w1)(s := []) \<rparr>)"
    by (simp add: lock_ref_net_def w1_def)
  ultimately show "\<exists>w1 ds later w2 r. net_send lock_ref_net s (enc_request ws) w = (True, w1)
      \<and> net_reads lock_ref_net s w1 = (map Some ds @ later, w2) \<and> delivers ds r
      \<and> (r, lock_ses s w2, lock_data w2) \<in> lock_answers ws (lock_ses s w) (lock_data w)
      \<and> others_idle lock_ses s w w2"
    using delivers_cut [of r] lock_serve_spec [OF r]
    by (intro exI conjI) (auto simp: w1_def others_idle_def)
qed (auto simp: lock_ref_net_def others_same_def)

text \<open>A write of another client.\<close>

definition touch :: "string \<Rightarrow> bytes \<Rightarrow> lock_world \<Rightarrow> lock_world" where
  "touch k v w = w\<lparr> lw_db := (lw_db w)(k \<mapsto> LStr v),
     lw_ses := (\<lambda>s. map_option (\<lambda>ss. ss\<lparr> ss_dirty := ss_dirty ss \<or> k \<in> ss_watch ss \<rparr>) (lw_ses w s)) \<rparr>"

lemma touch_meanwhile:
  "meanwhile lock_data lock_ses {k} w (touch k v w)" "meanwhile lock_data lock_ses {} w w"
  by (auto simp: meanwhile_def touch_def option.map_ident_strong)

definition lock_client :: client where
  "lock_client = (one_client CLUSTER_MODE)\<lparr> m_slotMap := [(unat (crc16 ''k'') mod REDIS_SLOT_NUM, ''n'')],
     m_clusterMap := [(''n'', empty_info\<lparr> isMaster := True, isAlived := True, clusterHandler := Some 7 \<rparr>)] \<rparr>"

definition lock_world1 :: lock_world where
  "lock_world1 = \<lparr> lw_db = [''k'' \<mapsto> LStr (device_enc (Device ''d1''))], lw_ses = (\<lambda>_. None), lw_out = (\<lambda>_. []) \<rparr>"

lemma lock_client_ok: "lockable lock_ses ''k'' lock_client lock_world1"
  by (auto simp: lockable_def lock_client_def lock_world1_def getClusterIdBySlot_def getRedisClusterInfo_def one_client_def
      one_pool_def RedisCluster_def pool_inv_def pool_free_def pool_idle_def RedisConnection_def)


end
