(* ===== verification/Restorer.thy ===== *)
theory Restorer
  imports Managers
begin

text \<open>
  \<open>DownDataRestorer\<close>: the queue of operations, the background thread that runs them
  through the managers, and \<open>Init\<close>, \<open>Start\<close>, \<open>Stop\<close> and \<open>Uninit\<close>.  The threads are
  interleaved: one step of the background thread goes from one shared access to the next,
  \<open>Start\<close> and \<open>Stop\<close> are cut where another thread can come in between, and an operation of
  a client, which holds \<open>operations_queue_mutex_\<close> from its first line, is one step.
\<close>

section \<open>Operations\<close>

datatype OperationType = INSERT | DELETE | CLEAR | UPDATE

datatype EntityType = DEVICE | CHANNEL | EXECUTING_INVITE_CMD

datatype entity = EDevice device | EChannel channel | ECmd executing_invite_cmd

text \<open>\<open>entities\<close> are the addresses of the copies that the constructors make.\<close>

record DataRestorerOperation =
  operation_type :: OperationType
  entity_type :: EntityType
  entities :: "nat list"
  executing_invite_cmd_list_no :: int

text \<open>What an operation asks for, by value.\<close>

type_synonym request = "OperationType \<times> EntityType \<times> entity list \<times> int"

section \<open>State\<close>

text \<open>Where the background thread is: before the loop test, at the lock, after it took the
  lock, before \<open>Wait\<close>, in \<open>Wait\<close>, woken and at the lock again, with an operation in hand,
  before \<open>CountDown\<close>, and at its end.\<close>

datatype thread_pc =
    NotCreated | Looping | Locking | Holding | Falling | Sleeping | Woken
  | Running DataRestorerOperation | Exiting | Finished

text \<open>The thread that calls \<open>Start\<close> and \<open>Stop\<close>: outside of them, in \<open>Start\<close> before the latch
  is made, in \<open>Stop\<close> before \<open>SignalAll\<close>, and in \<open>Stop\<close> at the latch.\<close>

datatype owner_pc = Outside | Starting | Signalling | Waiting

text \<open>The three managers are made and deleted together: \<open>managers\<close> says whether they exist.
  \<open>exit_latch\<close> is the count of the latch, \<open>copies\<close> the entities on the heap.\<close>

record restorer =
  redis_client :: "client option"
  inited :: bool
  started :: bool
  force_thread_exit :: bool
  background_threads_num :: nat
  restorer_threads :: "nat list"
  exit_latch :: "int option"
  managers :: bool
  operations_queue :: "DataRestorerOperation list"
  worker_thread_num :: int
  redis_mode :: RedisMode
  queue_mutex :: "nat option"
  copies :: "nat \<rightharpoonup> entity"
  next_copy :: nat
  pc_of :: "nat \<Rightarrow> thread_pc"
  next_thread :: nat
  owner :: owner_pc

definition DownDataRestorer :: restorer where
  "DownDataRestorer =
     \<lparr> redis_client = None, inited = False, started = False, force_thread_exit = False,
       background_threads_num = 0, restorer_threads = [], exit_latch = None, managers = False,
       operations_queue = [], worker_thread_num = 0, redis_mode = STAND_ALONE_OR_PROXY_MODE,
       queue_mutex = None, copies = Map.empty, next_copy = 0, pc_of = (\<lambda>_. NotCreated), next_thread = 0,
       owner = Outside \<rparr>"

definition DDR_OK :: int where
  "DDR_OK = 1"

definition DDR_FAIL :: int where
  "DDR_FAIL = 0"

section \<open>Init, Start, Stop and Uninit\<close>

text \<open>\<open>conn\<close> is what \<open>RedisClient::init\<close> leaves: the client, or nothing when it fails.\<close>

definition ddr_Init :: "RedisMode \<Rightarrow> int \<Rightarrow> client option \<Rightarrow> restorer \<Rightarrow> int \<times> restorer" where
  "ddr_Init mode n conn r =
     (if inited r then (DDR_FAIL, r)
      else let r = r\<lparr> worker_thread_num := n, redis_mode := mode, background_threads_num := 1 \<rparr> in
        case conn of
          None \<Rightarrow> (DDR_FAIL, r\<lparr> redis_client := None \<rparr>)
        | Some c \<Rightarrow> (DDR_OK, r\<lparr> redis_client := Some c, inited := True \<rparr>))"

definition ddr_Uninit :: "restorer \<Rightarrow> int \<times> restorer" where
  "ddr_Uninit r =
     (DDR_OK, (if inited r \<and> redis_client r \<noteq> None then r\<lparr> redis_client := None \<rparr> else r)\<lparr> inited := False \<rparr>)"

text \<open>The loop over \<open>pthread_create\<close>; \<open>oks\<close> says which calls succeed.\<close>

fun create_threads :: "bool list \<Rightarrow> restorer \<Rightarrow> restorer" where
  "create_threads [] r = r"
| "create_threads (ok # oks) r = create_threads oks
     (if ok then r\<lparr> pc_of := (pc_of r)(next_thread r := Looping),
                    restorer_threads := restorer_threads r @ [next_thread r],
                    next_thread := Suc (next_thread r) \<rparr>
      else r)"

text \<open>\<open>Start\<close> up to the latch: the result is there when it returns here.\<close>

definition Start_threads :: "bool list \<Rightarrow> restorer \<Rightarrow> int option \<times> restorer" where
  "Start_threads oks r =
     (if \<not> inited r \<or> started r then (Some DDR_FAIL, r)
      else let r = create_threads oks (r\<lparr> managers := True \<rparr>) in
        if restorer_threads r = [] then (Some DDR_FAIL, r) else (None, r\<lparr> owner := Starting \<rparr>))"

definition Start_latch :: "restorer \<Rightarrow> int \<times> restorer" where
  "Start_latch r =
     (DDR_OK, r\<lparr> exit_latch := Some (int (length (restorer_threads r))), started := True, owner := Outside \<rparr>)"

definition wake_all :: "(nat \<Rightarrow> thread_pc) \<Rightarrow> nat \<Rightarrow> thread_pc" where
  "wake_all pcs t = (if pcs t = Sleeping then Woken else pcs t)"

definition Stop_flag :: "restorer \<Rightarrow> int option \<times> restorer" where
  "Stop_flag r =
     (if \<not> started r then (Some DDR_FAIL, r) else (None, r\<lparr> force_thread_exit := True, owner := Signalling \<rparr>))"

definition Stop_signal :: "restorer \<Rightarrow> restorer" where
  "Stop_signal r = r\<lparr> pc_of := wake_all (pc_of r), owner := Waiting \<rparr>"

text \<open>\<open>Wait\<close> of the latch and the rest of \<open>Stop\<close>; \<open>None\<close> while \<open>Wait\<close> blocks.\<close>

definition Stop_wait :: "restorer \<Rightarrow> (int \<times> restorer) res option" where
  "Stop_wait r =
     (case exit_latch r of
        None \<Rightarrow> Some (Inl NullDeref)
      | Some n \<Rightarrow>
          if n \<noteq> 0 then None
          else Some (Inr (DDR_OK, r\<lparr> exit_latch := None, managers := False, started := False, owner := Outside \<rparr>)))"

section \<open>Running an operation\<close>

text \<open>The casts of the pointers in \<open>entities\<close>; one that does not fit is a fault.\<close>

fun as_device :: "entity \<Rightarrow> device res" where
  "as_device (EDevice d) = Inr d"
| "as_device _ = Inl Dangling"

fun as_channel :: "entity \<Rightarrow> channel res" where
  "as_channel (EChannel x) = Inr x"
| "as_channel _ = Inl Dangling"

fun as_cmd :: "entity \<Rightarrow> executing_invite_cmd res" where
  "as_cmd (ECmd x) = Inr x"
| "as_cmd _ = Inl Dangling"

fun all_as :: "(entity \<Rightarrow> 'e res) \<Rightarrow> entity list \<Rightarrow> 'e list res" where
  "all_as cast [] = Inr []"
| "all_as cast (e # es) = res_bind (cast e) (\<lambda>x. res_bind (all_as cast es) (\<lambda>xs. Inr (x # xs)))"

definition first_as :: "(entity \<Rightarrow> 'e res) \<Rightarrow> entity list \<Rightarrow> 'e res" where
  "first_as cast es = (case es of [] \<Rightarrow> Inl Dangling | e # _ \<Rightarrow> cast e)"

definition run_operation ::
  "'w net \<Rightarrow> RedisMode \<Rightarrow> int \<Rightarrow> request \<Rightarrow> client \<Rightarrow> 'w \<Rightarrow> (int \<times> client \<times> 'w) res" where
  "run_operation net mode n req c w =
     (case req of (ty, ent, es, no) \<Rightarrow>
      case ty of
        INSERT \<Rightarrow>
         (case ent of
            DEVICE \<Rightarrow> res_bind (first_as as_device es) (\<lambda>d. InsertDevice net mode d c w)
          | CHANNEL \<Rightarrow> res_bind (first_as as_channel es) (\<lambda>x. InsertChannel net mode x c w)
          | EXECUTING_INVITE_CMD \<Rightarrow> res_bind (first_as as_cmd es) (\<lambda>x. InsertCmd net mode n x no c w))
      | DELETE \<Rightarrow>
         (case ent of
            DEVICE \<Rightarrow> res_bind (first_as as_device es) (\<lambda>d. DeleteDevice net mode d c w)
          | CHANNEL \<Rightarrow> res_bind (first_as as_channel es) (\<lambda>x. DeleteChannel net mode x c w)
          | EXECUTING_INVITE_CMD \<Rightarrow> res_bind (first_as as_cmd es) (\<lambda>x. DeleteCmd net mode n x no c w))
      | CLEAR \<Rightarrow>
         (case ent of
            DEVICE \<Rightarrow> ClearDevices net c w
          | CHANNEL \<Rightarrow> ClearChannels net c w
          | EXECUTING_INVITE_CMD \<Rightarrow>
              if no = -1 then clear_workers net n 0 (nat n) c w else ClearCmds net n no c w)
      | UPDATE \<Rightarrow>
         (case ent of
            DEVICE \<Rightarrow> res_bind (all_as as_device es) (\<lambda>ds. UpdateDevices net ds c w)
          | CHANNEL \<Rightarrow> res_bind (all_as as_channel es) (\<lambda>xs. UpdateChannels net xs c w)
          | EXECUTING_INVITE_CMD \<Rightarrow> res_bind (all_as as_cmd es) (\<lambda>xs. UpdateCmds net n xs no c w)))"

text \<open>The entities behind the addresses; then they are deleted.\<close>

fun fetch :: "(nat \<rightharpoonup> entity) \<Rightarrow> nat list \<Rightarrow> entity list res" where
  "fetch h [] = Inr []"
| "fetch h (a # as) =
     (case h a of
        None \<Rightarrow> Inl Dangling
      | Some e \<Rightarrow> res_bind (fetch h as) (\<lambda>es. Inr (e # es)))"

definition request_of :: "DataRestorerOperation \<Rightarrow> entity list \<Rightarrow> request" where
  "request_of op es = (operation_type op, entity_type op, es, executing_invite_cmd_list_no op)"

definition process :: "'w net \<Rightarrow> DataRestorerOperation \<Rightarrow> restorer \<Rightarrow> 'w \<Rightarrow> (restorer \<times> 'w) res" where
  "process net op r w =
     (if \<not> managers r then Inl NullDeref
      else case redis_client r of
        None \<Rightarrow> Inl Dangling
      | Some c \<Rightarrow>
          res_bind (fetch (copies r) (entities op)) (\<lambda>es.
          res_bind (run_operation net (redis_mode r) (worker_thread_num r) (request_of op es) c w) (\<lambda>(_, c, w).
          Inr (r\<lparr> redis_client := Some c, copies := copies r |` (- set (entities op)) \<rparr>, w))))"

section \<open>The background thread\<close>

text \<open>One step of thread \<open>t\<close>; \<open>None\<close> when it cannot move.\<close>

definition goto :: "nat \<Rightarrow> thread_pc \<Rightarrow> restorer \<Rightarrow> restorer" where
  "goto t p r = r\<lparr> pc_of := (pc_of r)(t := p) \<rparr>"

definition lock :: "nat \<Rightarrow> restorer \<Rightarrow> restorer option" where
  "lock t r = (if queue_mutex r = None then Some (r\<lparr> queue_mutex := Some t \<rparr>) else None)"

definition unlock :: "restorer \<Rightarrow> restorer" where
  "unlock r = r\<lparr> queue_mutex := None \<rparr>"

definition CountDown :: "restorer \<Rightarrow> restorer res" where
  "CountDown r =
     (case exit_latch r of None \<Rightarrow> Inl NullDeref | Some n \<Rightarrow> Inr (r\<lparr> exit_latch := Some (n - 1) \<rparr>))"

definition thread_step :: "'w net \<Rightarrow> nat \<Rightarrow> restorer \<Rightarrow> 'w \<Rightarrow> (restorer \<times> 'w) res option" where
  "thread_step net t r w =
     (case pc_of r t of
        NotCreated \<Rightarrow> None
      | Looping \<Rightarrow> Some (Inr (goto t (if force_thread_exit r then Exiting else Locking) r, w))
      | Locking \<Rightarrow> map_option (\<lambda>r. Inr (goto t Holding r, w)) (lock t r)
      | Holding \<Rightarrow> Some (Inr (
          (if force_thread_exit r then goto t Exiting (unlock r)
           else case operations_queue r of
             [] \<Rightarrow> goto t Falling r
           | op # ops \<Rightarrow> goto t (Running op) (unlock (r\<lparr> operations_queue := ops \<rparr>))), w))
      | Falling \<Rightarrow> Some (Inr (goto t Sleeping (unlock r), w))
      | Sleeping \<Rightarrow> None
      | Woken \<Rightarrow> map_option (\<lambda>r. Inr (goto t Holding r, w)) (lock t r)
      | Running op \<Rightarrow> Some (res_bind (process net op r w) (\<lambda>(r, w). Inr (goto t Looping r, w)))
      | Exiting \<Rightarrow> Some (res_bind (CountDown r) (\<lambda>r. Inr (goto t Finished r, w)))
      | Finished \<Rightarrow> None)"

section \<open>Operations of the clients\<close>

fun copy_entities :: "entity list \<Rightarrow> restorer \<Rightarrow> nat list \<times> restorer" where
  "copy_entities [] r = ([], r)"
| "copy_entities (e # es) r =
     (let a = next_copy r;
          (as, r) = copy_entities es (r\<lparr> copies := (copies r)(a \<mapsto> e), next_copy := Suc a \<rparr>) in (a # as, r))"

text \<open>The body of every operation that changes something: \<open>CHECK(started_)\<close>, a new operation with
  copies of its entities at the end of the queue, and a signal.\<close>

definition push_request :: "((nat \<Rightarrow> thread_pc) \<Rightarrow> nat \<Rightarrow> thread_pc) \<Rightarrow> request \<Rightarrow> restorer \<Rightarrow> restorer res" where
  "push_request wake req r =
     (if \<not> started r then Inl CheckFailed
      else case req of (ty, ent, es, no) \<Rightarrow>
        let (as, r) = copy_entities es r;
            op = \<lparr> operation_type = ty, entity_type = ent, entities = as, executing_invite_cmd_list_no = no \<rparr>
        in Inr (r\<lparr> operations_queue := operations_queue r @ [op], pc_of := wake (pc_of r) \<rparr>))"

definition InsertDeviceList :: "device \<Rightarrow> restorer \<Rightarrow> restorer res" where
  "InsertDeviceList d = push_request wake_all (INSERT, DEVICE, [EDevice d], -1)"

definition DeleteDeviceList :: "device \<Rightarrow> restorer \<Rightarrow> restorer res" where
  "DeleteDeviceList d = push_request wake_all (DELETE, DEVICE, [EDevice d], -1)"

definition ClearDeviceList :: "restorer \<Rightarrow> restorer res" where
  "ClearDeviceList = push_request wake_all (CLEAR, DEVICE, [], -1)"

definition UpdateDeviceList :: "device list \<Rightarrow> restorer \<Rightarrow> restorer res" where
  "UpdateDeviceList ds = push_request wake_all (UPDATE, DEVICE, map EDevice ds, -1)"

definition InsertChannelList :: "channel \<Rightarrow> restorer \<Rightarrow> restorer res" where
  "InsertChannelList x = push_request wake_all (INSERT, CHANNEL, [EChannel x], -1)"

definition DeleteChannelList :: "channel \<Rightarrow> restorer \<Rightarrow> restorer res" where
  "DeleteChannelList x = push_request wake_all (DELETE, CHANNEL, [EChannel x], -1)"

definition ClearChannelList :: "restorer \<Rightarrow> restorer res" where
  "ClearChannelList = push_request wake_all (CLEAR, CHANNEL, [], -1)"

definition UpdateChannelList :: "channel list \<Rightarrow> restorer \<Rightarrow> restorer res" where
  "UpdateChannelList xs = push_request wake_all (UPDATE, CHANNEL, map EChannel xs, -1)"

text \<open>\<open>Signal\<close> wakes one of the threads that sleep: \<open>t\<close>, if it does.\<close>

definition wake_one :: "nat \<Rightarrow> (nat \<Rightarrow> thread_pc) \<Rightarrow> nat \<Rightarrow> thread_pc" where
  "wake_one t pcs = (if pcs t = Sleeping then pcs(t := Woken) else pcs)"

definition InsertExecutingInviteCmdList :: "nat \<Rightarrow> int \<Rightarrow> executing_invite_cmd \<Rightarrow> restorer \<Rightarrow> restorer res" where
  "InsertExecutingInviteCmdList t no x = push_request (wake_one t) (INSERT, EXECUTING_INVITE_CMD, [ECmd x], no)"

definition DeleteExecutingInviteCmdList :: "int \<Rightarrow> executing_invite_cmd \<Rightarrow> restorer \<Rightarrow> restorer res" where
  "DeleteExecutingInviteCmdList no x = push_request wake_all (DELETE, EXECUTING_INVITE_CMD, [ECmd x], no)"

definition ClearExecutingInviteCmdLists :: "restorer \<Rightarrow> restorer res" where
  "ClearExecutingInviteCmdLists = push_request wake_all (CLEAR, EXECUTING_INVITE_CMD, [], -1)"

definition ClearExecutingInviteCmdList :: "int \<Rightarrow> restorer \<Rightarrow> restorer res" where
  "ClearExecutingInviteCmdList no = push_request wake_all (CLEAR, EXECUTING_INVITE_CMD, [], no)"

definition UpdateExecutingInviteCmdList :: "int \<Rightarrow> executing_invite_cmd list \<Rightarrow> restorer \<Rightarrow> restorer res" where
  "UpdateExecutingInviteCmdList no xs = push_request wake_all (UPDATE, EXECUTING_INVITE_CMD, map ECmd xs, no)"

text \<open>The loop over the workers: each call takes the lock for itself.\<close>

fun update_lists :: "nat \<Rightarrow> executing_invite_cmd list list \<Rightarrow> restorer \<Rightarrow> restorer res" where
  "update_lists i [] r = Inr r"
| "update_lists i (xs # xss) r = res_bind (UpdateExecutingInviteCmdList (int i) xs r) (update_lists (Suc i) xss)"

definition UpdateExecutingInviteCmdLists :: "executing_invite_cmd list list \<Rightarrow> restorer \<Rightarrow> restorer res" where
  "UpdateExecutingInviteCmdLists xss r =
     (if \<not> started r then Inl CheckFailed
      else if int (length xss) \<noteq> worker_thread_num r then Inl CheckFailed
      else update_lists 0 xss r)"

section \<open>Reading\<close>

text \<open>\<open>CHECK(started_)\<close> and a call of a manager.\<close>

definition asking :: "(client \<Rightarrow> 'w \<Rightarrow> ('a \<times> client \<times> 'w) res) \<Rightarrow> restorer \<Rightarrow> 'w \<Rightarrow> ('a \<times> restorer \<times> 'w) res" where
  "asking f r w =
     (if \<not> started r then Inl CheckFailed
      else if \<not> managers r then Inl NullDeref
      else case redis_client r of
        None \<Rightarrow> Inl Dangling
      | Some c \<Rightarrow> res_bind (f c w) (\<lambda>(x, c, w). Inr (x, r\<lparr> redis_client := Some c \<rparr>, w)))"

definition LoadDeviceList :: "'w net \<Rightarrow> device list \<Rightarrow> restorer \<Rightarrow> 'w \<Rightarrow> ((int \<times> device list) \<times> restorer \<times> 'w) res" where
  "LoadDeviceList net ds = asking (\<lambda>c w. res_bind (LoadDevices net ds c w) (\<lambda>(_, ds, c, w). Inr ((DDR_OK, ds), c, w)))"

definition SelectDeviceList ::
  "'w net \<Rightarrow> string \<Rightarrow> device \<Rightarrow> restorer \<Rightarrow> 'w \<Rightarrow> ((int \<times> device) \<times> restorer \<times> 'w) res" where
  "SelectDeviceList net i d = asking (\<lambda>c w. res_bind (SearchDevice net i d c w) (\<lambda>(ret, d, c, w).
     Inr ((if ret < 0 then DDR_FAIL else DDR_OK, d), c, w)))"

definition LoadChannelList :: "'w net \<Rightarrow> channel list \<Rightarrow> restorer \<Rightarrow> 'w \<Rightarrow> ((int \<times> channel list) \<times> restorer \<times> 'w) res" where
  "LoadChannelList net xs = asking (\<lambda>c w. res_bind (LoadChannels net xs c w) (\<lambda>(_, xs, c, w). Inr ((DDR_OK, xs), c, w)))"

definition SelectChannelList ::
  "'w net \<Rightarrow> string \<Rightarrow> channel \<Rightarrow> restorer \<Rightarrow> 'w \<Rightarrow> ((int \<times> channel) \<times> restorer \<times> 'w) res" where
  "SelectChannelList net i x = asking (\<lambda>c w. res_bind (SearchChannel net i x c w) (\<lambda>(ret, x, c, w).
     Inr ((if ret < 0 then DDR_FAIL else DDR_OK, x), c, w)))"

definition LoadExecutingInviteCmdLists ::
  "'w net \<Rightarrow> executing_invite_cmd \<Rightarrow> restorer \<Rightarrow> 'w \<Rightarrow> ((int \<times> executing_invite_cmd list list) \<times> restorer \<times> 'w) res" where
  "LoadExecutingInviteCmdLists net junk r = asking (\<lambda>c w.
     res_bind (load_workers net (worker_thread_num r) junk 0 (nat (worker_thread_num r)) c w) (\<lambda>(xss, c, w).
     Inr ((DDR_OK, xss), c, w))) r"

definition LoadExecutingInviteCmdList ::
  "'w net \<Rightarrow> executing_invite_cmd \<Rightarrow> int \<Rightarrow> executing_invite_cmd list \<Rightarrow> restorer \<Rightarrow> 'w
   \<Rightarrow> ((int \<times> executing_invite_cmd list) \<times> restorer \<times> 'w) res" where
  "LoadExecutingInviteCmdList net junk no xs r = asking (\<lambda>c w.
     res_bind (LoadCmds net (worker_thread_num r) junk no xs c w) (\<lambda>(_, xs, c, w). Inr ((DDR_OK, xs), c, w))) r"

definition SelectExecutingInviteCmdList ::
  "'w net \<Rightarrow> int \<Rightarrow> string \<Rightarrow> executing_invite_cmd \<Rightarrow> restorer \<Rightarrow> 'w \<Rightarrow> ((int \<times> executing_invite_cmd) \<times> restorer \<times> 'w) res" where
  "SelectExecutingInviteCmdList net no i x r = asking (\<lambda>c w.
     res_bind (SearchCmd net (worker_thread_num r) i x no c w) (\<lambda>(ret, x, c, w).
     Inr ((if ret < 0 then DDR_FAIL else DDR_OK, x), c, w))) r"

definition DeviceCount :: "'w net \<Rightarrow> restorer \<Rightarrow> 'w \<Rightarrow> (int \<times> restorer \<times> 'w) res" where
  "DeviceCount net = asking (GetDeviceCount net)"

definition ChannelCount :: "'w net \<Rightarrow> restorer \<Rightarrow> 'w \<Rightarrow> (int \<times> restorer \<times> 'w) res" where
  "ChannelCount net = asking (GetChannelCount net)"

definition GetExecutingInviteCmdCount :: "'w net \<Rightarrow> int \<Rightarrow> restorer \<Rightarrow> 'w \<Rightarrow> (int \<times> restorer \<times> 'w) res" where
  "GetExecutingInviteCmdCount net no r = asking (GetExecutingInviteCmdListSize net (worker_thread_num r) no) r"

text \<open>What \<open>GetStat\<close> logs.\<close>

fun stat_workers :: "'w net \<Rightarrow> nat \<Rightarrow> nat \<Rightarrow> restorer \<Rightarrow> 'w \<Rightarrow> (int list \<times> restorer \<times> 'w) res" where
  "stat_workers net i 0 r w = Inr ([], r, w)"
| "stat_workers net i (Suc k) r w =
     res_bind (GetExecutingInviteCmdCount net (int i) r w) (\<lambda>(x, r, w).
     res_bind (stat_workers net (Suc i) k r w) (\<lambda>(xs, r, w). Inr (x # xs, r, w)))"

definition GetStat :: "'w net \<Rightarrow> restorer \<Rightarrow> 'w \<Rightarrow> ((int \<times> int list) \<times> restorer \<times> 'w) res" where
  "GetStat net r w =
     (if \<not> started r then Inr ((DDR_FAIL, []), r, w)
      else res_bind (DeviceCount net r w) (\<lambda>(d, r, w).
           res_bind (ChannelCount net r w) (\<lambda>(ch, r, w).
           res_bind (stat_workers net 0 (nat (worker_thread_num r)) r w) (\<lambda>(xs, r, w).
           Inr ((DDR_OK, d # ch # xs), r, w)))))"

end
