(* ===== verification/Restorer_Threads.thy ===== *)
theory Restorer_Threads
  imports Restorer
begin

text \<open>
  The interleavings of the threads of a \<open>DownDataRestorer\<close>, and what holds in all of them:
  the operations run in the order of their calls, each once; no entity is used after it is
  deleted or leaked; a push never leaves the thread asleep.  And what does not: \<open>Stop\<close> can miss
  the thread that is about to wait, and a restorer cannot be started a second time.
\<close>

section \<open>Steps\<close>

text \<open>The operations of the clients that change something.\<close>

datatype call =
    CInsertDevice device | CDeleteDevice device | CClearDevices | CUpdateDevices "device list"
  | CInsertChannel channel | CDeleteChannel channel | CClearChannels | CUpdateChannels "channel list"
  | CInsertCmd int executing_invite_cmd | CDeleteCmd int executing_invite_cmd | CClearAllCmds
  | CClearCmds int | CUpdateCmds int "executing_invite_cmd list"

text \<open>\<open>t\<close> is the thread that \<open>Signal\<close> wakes.\<close>

fun make_call :: "nat \<Rightarrow> call \<Rightarrow> restorer \<Rightarrow> restorer res" where
  "make_call t (CInsertDevice d) = InsertDeviceList d"
| "make_call t (CDeleteDevice d) = DeleteDeviceList d"
| "make_call t CClearDevices = ClearDeviceList"
| "make_call t (CUpdateDevices ds) = UpdateDeviceList ds"
| "make_call t (CInsertChannel x) = InsertChannelList x"
| "make_call t (CDeleteChannel x) = DeleteChannelList x"
| "make_call t CClearChannels = ClearChannelList"
| "make_call t (CUpdateChannels xs) = UpdateChannelList xs"
| "make_call t (CInsertCmd no x) = InsertExecutingInviteCmdList t no x"
| "make_call t (CDeleteCmd no x) = DeleteExecutingInviteCmdList no x"
| "make_call t CClearAllCmds = ClearExecutingInviteCmdLists"
| "make_call t (CClearCmds no) = ClearExecutingInviteCmdList no"
| "make_call t (CUpdateCmds no xs) = UpdateExecutingInviteCmdList no xs"

fun requested :: "call \<Rightarrow> request" where
  "requested (CInsertDevice d) = (INSERT, DEVICE, [EDevice d], -1)"
| "requested (CDeleteDevice d) = (DELETE, DEVICE, [EDevice d], -1)"
| "requested CClearDevices = (CLEAR, DEVICE, [], -1)"
| "requested (CUpdateDevices ds) = (UPDATE, DEVICE, map EDevice ds, -1)"
| "requested (CInsertChannel x) = (INSERT, CHANNEL, [EChannel x], -1)"
| "requested (CDeleteChannel x) = (DELETE, CHANNEL, [EChannel x], -1)"
| "requested CClearChannels = (CLEAR, CHANNEL, [], -1)"
| "requested (CUpdateChannels xs) = (UPDATE, CHANNEL, map EChannel xs, -1)"
| "requested (CInsertCmd no x) = (INSERT, EXECUTING_INVITE_CMD, [ECmd x], no)"
| "requested (CDeleteCmd no x) = (DELETE, EXECUTING_INVITE_CMD, [ECmd x], no)"
| "requested CClearAllCmds = (CLEAR, EXECUTING_INVITE_CMD, [], -1)"
| "requested (CClearCmds no) = (CLEAR, EXECUTING_INVITE_CMD, [], no)"
| "requested (CUpdateCmds no xs) = (UPDATE, EXECUTING_INVITE_CMD, map ECmd xs, no)"

text \<open>What a step shows: a call that was accepted, an operation that was run, a \<open>Start\<close> that got
  past its checks, or nothing.\<close>

datatype label = Pushed request | Ran request | Begun | Silent

definition running :: "restorer \<Rightarrow> nat \<Rightarrow> label" where
  "running r t =
     (case pc_of r t of
        Running op \<Rightarrow> Ran (request_of op (map (\<lambda>a. the (copies r a)) (entities op)))
      | _ \<Rightarrow> Silent)"

text \<open>The owner calls \<open>Init\<close>, \<open>Start\<close>, \<open>Stop\<close> and, while it is not started, \<open>Uninit\<close>, one after
  the other.  \<open>Wake\<close> is a spurious wakeup; \<open>Ask\<close> any reading operation, its answer
  dropped.\<close>

inductive rstep :: "'w net \<Rightarrow> restorer \<times> 'w \<Rightarrow> label \<Rightarrow> restorer \<times> 'w \<Rightarrow> bool" for net where
  Thread: "thread_step net t r w = Some (Inr (r', w')) \<Longrightarrow> rstep net (r, w) (running r t) (r', w')"
| Call: "queue_mutex r = None \<Longrightarrow> (\<exists>u. pc_of r u = Sleeping) \<longrightarrow> pc_of r t = Sleeping \<Longrightarrow>
    make_call t call r = Inr r' \<Longrightarrow> rstep net (r, w) (Pushed (requested call)) (r', w)"
| Wake: "pc_of r t = Sleeping \<Longrightarrow> rstep net (r, w) Silent (goto t Woken r, w)"
| Ask: "asking f r w = Inr ((), r', w') \<Longrightarrow> rstep net (r, w) Silent (r', w')"
| Init: "owner r = Outside \<Longrightarrow> ddr_Init mode n conn r = (ret, r') \<Longrightarrow> rstep net (r, w) Silent (r', w')"
| Uninit: "owner r = Outside \<Longrightarrow> \<not> started r \<Longrightarrow> ddr_Uninit r = (ret, r') \<Longrightarrow> rstep net (r, w) Silent (r', w)"
| Start1: "owner r = Outside \<Longrightarrow> length oks = background_threads_num r \<Longrightarrow>
    Start_threads oks r = (ret, r') \<Longrightarrow> rstep net (r, w) (if ret = None then Begun else Silent) (r', w)"
| Start2: "owner r = Starting \<Longrightarrow> Start_latch r = (ret, r') \<Longrightarrow> rstep net (r, w) Silent (r', w)"
| Stop1: "owner r = Outside \<Longrightarrow> Stop_flag r = (ret, r') \<Longrightarrow> rstep net (r, w) Silent (r', w)"
| Stop2: "owner r = Signalling \<Longrightarrow> rstep net (r, w) Silent (Stop_signal r, w)"
| Stop3: "owner r = Waiting \<Longrightarrow> Stop_wait r = Some (Inr (ret, r')) \<Longrightarrow> rstep net (r, w) Silent (r', w)"

inductive rtrace :: "'w net \<Rightarrow> restorer \<times> 'w \<Rightarrow> label list \<Rightarrow> restorer \<times> 'w \<Rightarrow> bool" for net where
  Here: "rtrace net s [] s"
| Step: "rtrace net s ls s' \<Longrightarrow> rstep net s' l s'' \<Longrightarrow> rtrace net s (ls @ [l]) s''"

fun pushed :: "label list \<Rightarrow> request list" where
  "pushed [] = []"
| "pushed (Pushed q # ls) = q # pushed ls"
| "pushed (_ # ls) = pushed ls"

fun ran :: "label list \<Rightarrow> request list" where
  "ran [] = []"
| "ran (Ran q # ls) = q # ran ls"
| "ran (_ # ls) = ran ls"

lemma pushed_append [simp]: "pushed (xs @ ys) = pushed xs @ pushed ys"
  by (induction xs rule: pushed.induct) auto

lemma ran_append [simp]: "ran (xs @ ys) = ran xs @ ran ys"
  by (induction xs rule: ran.induct) auto

section \<open>The invariant\<close>

text \<open>The operations that have not been run yet: the one in hand, then the queue.\<close>

fun in_hand :: "thread_pc \<Rightarrow> DataRestorerOperation list" where
  "in_hand (Running op) = [op]"
| "in_hand _ = []"

definition pending :: "restorer \<Rightarrow> DataRestorerOperation list" where
  "pending r = in_hand (pc_of r 0) @ operations_queue r"

definition content :: "restorer \<Rightarrow> DataRestorerOperation \<Rightarrow> request" where
  "content r op = request_of op (map (\<lambda>a. the (copies r a)) (entities op))"

text \<open>The copies are those of the operations that are pending: none is shared, lost or freed.\<close>

definition copies_inv :: "restorer \<Rightarrow> bool" where
  "copies_inv r \<longleftrightarrow> distinct (concat (map entities (pending r)))
     \<and> dom (copies r) = set (concat (map entities (pending r))) \<and> (\<forall>a \<in> dom (copies r). a < next_copy r)"

text \<open>The pointers fit their casts.\<close>

fun typed :: "request \<Rightarrow> bool" where
  "typed (ty, ent, es, no) \<longleftrightarrow>
     (case ent of DEVICE \<Rightarrow> list_all (\<lambda>e. \<exists>d. e = EDevice d) es
      | CHANNEL \<Rightarrow> list_all (\<lambda>e. \<exists>x. e = EChannel x) es
      | EXECUTING_INVITE_CMD \<Rightarrow> list_all (\<lambda>e. \<exists>x. e = ECmd x) es)
     \<and> (ty \<in> {INSERT, DELETE} \<longrightarrow> es \<noteq> [])"

text \<open>Nothing was started yet; or thread 0 was, and the flags, the latch and the managers
  agree with where the owner and the thread are.\<close>

definition unstarted :: "restorer \<Rightarrow> bool" where
  "unstarted r \<longleftrightarrow> restorer_threads r = [] \<and> next_thread r = 0 \<and> pc_of r = (\<lambda>_. NotCreated) \<and> exit_latch r = None
     \<and> \<not> started r \<and> \<not> force_thread_exit r \<and> owner r = Outside \<and> operations_queue r = []"

definition flags_inv :: "restorer \<Rightarrow> bool" where
  "flags_inv r \<longleftrightarrow>
     (case owner r of
        Starting \<Rightarrow> \<not> started r \<and> managers r \<and> inited r \<and> exit_latch r = None \<and> \<not> force_thread_exit r
          \<and> operations_queue r = [] \<and> in_hand (pc_of r 0) = [] \<and> pc_of r 0 \<noteq> Exiting \<and> pc_of r 0 \<noteq> Finished
      | Outside \<Rightarrow>
          if started r then managers r \<and> inited r \<and> exit_latch r = Some 1 \<and> \<not> force_thread_exit r
            \<and> pc_of r 0 \<noteq> Exiting \<and> pc_of r 0 \<noteq> Finished
          else exit_latch r = None \<and> force_thread_exit r \<and> pc_of r 0 = Finished
      | _ \<Rightarrow> started r \<and> managers r \<and> inited r \<and> force_thread_exit r
          \<and> exit_latch r = Some (if pc_of r 0 = Finished then 0 else 1))"

definition running_inv :: "restorer \<Rightarrow> bool" where
  "running_inv r \<longleftrightarrow> restorer_threads r = [0] \<and> next_thread r = 1 \<and> pc_of r 0 \<noteq> NotCreated
     \<and> (\<forall>t > 0. pc_of r t = NotCreated) \<and> flags_inv r
     \<and> queue_mutex r = (if pc_of r 0 \<in> {Holding, Falling} then Some 0 else None)
     \<and> (pc_of r 0 \<in> {Falling, Sleeping} \<longrightarrow> operations_queue r = [])"

definition rinv :: "restorer \<Rightarrow> bool" where
  "rinv r \<longleftrightarrow> background_threads_num r \<le> 1 \<and> (inited r \<longleftrightarrow> redis_client r \<noteq> None)
     \<and> (inited r \<longrightarrow> background_threads_num r = 1)
     \<and> (unstarted r \<and> queue_mutex r = None \<or> running_inv r) \<and> copies_inv r
     \<and> (\<forall>op \<in> set (pending r). typed (content r op))"

lemma rinv_new: "rinv DownDataRestorer"
  by (simp add: rinv_def unstarted_def DownDataRestorer_def copies_inv_def pending_def)

section \<open>What a call does\<close>

lemma copy_entities_effect:
  "\<exists>h. copy_entities es r = ([next_copy r ..< next_copy r + length es],
        r\<lparr> copies := h, next_copy := next_copy r + length es \<rparr>)
     \<and> map h [next_copy r ..< next_copy r + length es] = map Some es \<and> (\<forall>a < next_copy r. h a = copies r a)
     \<and> dom h = dom (copies r) \<union> {next_copy r ..< next_copy r + length es}"
proof (induction es arbitrary: r)
  case (Cons e es)
  let ?r = "r\<lparr> copies := (copies r)(next_copy r \<mapsto> e), next_copy := Suc (next_copy r) \<rparr>"
  have u: "[next_copy r ..< next_copy r + length (e # es)] = next_copy r # [next_copy ?r ..< next_copy ?r + length es]"
    by (simp add: upt_conv_Cons del: upt_Suc)
  obtain h where h: "copy_entities es ?r = ([next_copy ?r ..< next_copy ?r + length es],
        ?r\<lparr> copies := h, next_copy := next_copy ?r + length es \<rparr>)"
      "map h [next_copy ?r ..< next_copy ?r + length es] = map Some es" "\<forall>a < next_copy ?r. h a = copies ?r a"
      "dom h = dom (copies ?r) \<union> {next_copy ?r ..< next_copy ?r + length es}"
    using Cons.IH [of ?r] by blast
  show ?case
  proof (intro exI conjI)
    show "copy_entities (e # es) r = ([next_copy r ..< next_copy r + length (e # es)],
        r\<lparr> copies := h, next_copy := next_copy r + length (e # es) \<rparr>)"
      using h(1) by (simp only: copy_entities.simps u Let_def) simp
    show "map h [next_copy r ..< next_copy r + length (e # es)] = map Some (e # es)"
      unfolding u using h(2,3) by (simp del: upt_Suc)
  qed (use h(3,4) in auto)
next
  case Nil
  show ?case by (rule exI [of _ "copies r"]) simp
qed

text \<open>Every call is a push of a well-typed request.\<close>

lemma make_call_push: "\<exists>wake \<in> {wake_all, wake_one t}. make_call t call = push_request wake (requested call)"
  by (cases call) (auto simp: InsertDeviceList_def DeleteDeviceList_def ClearDeviceList_def UpdateDeviceList_def
      InsertChannelList_def DeleteChannelList_def ClearChannelList_def UpdateChannelList_def
      InsertExecutingInviteCmdList_def DeleteExecutingInviteCmdList_def ClearExecutingInviteCmdLists_def
      ClearExecutingInviteCmdList_def UpdateExecutingInviteCmdList_def)

lemma typed_requested: "typed (requested call)"
  by (cases call) (auto simp: list_all_iff)

lemma push_effect:
  assumes "push_request wake (ty, ent, es, no) r = Inr r'"
  shows "\<exists>h. started r \<and> r' = r\<lparr> copies := h, next_copy := next_copy r + length es,
        operations_queue := operations_queue r @ [\<lparr> operation_type = ty, entity_type = ent,
          entities = [next_copy r ..< next_copy r + length es], executing_invite_cmd_list_no = no \<rparr>],
        pc_of := wake (pc_of r) \<rparr>
     \<and> map h [next_copy r ..< next_copy r + length es] = map Some es \<and> (\<forall>a < next_copy r. h a = copies r a)
     \<and> dom h = dom (copies r) \<union> {next_copy r ..< next_copy r + length es}"
  using assms copy_entities_effect [of es r] by (auto simp: push_request_def Let_def split: if_splits)

section \<open>The invariant holds\<close>

lemma fetch_live: "set as \<subseteq> dom h \<Longrightarrow> fetch h as = Inr (map (\<lambda>a. the (h a)) as)"
  by (induction as) auto

text \<open>The data of the pending operations, as one predicate.\<close>

definition data_inv :: "restorer \<Rightarrow> bool" where
  "data_inv r \<longleftrightarrow> copies_inv r \<and> (\<forall>op \<in> set (pending r). typed (content r op))"

lemma data_frame:
  assumes "copies r' = copies r" "next_copy r' = next_copy r" "pending r' = pending r"
  shows "data_inv r' = data_inv r" "map (content r') (pending r') = map (content r) (pending r)"
  using assms by (simp_all add: data_inv_def copies_inv_def content_def)

lemma data_pop:
  assumes inv: "data_inv r" and p: "pending r = op # ops" "pending r' = ops"
    and c: "copies r' = copies r |` (- set (entities op))" "next_copy r' = next_copy r"
  shows "data_inv r'" "map (content r) (pending r) = content r op # map (content r') (pending r')"
    "fetch (copies r) (entities op) = Inr (map (\<lambda>a. the (copies r a)) (entities op))"
proof -
  have d: "set (entities op) \<inter> set (concat (map entities ops)) = {}" "distinct (concat (map entities ops))"
    "dom (copies r) = set (entities op) \<union> set (concat (map entities ops))"
    using inv p(1) by (auto simp: data_inv_def copies_inv_def)
  have same: "content r' q = content r q" if "q \<in> set ops" for q
  proof -
    have "\<forall>a \<in> set (entities q). a \<notin> set (entities op)" using that d(1) by auto
    then show ?thesis by (simp add: content_def c(1) request_of_def cong: map_cong)
  qed
  have "dom (copies r') = set (concat (map entities ops))" using d by (auto simp: c(1))
  then show "data_inv r'" using inv p d(2) same by (auto simp: data_inv_def copies_inv_def c)
  show "map (content r) (pending r) = content r op # map (content r') (pending r')" using p same by simp
  show "fetch (copies r) (entities op) = Inr (map (\<lambda>a. the (copies r a)) (entities op))"
    using d(3) by (intro fetch_live) blast
qed

lemma data_push:
  assumes inv: "data_inv r" and p: "pending r' = pending r @ [op]"
    and op: "op = \<lparr> operation_type = ty, entity_type = ent,
      entities = [next_copy r ..< next_copy r + length es], executing_invite_cmd_list_no = no \<rparr>"
    and c: "next_copy r' = next_copy r + length es" "map (copies r') [next_copy r ..< next_copy r + length es] = map Some es"
      "\<forall>a < next_copy r. copies r' a = copies r a"
      "dom (copies r') = dom (copies r) \<union> {next_copy r ..< next_copy r + length es}"
    and t: "typed (ty, ent, es, no)"
  shows "data_inv r'" "map (content r') (pending r') = map (content r) (pending r) @ [(ty, ent, es, no)]"
proof -
  have old: "a < next_copy r" if "a \<in> set (concat (map entities (pending r)))" for a
    using inv that by (auto simp: data_inv_def copies_inv_def)
  have same: "content r' q = content r q" if "q \<in> set (pending r)" for q
  proof -
    have "\<forall>a \<in> set (entities q). copies r' a = copies r a" using that old c(3) by auto
    then show ?thesis by (simp add: content_def cong: map_cong)
  qed
  have "map (\<lambda>a. the (copies r' a)) [next_copy r ..< next_copy r + length es] = map the (map (copies r') [next_copy r ..< next_copy r + length es])"
    by simp
  also have "\<dots> = es" unfolding c(2) by (simp add: comp_def)
  finally have new: "content r' op = (ty, ent, es, no)" by (simp add: content_def request_of_def op)
  show "map (content r') (pending r') = map (content r) (pending r) @ [(ty, ent, es, no)]"
    using same new by (simp add: p)
  let ?A = "concat (map entities (pending r))" and ?new = "[next_copy r ..< next_copy r + length es]"
  have A: "concat (map entities (pending r')) = ?A @ ?new" by (simp add: p op)
  have i: "distinct ?A" "dom (copies r) = set ?A" using inv by (simp_all add: data_inv_def copies_inv_def)
  have "set ?A \<inter> set ?new = {}" using old by force
  then have "distinct (?A @ ?new)" using i(1) by (simp only: distinct_append distinct_upt simp_thms)
  moreover have "dom (copies r') = set (?A @ ?new)" by (simp only: c(4) i(2) set_append set_upt)
  moreover have "\<forall>a \<in> set (?A @ ?new). a < next_copy r'"
    using old by (auto simp only: c(1) set_append set_upt atLeastLessThan_iff Un_iff intro: trans_less_add1)
  moreover have "\<forall>q \<in> set (pending r'). typed (content r' q)"
    using inv same new t by (simp add: p data_inv_def)
  ultimately show "data_inv r'" unfolding data_inv_def copies_inv_def A by (simp only: simp_thms)
qed

text \<open>A step keeps the invariant, and the operations that are pending change as its label says.\<close>

definition keeps :: "restorer \<Rightarrow> label \<Rightarrow> restorer \<Rightarrow> bool" where
  "keeps r l r' \<longleftrightarrow> rinv r' \<and> map (content r) (pending r) @ pushed [l] = ran [l] @ map (content r') (pending r')"

lemma rinv_alt:
  "rinv r \<longleftrightarrow> background_threads_num r \<le> 1 \<and> (inited r \<longleftrightarrow> redis_client r \<noteq> None)
     \<and> (inited r \<longrightarrow> background_threads_num r = 1)
     \<and> (unstarted r \<and> queue_mutex r = None \<or> running_inv r) \<and> data_inv r"
  by (auto simp: rinv_def data_inv_def)

lemma keepsI:
  assumes "rinv r" "copies r' = copies r" "next_copy r' = next_copy r" "pending r' = pending r"
    "background_threads_num r' = background_threads_num r" "inited r' = inited r" "redis_client r' = redis_client r"
    "unstarted r' \<and> queue_mutex r' = None \<or> running_inv r'"
  shows "keeps r Silent r'"
  using assms data_frame [of r' r] by (simp add: keeps_def rinv_alt)

lemma thread_quiet:
  assumes st: "thread_step net 0 r w = Some (Inr (r', w'))" and no: "\<forall>op. pc_of r 0 \<noteq> Running op" and run: "running_inv r"
  shows "copies r' = copies r" "next_copy r' = next_copy r" "pending r' = pending r"
    "background_threads_num r' = background_threads_num r" "inited r' = inited r" "redis_client r' = redis_client r"
    "running_inv r'"
proof -
  note defs = thread_step_def goto_def lock_def unlock_def CountDown_def
  have "copies r' = copies r \<and> next_copy r' = next_copy r \<and> background_threads_num r' = background_threads_num r
      \<and> inited r' = inited r \<and> redis_client r' = redis_client r \<and> pending r' = pending r"
  proof (cases "pc_of r 0")
    case Holding
    then show ?thesis using st by (cases "operations_queue r") (auto simp: defs pending_def split: if_splits)
  next
    case Exiting
    then show ?thesis using st by (cases "exit_latch r") (auto simp: defs pending_def)
  qed (use st no in \<open>auto simp: defs pending_def split: if_splits\<close>)
  then show "copies r' = copies r" "next_copy r' = next_copy r" "background_threads_num r' = background_threads_num r"
    "inited r' = inited r" "redis_client r' = redis_client r" "pending r' = pending r" by simp_all
  show "running_inv r'"
  proof (cases "pc_of r 0")
    case Looping
    then have r': "r' = goto 0 (if force_thread_exit r then Exiting else Locking) r"
      using st by (simp add: defs split: if_splits)
    show ?thesis using run Looping by (cases "owner r"; cases "force_thread_exit r")
      (simp_all add: r' running_inv_def flags_inv_def goto_def unlock_def split: if_splits)
  next
    case Locking
    then have r': "r' = goto 0 Holding (r\<lparr> queue_mutex := Some 0 \<rparr>)"
      using st by (simp add: defs split: if_splits)
    show ?thesis using run Locking by (cases "owner r")
      (simp_all add: r' running_inv_def flags_inv_def goto_def unlock_def split: if_splits)
  next
    case Holding
    then have r': "r' = (if force_thread_exit r then goto 0 Exiting (unlock r)
        else case operations_queue r of [] \<Rightarrow> goto 0 Falling r
          | op # ops \<Rightarrow> goto 0 (Running op) (unlock (r\<lparr> operations_queue := ops \<rparr>)))"
      using st by (simp add: thread_step_def)
    show ?thesis using run Holding by (cases "owner r"; cases "force_thread_exit r"; cases "operations_queue r")
      (simp_all add: r' running_inv_def flags_inv_def goto_def unlock_def split: if_splits)
  next
    case Falling
    then have r': "r' = goto 0 Sleeping (unlock r)"
      using st by (simp add: defs split: if_splits)
    show ?thesis using run Falling by (cases "owner r")
      (simp_all add: r' running_inv_def flags_inv_def goto_def unlock_def split: if_splits)
  next
    case Woken
    then have r': "r' = goto 0 Holding (r\<lparr> queue_mutex := Some 0 \<rparr>)"
      using st by (simp add: defs split: if_splits)
    show ?thesis using run Woken by (cases "owner r")
      (simp_all add: r' running_inv_def flags_inv_def goto_def unlock_def split: if_splits)
  next
    case Exiting
    then obtain n where r': "exit_latch r = Some n" "r' = goto 0 Finished (r\<lparr> exit_latch := Some (n - 1) \<rparr>)"
      using st by (cases "exit_latch r") (simp_all add: thread_step_def CountDown_def)
    show ?thesis using run Exiting r'(1) by (cases "owner r")
      (simp_all add: r'(2) running_inv_def flags_inv_def goto_def split: if_splits)
  qed (use st no in \<open>simp_all add: thread_step_def\<close>)
qed

lemma thread_keeps:
  assumes inv: "rinv r" and st: "thread_step net t r w = Some (Inr (r', w'))"
  shows "keeps r (running r t) r'"
proof -
  have "pc_of r t \<noteq> NotCreated" using st by (auto simp: thread_step_def)
  then have run: "running_inv r" and t: "t = 0"
    using inv by (auto simp: rinv_alt unstarted_def running_inv_def fun_eq_iff)
  show ?thesis
  proof (cases "\<exists>op. pc_of r 0 = Running op")
    case True
    then obtain op where op: "pc_of r 0 = Running op" by blast
    have e: "operations_queue r = ops \<Longrightarrow> pending r = op # ops" for ops by (simp add: pending_def op)
    obtain c where c: "managers r" "redis_client r = Some c"
      using run op inv by (cases "redis_client r") (auto simp: rinv_alt running_inv_def flags_inv_def split: owner_pc.splits if_splits)
    have "process net op r w \<noteq> Inl f" for f using st op t by (cases "process net op r w") (auto simp: thread_step_def)
    then obtain r1 where p: "process net op r w = Inr (r1, w')" "r' = goto 0 Looping r1"
      using st op t by (cases "process net op r w") (auto simp: thread_step_def)
    then obtain c' where r1: "r1 = r\<lparr> redis_client := Some c', copies := copies r |` (- set (entities op)) \<rparr>"
      using c by (auto simp: process_def res_simps split: if_splits)
    have pr: "pending r' = operations_queue r" by (simp add: pending_def p(2) r1 goto_def)
    have cr: "copies r' = copies r |` (- set (entities op))" "next_copy r' = next_copy r"
      by (simp_all add: p(2) r1 goto_def)
    have d: "data_inv r" using inv by (simp add: rinv_alt)
    note dp = data_pop [OF d e [OF refl] pr cr]
    have "running_inv r'" using run op
      by (auto simp: running_inv_def flags_inv_def p(2) r1 goto_def split: owner_pc.splits if_splits)
    moreover have "running r t = Ran (content r op)" by (simp add: running_def op t content_def)
    ultimately show ?thesis using inv dp c
      by (simp add: keeps_def rinv_alt) (simp add: p(2) r1 goto_def)
  next
    case False
    then have no: "\<forall>op. pc_of r 0 \<noteq> Running op" by blast
    then have "running r t = Silent" by (simp add: running_def t split: thread_pc.splits)
    then show ?thesis using keepsI [OF inv] thread_quiet [OF st [unfolded t] no run] by simp
  qed
qed

lemma wake_zero:
  assumes "\<forall>u. 0 < u \<longrightarrow> pcs u \<noteq> Sleeping" "wake \<in> {wake_all, wake_one t}" "(\<exists>u. pcs u = Sleeping) \<longrightarrow> pcs t = Sleeping"
  shows "wake pcs = (if pcs 0 = Sleeping then pcs(0 := Woken) else pcs)"
proof
  fix u
  have "wake pcs u = (if pcs 0 = Sleeping then pcs(0 := Woken) else pcs) u" if "t = 0 \<or> pcs 0 \<noteq> Sleeping"
    using assms(1,2) that by (cases "u = 0"; cases "pcs u = Sleeping"; cases "pcs t = Sleeping"; cases "t = 0")
      (auto simp: wake_all_def wake_one_def)
  moreover have "t = 0 \<or> pcs 0 \<noteq> Sleeping" using assms(1,3) by (cases t) auto
  ultimately show "wake pcs u = (if pcs 0 = Sleeping then pcs(0 := Woken) else pcs) u" by blast
qed

lemma call_keeps:
  assumes inv: "rinv r" and mx: "queue_mutex r = None" "(\<exists>u. pc_of r u = Sleeping) \<longrightarrow> pc_of r t = Sleeping"
    and call: "make_call t call r = Inr r'"
  shows "keeps r (Pushed (requested call)) r'"
proof -
  obtain ty ent es no where q: "requested call = (ty, ent, es, no)" by (cases "requested call")
  obtain wake where wake: "wake \<in> {wake_all, wake_one t}" "make_call t call = push_request wake (requested call)"
    using make_call_push [of t call] by (elim bexE)
  have push: "push_request wake (ty, ent, es, no) r = Inr r'" using call by (simp only: wake(2) q)
  let ?op = "\<lparr> operation_type = ty, entity_type = ent, entities = [next_copy r ..< next_copy r + length es],
    executing_invite_cmd_list_no = no \<rparr>"
  obtain h where h: "started r" "r' = r\<lparr> copies := h, next_copy := next_copy r + length es,
        operations_queue := operations_queue r @ [?op], pc_of := wake (pc_of r) \<rparr>"
    "map h [next_copy r ..< next_copy r + length es] = map Some es" "\<forall>a < next_copy r. h a = copies r a"
    "dom h = dom (copies r) \<union> {next_copy r ..< next_copy r + length es}"
    using push_effect [OF push] by (elim exE conjE)
  have run: "running_inv r" using inv h(1) by (auto simp: rinv_alt unstarted_def)
  have z: "\<forall>u. 0 < u \<longrightarrow> pc_of r u \<noteq> Sleeping" using run by (simp add: running_inv_def)
  then have pc: "wake (pc_of r) = (if pc_of r 0 = Sleeping then (pc_of r)(0 := Woken) else pc_of r)"
    using wake(1) mx(2) by (rule wake_zero)
  have "pending r' = pending r @ [?op]" by (simp add: h(2) pending_def pc)
  moreover have "data_inv r" "typed (ty, ent, es, no)" using inv typed_requested [of call] q by (simp_all add: rinv_alt)
  ultimately have d: "data_inv r'" "map (content r') (pending r') = map (content r) (pending r) @ [(ty, ent, es, no)]"
    using data_push [of r r' ?op ty ent es no] h by simp_all
  have "running_inv r'" using run mx(1) h(1)
    by (cases "owner r"; cases "pc_of r 0") (simp_all add: h(2) running_inv_def flags_inv_def pc split: if_splits)
  then show ?thesis using inv d by (simp add: keeps_def rinv_alt q) (simp add: h(2))
qed

lemma start_keeps:
  assumes inv: "rinv r" and o: "owner r = Outside" "length oks = background_threads_num r"
    and st: "Start_threads oks r = (ret, r')" and un: "ret = None \<longrightarrow> unstarted r"
  shows "keeps r Silent r' \<and> (ret \<noteq> None \<longrightarrow> unstarted r' = unstarted r)"
proof (cases "\<not> inited r \<or> started r")
  case True
  then have "r' = r" using st by (simp add: Start_threads_def split: if_splits)
  then show ?thesis using inv by (simp add: keeps_def)
next
  case False
  then have i: "inited r" "\<not> started r" by simp_all
  then have "length oks = 1" using inv o(2) by (simp add: rinv_alt)
  then obtain ok where oks: "oks = [ok]" by (cases oks) auto
  show ?thesis
  proof (cases ok)
    case True
    have r': "ret = None" "r' = (create_threads [True] (r\<lparr> managers := True \<rparr>))\<lparr> owner := Starting \<rparr>"
      using st i oks True by (simp_all add: Start_threads_def Let_def)
    have u: "unstarted r" using un r'(1) by blast
    then have "queue_mutex r = None" using inv by (simp add: rinv_alt unstarted_def running_inv_def)
    then have "keeps r Silent r'" using u i inv
      by (intro keepsI) (simp_all add: r' pending_def unstarted_def running_inv_def flags_inv_def)
    then show ?thesis using r' by simp
  next
    case False
    then have st': "restorer_threads r = [] \<Longrightarrow> ret \<noteq> None \<and> r' = r\<lparr> managers := True \<rparr>"
        "restorer_threads r \<noteq> [] \<Longrightarrow> ret = None"
      using st i oks by (auto simp: Start_threads_def Let_def split: if_splits)
    have e: "restorer_threads r = []" using st'(2) un by (cases "restorer_threads r") (simp_all add: unstarted_def)
    have "unstarted r \<and> queue_mutex r = None" using inv e by (simp add: rinv_alt running_inv_def)
    then have "keeps r Silent (r\<lparr> managers := True \<rparr>)" using inv
      by (intro keepsI) (simp_all add: pending_def unstarted_def)
    then show ?thesis using st'(1) [OF e] by (simp add: unstarted_def)
  qed
qed

lemma init_keeps:
  assumes inv: "rinv r" and o: "owner r = Outside"
  shows "keeps r Silent (snd (ddr_Init mode n conn r)) \<and> unstarted (snd (ddr_Init mode n conn r)) = unstarted r"
proof (cases "inited r")
  case True
  then show ?thesis using inv by (simp add: ddr_Init_def keeps_def)
next
  case False
  then have "\<not> started r" using inv o by (auto simp: rinv_alt unstarted_def running_inv_def flags_inv_def)
  moreover have "data_inv (snd (ddr_Init mode n conn r)) = data_inv r"
    "map (content (snd (ddr_Init mode n conn r))) (pending (snd (ddr_Init mode n conn r))) = map (content r) (pending r)"
    by (rule data_frame; simp add: ddr_Init_def pending_def Let_def split: option.splits)+
  ultimately show ?thesis using inv o False
    by (cases conn) (simp_all add: ddr_Init_def keeps_def rinv_alt Let_def unstarted_def running_inv_def flags_inv_def)
qed

lemma uninit_keeps:
  assumes inv: "rinv r" and o: "owner r = Outside" "\<not> started r"
  shows "keeps r Silent (snd (ddr_Uninit r)) \<and> unstarted (snd (ddr_Uninit r)) = unstarted r"
proof -
  have "data_inv (snd (ddr_Uninit r)) = data_inv r"
    "map (content (snd (ddr_Uninit r))) (pending (snd (ddr_Uninit r))) = map (content r) (pending r)"
    by (rule data_frame; simp add: ddr_Uninit_def pending_def)+
  then show ?thesis using inv o
    by (simp add: ddr_Uninit_def keeps_def rinv_alt unstarted_def running_inv_def flags_inv_def)
qed

lemma latch_keeps:
  assumes inv: "rinv r" and o: "owner r = Starting"
  shows "keeps r Silent (snd (Start_latch r))"
proof (rule keepsI [OF inv])
  have "running_inv r" using inv o by (simp add: rinv_alt unstarted_def)
  then show "unstarted (snd (Start_latch r)) \<and> queue_mutex (snd (Start_latch r)) = None \<or> running_inv (snd (Start_latch r))"
    using o by (simp add: Start_latch_def running_inv_def flags_inv_def)
qed (simp_all add: Start_latch_def pending_def)

lemma flag_keeps:
  assumes inv: "rinv r" and o: "owner r = Outside"
  shows "keeps r Silent (snd (Stop_flag r)) \<and> (unstarted r \<longrightarrow> unstarted (snd (Stop_flag r)))"
proof (cases "started r")
  case True
  then have "running_inv r" using inv by (simp add: rinv_alt unstarted_def)
  then have "keeps r Silent (snd (Stop_flag r))" using True o inv
    by (intro keepsI) (simp_all add: Stop_flag_def pending_def running_inv_def flags_inv_def)
  then show ?thesis using True by (simp add: unstarted_def)
next
  case False
  then show ?thesis using inv by (simp add: Stop_flag_def keeps_def)
qed

lemma running_wake:
  assumes "running_inv r"
  shows "wake_all (pc_of r) = (if pc_of r 0 = Sleeping then (pc_of r)(0 := Woken) else pc_of r)"
proof (rule wake_zero [where t = 0])
  show z: "\<forall>u. 0 < u \<longrightarrow> pc_of r u \<noteq> Sleeping" using assms by (simp add: running_inv_def)
  then show "(\<exists>u. pc_of r u = Sleeping) \<longrightarrow> pc_of r 0 = Sleeping" by (metis gr0I)
qed simp

lemma signal_keeps:
  assumes inv: "rinv r" and o: "owner r = Signalling"
  shows "keeps r Silent (Stop_signal r)"
proof -
  have run: "running_inv r" using inv o by (simp add: rinv_alt unstarted_def)
  show ?thesis using run o inv
    by (intro keepsI; cases "pc_of r 0 = Sleeping")
      (simp_all add: Stop_signal_def pending_def running_wake [OF run] running_inv_def flags_inv_def)
qed

lemma wait_keeps:
  assumes inv: "rinv r" and o: "owner r = Waiting" and st: "Stop_wait r = Some (Inr (ret, r'))"
  shows "keeps r Silent r'"
proof -
  have run: "running_inv r" using inv o by (simp add: rinv_alt unstarted_def)
  have "exit_latch r = Some 0" "r' = r\<lparr> exit_latch := None, managers := False, started := False, owner := Outside \<rparr>"
    using st by (auto simp: Stop_wait_def split: option.splits if_splits)
  then show ?thesis using run o inv
    by (intro keepsI) (simp_all add: pending_def running_inv_def flags_inv_def split: if_splits)
qed

lemma wake_keeps:
  assumes inv: "rinv r" and t: "pc_of r t = Sleeping"
  shows "keeps r Silent (goto t Woken r)"
proof -
  have run: "running_inv r" using inv t by (auto simp: rinv_alt unstarted_def)
  then have "t = 0" using t by (cases t) (auto simp: running_inv_def)
  then show ?thesis using t inv run
    by (intro keepsI; cases "owner r") (simp_all add: goto_def pending_def running_inv_def flags_inv_def split: if_splits)
qed

lemma ask_keeps:
  assumes inv: "rinv r" and ask: "asking f r w = Inr (x, r', w')"
  shows "keeps r Silent r'"
proof -
  obtain c where r': "r' = r\<lparr> redis_client := Some c \<rparr>" "started r" "redis_client r \<noteq> None"
    using ask by (auto simp: asking_def res_simps split: if_splits option.splits)
  have "data_inv r' = data_inv r" "map (content r') (pending r') = map (content r) (pending r)"
    by (rule data_frame; simp add: r'(1) pending_def)+
  moreover have "running_inv r" using inv r'(2) by (simp add: rinv_alt unstarted_def)
  then have "running_inv r'" by (cases "owner r") (simp_all add: r'(1) running_inv_def flags_inv_def)
  ultimately show ?thesis using inv r'(3)
    by (simp add: keeps_def rinv_alt) (simp add: r'(1))
qed

text \<open>Every state that is reached with at most one \<open>Start\<close> satisfies the invariant, and the
  operations that were asked for are those that were run and those that are pending.\<close>

definition starts :: "label list \<Rightarrow> nat" where
  "starts ls = length (filter (\<lambda>l. l = Begun) ls)"

lemma rstep_keeps:
  assumes "rstep net s l s'" "rinv (fst s)" "l = Begun \<longrightarrow> unstarted (fst s)"
  shows "keeps (fst s) (if l = Begun then Silent else l) (fst s')
    \<and> (l \<noteq> Begun \<longrightarrow> unstarted (fst s) \<longrightarrow> unstarted (fst s'))"
  using assms
proof (cases rule: rstep.cases)
  case (Thread t r w r' w')
  then have "\<not> unstarted r" by (auto simp: unstarted_def thread_step_def)
  moreover have "running r t \<noteq> Begun" by (simp add: running_def split: thread_pc.splits)
  ultimately show ?thesis using Thread thread_keeps [OF _ Thread(4)] assms(2) by simp
next
  case (Call r t call r' w)
  have "started r"
    using make_call_push [of t call] Call(6) by (cases "requested call") (auto simp: push_request_def split: if_splits)
  then show ?thesis using Call call_keeps [OF _ Call(4-6)] assms(2) by (simp add: unstarted_def)
next
  case (Wake r t w)
  then have "\<not> unstarted r" by (auto simp: unstarted_def)
  then show ?thesis using Wake wake_keeps [OF _ Wake(4)] assms(2) by simp
next
  case (Ask f r w r' w')
  then have "started r" by (auto simp: asking_def split: if_splits)
  then show ?thesis using Ask ask_keeps [OF _ Ask(4)] assms(2) by (simp add: unstarted_def)
next
  case (Init r mode n conn ret r' w w')
  then show ?thesis using init_keeps [of r mode n conn] assms(2) by simp
next
  case (Uninit r ret r' w)
  then show ?thesis using uninit_keeps [of r] assms(2) by simp
next
  case (Start1 r oks ret r' w)
  then show ?thesis using start_keeps [of r oks ret r'] assms(2,3) by (auto split: if_splits)
next
  case (Start2 r ret r' w)
  then show ?thesis using latch_keeps [of r] assms(2) by (simp add: unstarted_def)
next
  case (Stop1 r ret r' w)
  then show ?thesis using flag_keeps [of r] assms(2) by simp
next
  case (Stop2 r w)
  then show ?thesis using signal_keeps [of r] assms(2) by (simp add: unstarted_def)
next
  case (Stop3 r ret r' w)
  then show ?thesis using wait_keeps [of r ret r'] assms(2) by (simp add: unstarted_def)
qed

lemma rtrace_inv:
  "rtrace net s ls s' \<Longrightarrow> fst s = DownDataRestorer \<Longrightarrow> starts ls \<le> 1 \<Longrightarrow>
   rinv (fst s') \<and> pushed ls = ran ls @ map (content (fst s')) (pending (fst s')) \<and> (starts ls = 0 \<longrightarrow> unstarted (fst s'))"
proof (induction rule: rtrace.induct)
  case (Here s)
  then show ?case using rinv_new by (simp add: pending_def unstarted_def DownDataRestorer_def)
next
  case (Step s ls s' l s'')
  have c: "starts (ls @ [l]) = starts ls + (if l = Begun then 1 else 0)" by (simp add: starts_def)
  then have IH: "rinv (fst s')" "pushed ls = ran ls @ map (content (fst s')) (pending (fst s'))"
    "starts ls = 0 \<Longrightarrow> unstarted (fst s')" using Step by auto
  have "l = Begun \<longrightarrow> unstarted (fst s')" using c Step.prems(2) IH(3) by auto
  from rstep_keeps [OF Step.hyps(2) IH(1) this] show ?case
    using IH c by (cases l) (auto simp: keeps_def)
qed

section \<open>The queue is drained\<close>

text \<open>Thread 0 alone, for a number of steps or until it cannot move.\<close>

fun drive :: "'w net \<Rightarrow> nat \<Rightarrow> restorer \<Rightarrow> 'w \<Rightarrow> (restorer \<times> 'w) res" where
  "drive net 0 r w = Inr (r, w)"
| "drive net (Suc k) r w =
     (case thread_step net 0 r w of
        None \<Rightarrow> Inr (r, w)
      | Some m \<Rightarrow> res_bind m (\<lambda>(r, w). drive net k r w))"

text \<open>The operations one after the other, without threads.\<close>

fun run_requests :: "'w net \<Rightarrow> RedisMode \<Rightarrow> int \<Rightarrow> request list \<Rightarrow> client \<Rightarrow> 'w \<Rightarrow> (client \<times> 'w) res" where
  "run_requests net mode n [] c w = Inr (c, w)"
| "run_requests net mode n (q # qs) c w =
     res_bind (run_operation net mode n q c w) (\<lambda>(_, c, w). run_requests net mode n qs c w)"

text \<open>A started restorer whose pending operations run, to the end \<open>(c', w')\<close>.\<close>

definition draining :: "'w net \<Rightarrow> client \<Rightarrow> 'w \<Rightarrow> restorer \<Rightarrow> 'w \<Rightarrow> bool" where
  "draining net c' w' r w \<longleftrightarrow> rinv r \<and> started r \<and> owner r = Outside
     \<and> (\<exists>c. redis_client r = Some c
        \<and> run_requests net (redis_mode r) (worker_thread_num r) (map (content r) (pending r)) c w = Inr (c', w'))"

fun rank :: "thread_pc \<Rightarrow> nat" where
  "rank Looping = 6"
| "rank Locking = 5"
| "rank Woken = 5"
| "rank Holding = 4"
| "rank Falling = 3"
| "rank (Running op) = 3"
| "rank _ = 0"

definition distance :: "restorer \<Rightarrow> nat" where
  "distance r = 8 * length (pending r) + rank (pc_of r 0)"

lemma draining_running:
  assumes "draining net c' w' r w"
  shows "running_inv r" "managers r" "\<not> force_thread_exit r" "pc_of r 0 \<notin> {NotCreated, Exiting, Finished}"
proof -
  have "rinv r" "started r" using assms by (simp_all add: draining_def)
  then show run: "running_inv r" by (simp add: rinv_alt unstarted_def)
  show "managers r" "\<not> force_thread_exit r" "pc_of r 0 \<notin> {NotCreated, Exiting, Finished}"
    using run assms by (simp_all add: draining_def running_inv_def flags_inv_def)
qed

lemma process_runs:
  assumes d: "draining net c' w' r w" and op: "pc_of r 0 = Running op"
  shows "\<exists>r1 w1. thread_step net 0 r w = Some (Inr (r1, w1)) \<and> draining net c' w' r1 w1 \<and> distance r1 < distance r"
proof -
  note dr = draining_running [OF d]
  obtain c where c: "redis_client r = Some c"
    "run_requests net (redis_mode r) (worker_thread_num r) (map (content r) (pending r)) c w = Inr (c', w')"
    and inv: "rinv r" "started r" "owner r = Outside" using d by (auto simp: draining_def)
  have p: "pending r = op # operations_queue r" by (simp add: pending_def op)
  obtain ret c1 w1 where run: "run_operation net (redis_mode r) (worker_thread_num r) (content r op) c w = Inr (ret, c1, w1)"
    "run_requests net (redis_mode r) (worker_thread_num r) (map (content r) (operations_queue r)) c1 w1 = Inr (c', w')"
    using c(2) by (auto simp: p res_simps)
  let ?r = "r\<lparr> redis_client := Some c1, copies := copies r |` (- set (entities op)) \<rparr>"
  have pr: "pending (goto 0 Looping ?r) = operations_queue r" by (simp add: pending_def goto_def)
  have di: "data_inv r" using inv(1) by (simp add: rinv_alt)
  note pop = data_pop [OF di p pr]
  have "process net op r w = Inr (?r, w1)"
    using dr(2) c(1) run(1) pop(3) by (simp add: process_def content_def goto_def)
  then have st: "thread_step net 0 r w = Some (Inr (goto 0 Looping ?r, w1))" by (simp add: thread_step_def op)
  have "keeps r (running r 0) (goto 0 Looping ?r)" by (rule thread_keeps [OF inv(1) st])
  then have "rinv (goto 0 Looping ?r)" by (simp add: keeps_def)
  moreover have m: "map (content (goto 0 Looping ?r)) (pending (goto 0 Looping ?r)) = map (content r) (operations_queue r)"
    using pop(2) by (simp add: p pr) (simp add: goto_def)
  ultimately have "draining net c' w' (goto 0 Looping ?r) w1"
    unfolding draining_def m using inv run(2) by (simp add: goto_def)
  moreover have "distance (goto 0 Looping ?r) < distance r"
    by (simp add: distance_def p pr) (simp add: goto_def op)
  ultimately show ?thesis using st by blast
qed

lemma draining_step:
  assumes d: "draining net c' w' r w" and pc: "pc_of r 0 \<noteq> Sleeping"
  shows "\<exists>r1 w1. thread_step net 0 r w = Some (Inr (r1, w1)) \<and> draining net c' w' r1 w1 \<and> distance r1 < distance r"
proof (cases "\<exists>op. pc_of r 0 = Running op")
  case True
  then show ?thesis using process_runs [OF d] by blast
next
  case False
  then have no: "\<forall>op. pc_of r 0 \<noteq> Running op" by blast
  note dr = draining_running [OF d]
  have inv: "rinv r" "started r" "owner r = Outside" using d by (simp_all add: draining_def)
  have "\<exists>r1. thread_step net 0 r w = Some (Inr (r1, w)) \<and> started r1 \<and> owner r1 = Outside \<and> redis_mode r1 = redis_mode r
      \<and> worker_thread_num r1 = worker_thread_num r \<and> rank (pc_of r1 0) < rank (pc_of r 0)"
  proof (cases "pc_of r 0")
    case Holding
    then show ?thesis using dr(3) inv
      by (cases "operations_queue r") (simp_all add: thread_step_def goto_def unlock_def)
  qed (use dr(1,3,4) inv no pc in \<open>simp_all add: thread_step_def goto_def unlock_def lock_def running_inv_def\<close>)
  then obtain r1 where r1: "thread_step net 0 r w = Some (Inr (r1, w))" "started r1" "owner r1 = Outside"
    "redis_mode r1 = redis_mode r" "worker_thread_num r1 = worker_thread_num r" "rank (pc_of r1 0) < rank (pc_of r 0)"
    by (elim exE conjE)
  note q = thread_quiet [OF r1(1) no dr(1)]
  have "rinv r1" using inv(1) q data_frame [of r1 r] by (simp add: rinv_alt)
  moreover have m: "map (content r1) (pending r1) = map (content r) (pending r)" using q by (intro data_frame) simp_all
  ultimately have "draining net c' w' r1 w" using d unfolding draining_def m r1(4,5) q(6) using r1(2,3) by blast
  moreover have "distance r1 < distance r" using r1(6) q(3) by (simp add: distance_def)
  ultimately show ?thesis using r1(1) by blast
qed

lemma drained:
  assumes "draining net c' w' r w"
  shows "\<exists>k r'. drive net k r w = Inr (r', w') \<and> draining net c' w' r' w' \<and> redis_client r' = Some c'
    \<and> pc_of r' 0 = Sleeping \<and> pending r' = [] \<and> copies r' = Map.empty"
  using assms
proof (induction "distance r" arbitrary: r w rule: less_induct)
  case less
  show ?case
  proof (cases "pc_of r 0 = Sleeping")
    case True
    then have p: "pending r = []" using draining_running(1) [OF less.prems] by (simp add: pending_def running_inv_def)
    have "copies_inv r" using less.prems by (simp add: draining_def rinv_def)
    then have "copies r = Map.empty" by (simp add: p copies_inv_def)
    then show ?thesis using True p less.prems
      by (intro exI [of _ 0] exI [of _ r]) (auto simp: draining_def)
  next
    case False
    obtain r1 w1 where s: "thread_step net 0 r w = Some (Inr (r1, w1))" "draining net c' w' r1 w1" "distance r1 < distance r"
      using draining_step [OF less.prems False] by (elim exE conjE)
    obtain k r' where k: "drive net k r1 w1 = Inr (r', w') \<and> draining net c' w' r' w' \<and> redis_client r' = Some c'
        \<and> pc_of r' 0 = Sleeping \<and> pending r' = [] \<and> copies r' = Map.empty"
      using less.hyps [OF s(3,2)] by (elim exE)
    then show ?thesis using s(1) by (intro exI [of _ "Suc k"] exI [of _ r']) simp
  qed
qed

section \<open>Faults\<close>

lemma thread_fault:
  assumes inv: "rinv r" and f: "thread_step net t r w = Some (Inl f)"
  shows "\<exists>op c. pc_of r t = Running op \<and> redis_client r = Some c \<and> typed (content r op)
    \<and> run_operation net (redis_mode r) (worker_thread_num r) (content r op) c w = Inl f"
proof -
  have "pc_of r t \<noteq> NotCreated" using f by (auto simp: thread_step_def)
  then have run: "running_inv r" and t: "t = 0"
    using inv by (auto simp: rinv_alt unstarted_def running_inv_def fun_eq_iff)
  have no: "\<exists>op. pc_of r 0 = Running op"
  proof (cases "pc_of r 0")
    case Exiting
    then have "exit_latch r \<noteq> None" using run by (cases "owner r") (simp_all add: running_inv_def flags_inv_def split: if_splits)
    then show ?thesis using f t Exiting by (auto simp: thread_step_def CountDown_def)
  qed (use f t in \<open>simp_all add: thread_step_def lock_def split: if_splits\<close>)
  then obtain op where op: "pc_of r 0 = Running op" by blast
  have m: "managers r" "inited r" using run op by (cases "owner r"; simp add: running_inv_def flags_inv_def split: if_splits)+
  then obtain c where c: "redis_client r = Some c" using inv by (auto simp: rinv_alt)
  have p: "pending r = op # operations_queue r" by (simp add: pending_def op)
  have "set (entities op) \<subseteq> dom (copies r)" "typed (content r op)"
    using inv by (auto simp: rinv_def copies_inv_def p)
  then show ?thesis using f t op m c fetch_live [of "entities op" "copies r"]
    by (cases "run_operation net (redis_mode r) (worker_thread_num r) (content r op) c w")
      (auto simp: thread_step_def process_def content_def)
qed

end
