(* ===== verification/Restorer_Spec.thy ===== *)
theory Restorer_Spec
  imports Restorer_Threads Manager_Props
begin

text \<open>
  What the operations of a \<open>DownDataRestorer\<close> mean: changes of a store of devices, channels and
  the commands of each worker.  An operation that runs through the managers makes the change
  of the store on the server.
\<close>

type_synonym store = "(string \<rightharpoonup> device) \<times> (string \<rightharpoonup> channel) \<times> (int \<Rightarrow> string \<rightharpoonup> executing_invite_cmd)"

definition store_at :: "int \<Rightarrow> store \<Rightarrow> db \<Rightarrow> bool" where
  "store_at n st db = (case st of (D, C, E) \<Rightarrow>
     devices_at D db \<and> channels_at C db \<and> (\<forall>no. worker_ok n no \<longrightarrow> cmds_at no (E no) db))"

text \<open>The change a call asks for; a call for a worker that does not exist is ignored.\<close>

fun apply_call :: "int \<Rightarrow> call \<Rightarrow> store \<Rightarrow> store" where
  "apply_call n (CInsertDevice d) (D, C, E) = (D(GetDeviceId d \<mapsto> d), C, E)"
| "apply_call n (CDeleteDevice d) (D, C, E) = (D(GetDeviceId d := None), C, E)"
| "apply_call n CClearDevices (D, C, E) = (Map.empty, C, E)"
| "apply_call n (CUpdateDevices ds) (D, C, E) = (put_all GetDeviceId ds Map.empty, C, E)"
| "apply_call n (CInsertChannel x) (D, C, E) = (D, C(GetChannelId x \<mapsto> x), E)"
| "apply_call n (CDeleteChannel x) (D, C, E) = (D, C(GetChannelId x := None), E)"
| "apply_call n CClearChannels (D, C, E) = (D, Map.empty, E)"
| "apply_call n (CUpdateChannels xs) (D, C, E) = (D, put_all GetChannelId xs Map.empty, E)"
| "apply_call n (CInsertCmd no x) (D, C, E) = (D, C, if worker_ok n no then E(no := (E no)(GetId x \<mapsto> x)) else E)"
| "apply_call n (CDeleteCmd no x) (D, C, E) = (D, C, if worker_ok n no then E(no := (E no)(GetId x := None)) else E)"
| "apply_call n CClearAllCmds (D, C, E) = (D, C, \<lambda>_. Map.empty)"
| "apply_call n (CClearCmds no) (D, C, E) =
     (D, C, if no = -1 then (\<lambda>_. Map.empty) else if worker_ok n no then E(no := Map.empty) else E)"
| "apply_call n (CUpdateCmds no xs) (D, C, E) =
     (D, C, if worker_ok n no then E(no := put_all GetId xs Map.empty) else E)"

text \<open>A call that fits the server: entities that can be stored, and, where the identifiers are
  listed, a set that fits a reply.\<close>

fun call_ok :: "int \<Rightarrow> call \<Rightarrow> store \<Rightarrow> bool" where
  "call_ok n (CInsertDevice d) (D, C, E) = device_storable d"
| "call_ok n (CDeleteDevice d) (D, C, E) = device_storable d"
| "call_ok n CClearDevices (D, C, E) = map_small D"
| "call_ok n (CUpdateDevices ds) (D, C, E) \<longleftrightarrow> map_small D \<and> (\<forall>d \<in> set ds. device_storable d)"
| "call_ok n (CInsertChannel x) (D, C, E) = channel_storable x"
| "call_ok n (CDeleteChannel x) (D, C, E) = channel_storable x"
| "call_ok n CClearChannels (D, C, E) = map_small C"
| "call_ok n (CUpdateChannels xs) (D, C, E) \<longleftrightarrow> map_small C \<and> (\<forall>x \<in> set xs. channel_storable x)"
| "call_ok n (CInsertCmd no x) (D, C, E) = cmd_storable no x"
| "call_ok n (CDeleteCmd no x) (D, C, E) = cmd_storable no x"
| "call_ok n CClearAllCmds (D, C, E) \<longleftrightarrow> (\<forall>no. map_small (E no))"
| "call_ok n (CClearCmds no) (D, C, E) \<longleftrightarrow> (if no = -1 then \<forall>no. map_small (E no) else map_small (E no))"
| "call_ok n (CUpdateCmds no xs) (D, C, E) \<longleftrightarrow> map_small (E no) \<and> (\<forall>x \<in> set xs. cmd_storable no x)"

fun calls_ok :: "int \<Rightarrow> call list \<Rightarrow> store \<Rightarrow> bool" where
  "calls_ok n [] st = True"
| "calls_ok n (x # xs) st \<longleftrightarrow> call_ok n x st \<and> calls_ok n xs (apply_call n x st)"

section \<open>Keys that do not meet\<close>

lemma prefix_differ: "i < length k \<Longrightarrow> i < length k' \<Longrightarrow> k ! i \<noteq> k' ! i \<Longrightarrow> foreign (k @ x) (k' @ y)"
  unfolding foreign_def by (metis length_append nth_append nth_take trans_less_add1)

lemma store_keys_foreign:
  "foreign device_key (worker_key no @ i)" "foreign channel_key (worker_key no @ i)"
  "foreign (worker_key no) (device_key @ i)" "foreign (worker_key no) (channel_key @ i)"
proof -
  have "foreign (device_key @ []) (cmd_key @ show_int no @ i)" "foreign (channel_key @ []) (cmd_key @ show_int no @ i)"
    "foreign (cmd_key @ show_int no) (device_key @ i)" "foreign (cmd_key @ show_int no) (channel_key @ i)"
    by (rule prefix_differ [where i = 5]; simp add: device_key_def cmd_key_def channel_key_def)+
  then show "foreign device_key (worker_key no @ i)" "foreign channel_key (worker_key no @ i)"
    "foreign (worker_key no) (device_key @ i)" "foreign (worker_key no) (channel_key @ i)"
    by (simp_all add: worker_key_def)
qed

text \<open>A map of another manager stays.\<close>

lemma at_frame:
  assumes "\<forall>k. foreign key k \<longrightarrow> db' k = db k"
  shows "(\<forall>i. foreign key (device_key @ i)) \<Longrightarrow> devices_at D db \<Longrightarrow> devices_at D db'"
    "(\<forall>i. foreign key (channel_key @ i)) \<Longrightarrow> channels_at C db \<Longrightarrow> channels_at C db'"
    "(\<forall>i. foreign key (worker_key no @ i)) \<Longrightarrow> cmds_at no E db \<Longrightarrow> cmds_at no E db'"
  using assms by (auto simp: at_defs intro: represents_frame)

section \<open>One operation\<close>

text \<open>A manager that has changed its map has changed the store.\<close>

lemma store_devices:
  assumes "store_at n (D, C, E) db" "represents device_key device_enc D' db'"
    "map_ok device_key device_enc device_ok GetDeviceId D'" "\<forall>k. foreign device_key k \<longrightarrow> db' k = db k"
  shows "store_at n (D', C, E) db'"
  using assms at_frame(2,3) [OF assms(4)] keys_foreign(1) store_keys_foreign(1)
  by (simp add: store_at_def devices_at_def)

lemma store_channels:
  assumes "store_at n (D, C, E) db" "represents channel_key channel_enc C' db'"
    "map_ok channel_key channel_enc channel_ok GetChannelId C'" "\<forall>k. foreign channel_key k \<longrightarrow> db' k = db k"
  shows "store_at n (D, C', E) db'"
  using assms at_frame(1,3) [OF assms(4)] keys_foreign(2) store_keys_foreign(2)
  by (simp add: store_at_def channels_at_def)

lemma store_cmds:
  assumes "store_at n (D, C, E) db" "represents (worker_key no) cmd_enc E' db'"
    "map_ok (worker_key no) cmd_enc cmd_ok GetId E'" "\<forall>k. foreign (worker_key no) k \<longrightarrow> db' k = db k"
    and w: "worker_ok n no" "n \<le> 10"
  shows "store_at n (D, C, E(no := E')) db'"
proof -
  have "cmds_at m (E m) db'" if "worker_ok n m" "m \<noteq> no" for m
    using at_frame(3) [OF assms(4), of m "E m"] assms(1) workers_foreign [of no m] w that
    by (auto simp: store_at_def worker_ok_def)
  then show ?thesis
    using assms(1-3) at_frame(1,2) [OF assms(4)] store_keys_foreign(3,4)
    by (simp add: store_at_def cmds_at_def)
qed

definition runs_to :: "('w \<Rightarrow> db) \<Rightarrow> (sock \<Rightarrow> 'w \<Rightarrow> bytes list list option) \<Rightarrow> int \<Rightarrow> client
    \<Rightarrow> (int \<times> client \<times> 'w) res \<Rightarrow> store \<Rightarrow> bool" where
  "runs_to data tx n c m st \<longleftrightarrow> (\<exists>ret c' w'. m = Inr (ret, c', w') \<and> client_ok tx c' w'
     \<and> m_redisMode c' = m_redisMode c \<and> store_at n st (data w'))"

lemma run_device:
  assumes net: "redis_net net data tx" and cl: "client_ok tx c w" and st: "store_at n (D, C, E) (data w)"
  shows "device_storable d \<Longrightarrow> runs_to data tx n c (InsertDevice net (m_redisMode c) d c w) (D(GetDeviceId d \<mapsto> d), C, E)"
    "device_storable d \<Longrightarrow> runs_to data tx n c (DeleteDevice net (m_redisMode c) d c w) (D(GetDeviceId d := None), C, E)"
    "map_small D \<Longrightarrow> runs_to data tx n c (ClearDevices net c w) (Map.empty, C, E)"
    "map_small D \<Longrightarrow> \<forall>d \<in> set ds. device_storable d \<Longrightarrow>
      runs_to data tx n c (UpdateDevices net ds c w) (put_all GetDeviceId ds Map.empty, C, E)"
proof -
  note store = device_store [OF net]
  have m: "represents device_key device_enc D (data w)" "map_ok device_key device_enc device_ok GetDeviceId D"
    using st by (simp_all add: store_at_def devices_at_def)
  have k: "arg_small device_key" by (simp add: arg_small_def device_key_def)
  note becomes = entity_store.becomes_def [OF store] runs_to_def
  note unf = InsertDevice_def InsertDeviceInTransaction_def InsertDeviceInCluster_def DeleteDevice_def
    DeleteDeviceInTransaction_def DeleteDeviceInCluster_def ClearDevices_def UpdateDevices_def device_storable_def
  show "runs_to data tx n c (InsertDevice net (m_redisMode c) d c w) (D(GetDeviceId d \<mapsto> d), C, E)" if "device_storable d"
    using entity_store.insert_becomes [OF store cl m that [unfolded device_storable_def],
        where undo = "device_key @ GetDeviceId d"] store_devices [OF st]
    by (auto simp: becomes unf split: if_splits)
  show "runs_to data tx n c (DeleteDevice net (m_redisMode c) d c w) (D(GetDeviceId d := None), C, E)" if "device_storable d"
    using entity_store.delete_becomes [OF store cl m that [unfolded device_storable_def],
        where undo = "device_key @ GetDeviceId d"] store_devices [OF st]
    by (auto simp: becomes unf split: if_splits)
  show "runs_to data tx n c (ClearDevices net c w) (Map.empty, C, E)" if "map_small D"
    using entity_store.clear_becomes [OF store cl m k that] store_devices [OF st] by (auto simp: becomes unf)
  show "runs_to data tx n c (UpdateDevices net ds c w) (put_all GetDeviceId ds Map.empty, C, E)"
    if "map_small D" "\<forall>d \<in> set ds. device_storable d"
    using entity_store.update_becomes [OF store cl m k that [unfolded device_storable_def]] store_devices [OF st]
    by (auto simp: becomes unf)
qed

lemma run_channel:
  assumes net: "redis_net net data tx" and cl: "client_ok tx c w" and st: "store_at n (D, C, E) (data w)"
  shows "channel_storable d \<Longrightarrow> runs_to data tx n c (InsertChannel net (m_redisMode c) d c w) (D, C(GetChannelId d \<mapsto> d), E)"
    "channel_storable d \<Longrightarrow> runs_to data tx n c (DeleteChannel net (m_redisMode c) d c w) (D, C(GetChannelId d := None), E)"
    "map_small C \<Longrightarrow> runs_to data tx n c (ClearChannels net c w) (D, Map.empty, E)"
    "map_small C \<Longrightarrow> \<forall>d \<in> set ds. channel_storable d \<Longrightarrow>
      runs_to data tx n c (UpdateChannels net ds c w) (D, put_all GetChannelId ds Map.empty, E)"
proof -
  note store = channel_store [OF net]
  have m: "represents channel_key channel_enc C (data w)" "map_ok channel_key channel_enc channel_ok GetChannelId C"
    using st by (simp_all add: store_at_def channels_at_def)
  have k: "arg_small channel_key" by (simp add: arg_small_def channel_key_def)
  note becomes = entity_store.becomes_def [OF store] runs_to_def
  note unf = InsertChannel_def InsertChannelInTransaction_def InsertChannelInCluster_def DeleteChannel_def
    DeleteChannelInTransaction_def DeleteChannelInCluster_def ClearChannels_def UpdateChannels_def channel_storable_def
  show "runs_to data tx n c (InsertChannel net (m_redisMode c) d c w) (D, C(GetChannelId d \<mapsto> d), E)" if "channel_storable d"
    using entity_store.insert_becomes [OF store cl m that [unfolded channel_storable_def],
        where undo = "channel_key @ GetChannelId d"] store_channels [OF st]
    by (auto simp: becomes unf split: if_splits)
  show "runs_to data tx n c (DeleteChannel net (m_redisMode c) d c w) (D, C(GetChannelId d := None), E)" if "channel_storable d"
    using entity_store.delete_becomes [OF store cl m that [unfolded channel_storable_def],
        where undo = "channel_key @ GetChannelId d"] store_channels [OF st]
    by (auto simp: becomes unf split: if_splits)
  show "runs_to data tx n c (ClearChannels net c w) (D, Map.empty, E)" if "map_small C"
    using entity_store.clear_becomes [OF store cl m k that] store_channels [OF st] by (auto simp: becomes unf)
  show "runs_to data tx n c (UpdateChannels net ds c w) (D, put_all GetChannelId ds Map.empty, E)"
    if "map_small C" "\<forall>d \<in> set ds. channel_storable d"
    using entity_store.update_becomes [OF store cl m k that [unfolded channel_storable_def]] store_channels [OF st]
    by (auto simp: becomes unf)
qed

lemma run_cmd:
  assumes net: "redis_net net data tx" and cl: "client_ok tx c w" and st: "store_at n (D, C, E) (data w)"
    and no: "worker_ok n no" "n \<le> 10"
  shows "cmd_storable no x \<Longrightarrow> runs_to data tx n c (InsertCmd net (m_redisMode c) n x no c w) (D, C, E(no := (E no)(GetId x \<mapsto> x)))"
    "cmd_storable no x \<Longrightarrow> runs_to data tx n c (DeleteCmd net (m_redisMode c) n x no c w) (D, C, E(no := (E no)(GetId x := None)))"
    "map_small (E no) \<Longrightarrow> runs_to data tx n c (ClearCmds net n no c w) (D, C, E(no := Map.empty))"
    "map_small (E no) \<Longrightarrow> \<forall>x \<in> set xs. cmd_storable no x \<Longrightarrow>
      runs_to data tx n c (UpdateCmds net n xs no c w) (D, C, E(no := put_all GetId xs Map.empty))"
proof -
  note store = cmd_store [OF net]
  have m: "represents (worker_key no) cmd_enc (E no) (data w)" "map_ok (worker_key no) cmd_enc cmd_ok GetId (E no)"
    using st no(1) by (simp_all add: store_at_def cmds_at_def)
  have k: "arg_small (worker_key no)" using no by (intro worker_small) (auto simp: worker_ok_def)
  note becomes = entity_store.becomes_def [OF store] runs_to_def
  note unf = InsertCmd_def InsertCmdInTransaction_def InsertCmdInCluster_def DeleteCmd_def
    DeleteCmdInTransaction_def DeleteCmdInCluster_def ClearCmds_def UpdateCmds_def cmd_storable_def
  show "runs_to data tx n c (InsertCmd net (m_redisMode c) n x no c w) (D, C, E(no := (E no)(GetId x \<mapsto> x)))" if "cmd_storable no x"
    using entity_store.insert_becomes [OF store cl m that [unfolded cmd_storable_def], where undo = "cmd_key @ GetId x"]
      store_cmds [OF st _ _ _ no] no(1) by (auto simp: becomes unf split: if_splits)
  show "runs_to data tx n c (DeleteCmd net (m_redisMode c) n x no c w) (D, C, E(no := (E no)(GetId x := None)))" if "cmd_storable no x"
    using entity_store.delete_becomes [OF store cl m that [unfolded cmd_storable_def], where undo = "cmd_key @ GetId x"]
      store_cmds [OF st _ _ _ no] no(1) by (auto simp: becomes unf split: if_splits)
  show "runs_to data tx n c (ClearCmds net n no c w) (D, C, E(no := Map.empty))" if "map_small (E no)"
    using entity_store.clear_becomes [OF store cl m k that] store_cmds [OF st _ _ _ no] no(1) by (auto simp: becomes unf)
  show "runs_to data tx n c (UpdateCmds net n xs no c w) (D, C, E(no := put_all GetId xs Map.empty))"
    if "map_small (E no)" "\<forall>x \<in> set xs. cmd_storable no x"
    using entity_store.update_becomes [OF store cl m k that [unfolded cmd_storable_def]] store_cmds [OF st _ _ _ no] no(1)
    by (auto simp: becomes unf)
qed

lemma run_clear_workers:
  assumes net: "redis_net net data tx" and n: "n \<le> 10" and small: "\<forall>no. map_small (E no)"
  shows "client_ok tx c w \<Longrightarrow> store_at n (D, C, F) (data w) \<Longrightarrow> \<forall>no. F no = E no \<or> F no = Map.empty \<Longrightarrow>
    int i + int k \<le> n \<Longrightarrow> runs_to data tx n c (clear_workers net n i k c w)
      (D, C, \<lambda>no. if int i \<le> no \<and> no < int i + int k then Map.empty else F no)"
proof (induction k arbitrary: i c w F)
  case 0
  have "(\<lambda>no. if int i \<le> no \<and> no < int i + int 0 then Map.empty else F no) = F" by (rule ext) auto
  then show ?case using 0 by (simp add: runs_to_def)
next
  case (Suc k)
  have no: "worker_ok n (int i)" using Suc.prems(4) by (simp add: worker_ok_def)
  have "map_small (F (int i))" using Suc.prems(3) [rule_format, of "int i"]
  proof
    assume "F (int i) = Map.empty"
    then show ?thesis by (simp add: map_small_def small_set_def)
  qed (use small in simp)
  from run_cmd(3) [OF net Suc.prems(1,2) no n this] obtain ret c1 w1 where
    s1: "ClearCmds net n (int i) c w = Inr (ret, c1, w1)" "client_ok tx c1 w1" "m_redisMode c1 = m_redisMode c"
      "store_at n (D, C, F(int i := Map.empty)) (data w1)" by (auto simp: runs_to_def)
  let ?G = "\<lambda>no. if int (Suc i) \<le> no \<and> no < int (Suc i) + int k then Map.empty else (F(int i := Map.empty)) no"
  have "runs_to data tx n c1 (clear_workers net n (Suc i) k c1 w1) (D, C, ?G)"
    by (rule Suc.IH [OF s1(2,4)]) (use Suc.prems(3,4) in auto)
  moreover have "?G = (\<lambda>no. if int i \<le> no \<and> no < int i + int (Suc k) then Map.empty else F no)" by (auto simp: fun_eq_iff)
  ultimately show ?case using s1(1,3) by (auto simp: runs_to_def)
qed

lemma run_clear_all:
  assumes net: "redis_net net data tx" and cl: "client_ok tx c w" and st: "store_at n (D, C, E) (data w)"
    and n: "n \<le> 10" and small: "\<forall>no. map_small (E no)"
  shows "runs_to data tx n c (clear_workers net n 0 (nat n) c w) (D, C, \<lambda>_. Map.empty)"
proof -
  have same: "store_at n (D, C, \<lambda>no. if 0 \<le> no \<and> no < int (nat n) then Map.empty else E no) db
      \<Longrightarrow> store_at n (D, C, \<lambda>_. Map.empty) db" for db by (simp add: store_at_def worker_ok_def)
  show ?thesis
  proof (cases "0 \<le> n")
    case True
    then show ?thesis using run_clear_workers [OF net n small cl st, of 0 "nat n"] same by (auto simp: runs_to_def)
  next
    case False
    then show ?thesis using cl st same [of "data w"] by (auto simp: runs_to_def store_at_def worker_ok_def)
  qed
qed

lemma all_as_map: "(\<And>x. cast (con x) = Inr x) \<Longrightarrow> all_as cast (map con xs) = Inr xs"
  by (induction xs) auto

lemma run_call:
  assumes net: "redis_net net data tx" and cl: "client_ok tx c w" and st: "store_at n st (data w)"
    and n: "n \<le> 10" and ok: "call_ok n call st"
  shows "runs_to data tx n c (run_operation net (m_redisMode c) n (requested call) c w) (apply_call n call st)"
proof -
  obtain D C E where s: "st = (D, C, E)" by (cases st)
  note dev = run_device [OF net cl st [unfolded s]] and chan = run_channel [OF net cl st [unfolded s]]
    and cmd = run_cmd [OF net cl st [unfolded s] _ n] and all = run_clear_all [OF net cl st [unfolded s] n]
  have idle: "runs_to data tx n c (Inr (-1, c, w)) st" using cl st by (auto simp: runs_to_def)
  note unf = run_operation_def first_as_def all_as_map s InsertCmd_def DeleteCmd_def ClearCmds_def UpdateCmds_def
  show ?thesis
  proof (cases call)
    case (CInsertCmd no x)
    then show ?thesis using ok cmd(1) [of no x] idle by (cases "worker_ok n no") (simp_all add: unf)
  next
    case (CDeleteCmd no x)
    then show ?thesis using ok cmd(2) [of no x] idle by (cases "worker_ok n no") (simp_all add: unf)
  next
    case (CClearCmds no)
    then show ?thesis using ok cmd(3) [of no] all idle
      by (cases "no = -1"; cases "worker_ok n no") (simp_all add: unf)
  next
    case (CUpdateCmds no xs)
    then show ?thesis using ok cmd(4) [of no xs] idle by (cases "worker_ok n no") (simp_all add: unf)
  qed (use ok dev chan all in \<open>simp_all add: run_operation_def first_as_def all_as_map s\<close>)
qed

lemma run_calls:
  assumes net: "redis_net net data tx" and n: "n \<le> 10"
  shows "client_ok tx c w \<Longrightarrow> m_redisMode c = mode \<Longrightarrow> store_at n st (data w) \<Longrightarrow> calls_ok n calls st \<Longrightarrow>
    \<exists>c' w'. run_requests net mode n (map requested calls) c w = Inr (c', w') \<and> client_ok tx c' w'
      \<and> store_at n (fold (apply_call n) calls st) (data w')"
proof (induction calls arbitrary: c w st)
  case (Cons call calls)
  then obtain ret c1 w1 where "run_operation net mode n (requested call) c w = Inr (ret, c1, w1)" "client_ok tx c1 w1"
    "m_redisMode c1 = mode" "store_at n (apply_call n call st) (data w1)"
    using run_call [OF net Cons.prems(1,3) n, of call] by (auto simp: runs_to_def)
  then show ?case using Cons.IH [of c1 w1 "apply_call n call st"] Cons.prems(4) by simp
qed simp

end
