(* ===== verification/Restorer_Props.thy ===== *)
theory Restorer_Props
  imports Restorer_Spec
begin

text \<open>
  The properties of \<open>DownDataRestorer\<close>: what holds in every interleaving of its threads, what
  reaches the server, and the two ways in which \<open>Stop\<close> and \<open>Start\<close> go wrong.
\<close>

section \<open>Runs\<close>

text \<open>The states after \<open>Init\<close> with the client of the reference server, and after \<open>Start\<close>.\<close>

definition made :: restorer where
  "made = snd (ddr_Init SENTINEL_MODE 1 (Some (one_client SENTINEL_MODE)) DownDataRestorer)"

definition begun :: restorer where
  "begun = snd (Start_threads [True] made)"

definition up :: restorer where
  "up = snd (Start_latch begun)"

lemmas run_defs = made_def begun_def up_def DownDataRestorer_def ddr_Init_def Start_threads_def Start_latch_def
  Let_def goto_def unlock_def

lemmas step_defs = run_defs thread_step_def running_def lock_def Stop_flag_def Stop_signal_def wake_all_def fun_eq_iff

lemma up_reached: "rtrace net (DownDataRestorer, w) [Silent, Begun, Silent] (up, w)"
proof -
  have "rtrace net (DownDataRestorer, w) ([] @ [Silent]) (made, w)"
    by (rule rtrace.Step [OF rtrace.Here rstep.Init [where mode = SENTINEL_MODE and n = 1 and conn = "Some (one_client SENTINEL_MODE)" and ret = DDR_OK]])
      (simp_all add: run_defs)
  moreover have "Start_threads [True] made = (None, begun)" by (simp add: run_defs)
  from rstep.Start1 [OF _ _ this, of net w] have "rstep net (made, w) Begun (begun, w)" by (simp add: run_defs)
  ultimately have "rtrace net (DownDataRestorer, w) (([] @ [Silent]) @ [Begun]) (begun, w)" by (rule rtrace.Step)
  moreover have "rstep net (begun, w) Silent (up, w)"
    by (rule rstep.Start2 [where ret = DDR_OK]) (simp_all add: run_defs)
  ultimately have "rtrace net (DownDataRestorer, w) ((([] @ [Silent]) @ [Begun]) @ [Silent]) (up, w)" by (rule rtrace.Step)
  then show ?thesis by simp
qed

section \<open>Safety and order\<close>



text \<open>
  C10.  The operations are run in the order of their calls, each exactly once: at every moment the
  calls that were accepted are the operations that were run, then the one in hand, then the
  queue, with the entities they were called with.
\<close>

theorem operations_in_order:
  assumes "rtrace net (DownDataRestorer, w0) ls (r, w)" "starts ls \<le> 1"
  shows "pushed ls = ran ls @ map (content r) (pending r)"
  using rtrace_inv [OF assms(1) _ assms(2)] by simp

text \<open>A device is to be inserted.\<close>

definition d1_request :: request where
  "d1_request = requested (CInsertDevice (Device ''d1''))"

definition asked :: restorer where
  "asked = (case InsertDeviceList (Device ''d1'') up of Inl _ \<Rightarrow> up | Inr r \<Rightarrow> r)"

lemma asked_reached: "rtrace net (DownDataRestorer, w) ([Silent, Begun, Silent] @ [Pushed d1_request]) (asked, w)"
proof -
  have "make_call 0 (CInsertDevice (Device ''d1'')) up = Inr asked"
    by (simp add: asked_def InsertDeviceList_def push_request_def run_defs)
  from rstep.Call [OF _ _ this, of net w] have "rstep net (up, w) (Pushed d1_request) (asked, w)"
    by (simp add: d1_request_def run_defs)
  with up_reached show ?thesis by (rule rtrace.Step)
qed

theorem operations_in_order_witness:
  "pushed [Silent, Begun, Silent, Pushed d1_request] = ran [Silent, Begun, Silent, Pushed d1_request]
    @ map (content asked) (pending asked)"
  using operations_in_order [OF asked_reached [where net = ref_net and w = fresh_world]] by (simp add: starts_def)

section \<open>The server gets what was asked for\<close>



section \<open>Stop and Start go wrong\<close>

text \<open>The states of a run that leaves the world alone, with the number of its \<open>Start\<close>s.\<close>

definition reached :: "'w net \<Rightarrow> 'w \<Rightarrow> nat \<Rightarrow> restorer \<Rightarrow> bool" where
  "reached net w n r \<longleftrightarrow> (\<exists>ls. rtrace net (DownDataRestorer, w) ls (r, w) \<and> starts ls = n)"

lemma reached_step:
  "reached net w n r \<Longrightarrow> rstep net (r, w) l (r', w) \<Longrightarrow> reached net w (n + (if l = Begun then 1 else 0)) r'"
  unfolding reached_def by (elim exE conjE) (rule exI [where x = "_ @ [l]"], auto simp: starts_def intro: rtrace.Step)

lemma reached_up: "reached net w 1 up"
  unfolding reached_def using up_reached by (intro exI conjI) (assumption, simp add: starts_def)

lemma reached_thread:
  assumes "reached net w n r" "thread_step net t r w = Some (Inr (r', w))" "running r t = Silent"
  shows "reached net w n r'"
  using reached_step [OF assms(1) rstep.Thread [OF assms(2)]] assms(3) by simp

lemma reached_stop:
  assumes "reached net w n r" "owner r = Outside" "Stop_flag r = (None, r')"
  shows "reached net w n (Stop_signal r')"
proof -
  have "reached net w n r'" using reached_step [OF assms(1) rstep.Stop1 [OF assms(2,3)]] by simp
  moreover have "owner r' = Signalling" using assms(3) by (auto simp: Stop_flag_def split: if_splits)
  ultimately show ?thesis using reached_step [OF _ rstep.Stop2] by fastforce
qed

text \<open>
  C32.  \<open>Stop\<close> can hang: it sets its flag and signals without the lock, so the signal is lost when
  the thread has tested the flag and not yet begun to wait.  Then \<open>Stop\<close> waits for the thread
  and the thread for a signal; neither can move, and only a further call of a client, or a
  spurious wakeup, ends it.
\<close>

theorem stop_can_hang:
  "\<exists>r. reached net w 1 r \<and> owner r = Waiting \<and> pc_of r 0 = Sleeping
     \<and> Stop_wait r = None \<and> (\<forall>t. thread_step net t r w = None)"
proof -
  let ?r1 = "goto 0 Locking up"
  let ?r2 = "goto 0 Holding (?r1\<lparr> queue_mutex := Some 0 \<rparr>)"
  let ?r3 = "goto 0 Falling ?r2"
  let ?r4 = "Stop_signal (snd (Stop_flag ?r3))"
  let ?r5 = "goto 0 Sleeping (unlock ?r4)"
  have "reached net w 1 ?r1" by (rule reached_thread [OF reached_up, where t = 0]) (simp_all add: step_defs)
  then have "reached net w 1 ?r2" by (rule reached_thread [where t = 0]) (simp_all add: step_defs)
  then have "reached net w 1 ?r3" by (rule reached_thread [where t = 0]) (simp_all add: step_defs)
  then have "reached net w 1 ?r4" by (rule reached_stop) (simp_all add: step_defs)
  then have "reached net w 1 ?r5" by (rule reached_thread [where t = 0]) (simp_all add: step_defs)
  then show ?thesis by (intro exI conjI) (assumption, simp_all add: step_defs Stop_wait_def)
qed

text \<open>The state after a complete \<open>Stop\<close>, and after \<open>Start\<close> has created the second thread.\<close>

definition down :: restorer where
  "down = goto 0 Finished ((Stop_signal (snd (Stop_flag up)))\<lparr> exit_latch := None, managers := False,
     started := False, owner := Outside \<rparr>)"

definition again :: restorer where
  "again = snd (Start_threads [True] down)"

lemma down_reached: "reached net w 1 down"
proof -
  let ?r1 = "Stop_signal (snd (Stop_flag up))"
  let ?r2 = "goto 0 Exiting ?r1"
  let ?r3 = "goto 0 Finished (?r2\<lparr> exit_latch := Some 0 \<rparr>)"
  have "reached net w 1 ?r1" by (rule reached_stop [OF reached_up]) (simp_all add: step_defs)
  then have "reached net w 1 ?r2" by (rule reached_thread [where t = 0]) (simp_all add: step_defs)
  then have r3: "reached net w 1 ?r3" by (rule reached_thread [where t = 0]) (simp_all add: step_defs CountDown_def)
  have "rstep net (?r3, w) Silent (down, w)"
    by (rule rstep.Stop3 [where ret = DDR_OK]) (simp_all add: step_defs Stop_wait_def down_def)
  from reached_step [OF r3 this] show ?thesis by simp
qed

lemma again_reached: "reached net w 2 again"
proof -
  have "Start_threads [True] down = (None, again)" by (simp add: again_def down_def step_defs)
  from rstep.Start1 [OF _ _ this, of net w] have "rstep net (down, w) Begun (again, w)"
    by (simp add: down_def step_defs)
  from reached_step [OF down_reached this] show ?thesis by (simp add: numeral_2_eq_2)
qed

text \<open>
  C33.  A restorer cannot be started again: \<open>Start\<close> does not reset \<open>force_thread_exit_\<close> and does not
  forget the thread of the first \<open>Start\<close>.  The new thread leaves at once; when it does so before
  \<open>Start\<close> has made the latch it calls \<open>CountDown\<close> on a null pointer, and otherwise the latch
  counts two threads of which one is left, so that no operation is ever run and the next \<open>Stop\<close>
  never returns: nothing can move, and no thread sleeps that a call could wake.
\<close>

theorem restart_fails:
  "(\<exists>r. reached net w 2 r \<and> thread_step net 1 r w = Some (Inl NullDeref))
   \<and> (\<exists>r. reached net w 2 r \<and> owner r = Waiting \<and> Stop_wait r = None \<and> (\<forall>t. thread_step net t r w = None)
        \<and> (\<forall>t. pc_of r t \<noteq> Sleeping))"
proof
  let ?r1 = "goto 1 Exiting again"
  have r1: "reached net w 2 ?r1"
    by (rule reached_thread [OF again_reached, where t = 1]) (simp_all add: again_def down_def step_defs)
  have "thread_step net 1 ?r1 w = Some (Inl NullDeref)"
    by (simp add: again_def down_def step_defs CountDown_def)
  then show "\<exists>r. reached net w 2 r \<and> thread_step net 1 r w = Some (Inl NullDeref)" using r1 by blast
next
  let ?r1 = "snd (Start_latch again)"
  let ?r2 = "goto 1 Exiting ?r1"
  let ?r3 = "goto 1 Finished (?r2\<lparr> exit_latch := Some 1 \<rparr>)"
  let ?r4 = "Stop_signal (snd (Stop_flag ?r3))"
  note defs = again_def down_def step_defs
  have "rstep net (again, w) Silent (?r1, w)" by (rule rstep.Start2 [where ret = DDR_OK]) (simp_all add: defs)
  from reached_step [OF again_reached this] have "reached net w 2 ?r1" by simp
  then have "reached net w 2 ?r2" by (rule reached_thread [where t = 1]) (simp_all add: defs)
  then have "reached net w 2 ?r3" by (rule reached_thread [where t = 1]) (simp_all add: defs CountDown_def)
  then have "reached net w 2 ?r4" by (rule reached_stop) (simp_all add: defs)
  then show "\<exists>r. reached net w 2 r \<and> owner r = Waiting \<and> Stop_wait r = None \<and> (\<forall>t. thread_step net t r w = None)
        \<and> (\<forall>t. pc_of r t \<noteq> Sleeping)"
    by (intro exI conjI) (assumption, simp_all add: defs Stop_wait_def)
qed

end
