(* ===== verification/Handle_Table.thy ===== *)
theory Handle_Table
  imports Prelude "HOL-Library.Multiset"
begin

text \<open>
  The hash table \<open>HandleTable\<close> of \<open>ComponentsW/cache.leveldb/cache.cpp\<close>.  A handle is
  an address; \<open>info\<close> reads its key and its hash, and is \<open>None\<close> when the object was freed.
  A bucket is the chain of its handles along \<open>next_hash\<close>.  The table refines a map from
  keys to handles.
\<close>

unbundle bit_operations_syntax

type_synonym hinfo = "nat \<Rightarrow> (string \<times> 32 word) option"

record table =
  t_length :: nat
  t_elems :: nat
  t_list :: "nat list list"

section \<open>Operations\<close>

definition bucket :: "nat \<Rightarrow> 32 word \<Rightarrow> nat" where
  "bucket len hash = unat (hash AND of_nat (len - 1))"

text \<open>\<open>FindPointer\<close>: the position in its chain of the entry with this key and hash, or
  the end of the chain.\<close>

fun FindPointer :: "hinfo \<Rightarrow> string \<Rightarrow> 32 word \<Rightarrow> nat list \<Rightarrow> nat res" where
  "FindPointer info key hash [] = Inr 0"
| "FindPointer info key hash (h # hs) =
     (case info h of
        None \<Rightarrow> Inl Dangling
      | Some (k, hh) \<Rightarrow>
          if hh \<noteq> hash \<or> key \<noteq> k then res_bind (FindPointer info key hash hs) (\<lambda>i. Inr (Suc i))
          else Inr 0)"

definition nth_opt :: "'a list \<Rightarrow> nat \<Rightarrow> 'a option" where
  "nth_opt xs i = (if i < length xs then Some (xs ! i) else None)"

definition table_Lookup :: "hinfo \<Rightarrow> string \<Rightarrow> 32 word \<Rightarrow> table \<Rightarrow> nat option res" where
  "table_Lookup info key hash t =
     (let chain = t_list t ! bucket (t_length t) hash in
      res_bind (FindPointer info key hash chain) (\<lambda>i. Inr (nth_opt chain i)))"

function new_length :: "nat \<Rightarrow> nat \<Rightarrow> nat" where
  "new_length elems n = (if 0 < n \<and> n < elems then new_length elems (n * 2) else n)"
  by pat_completeness auto
termination
  by (relation "measure (\<lambda>(elems, n). elems - n)") auto

declare new_length.simps [simp del]

fun move_chain :: "hinfo \<Rightarrow> nat \<Rightarrow> nat list \<Rightarrow> nat list list \<Rightarrow> nat list list res" where
  "move_chain info n [] new = Inr new"
| "move_chain info n (h # hs) new =
     (case info h of
        None \<Rightarrow> Inl Dangling
      | Some (_, hash) \<Rightarrow> let b = bucket n hash in move_chain info n hs (new[b := h # new ! b]))"

fun move_chains :: "hinfo \<Rightarrow> nat \<Rightarrow> nat list list \<Rightarrow> nat list list \<Rightarrow> nat list list res" where
  "move_chains info n [] new = Inr new"
| "move_chains info n (hs # old) new =
     res_bind (move_chain info n hs new) (\<lambda>new. move_chains info n old new)"

text \<open>The \<open>assert\<close> compares \<open>elems_\<close> with the number of handles that were moved.\<close>

definition Resize :: "hinfo \<Rightarrow> table \<Rightarrow> table res" where
  "Resize info t =
     (let n = new_length (t_elems t) 4 in
      res_bind (move_chains info n (t_list t) (replicate n [])) (\<lambda>new.
      if t_elems t \<noteq> length (concat (t_list t)) then Inl CheckFailed
      else Inr (t\<lparr> t_list := new, t_length := n \<rparr>)))"

definition HandleTable :: table where
  "HandleTable = \<lparr> t_length = 4, t_elems = 0, t_list = replicate 4 [] \<rparr>"

definition table_Insert :: "hinfo \<Rightarrow> nat \<Rightarrow> table \<Rightarrow> (nat option \<times> table) res" where
  "table_Insert info h t =
     (case info h of
        None \<Rightarrow> Inl Dangling
      | Some (key, hash) \<Rightarrow>
          let b = bucket (t_length t) hash; chain = t_list t ! b in
          res_bind (FindPointer info key hash chain) (\<lambda>i.
          case nth_opt chain i of
            Some old \<Rightarrow> Inr (Some old, t\<lparr> t_list := (t_list t)[b := chain[i := h]] \<rparr>)
          | None \<Rightarrow>
              let t = t\<lparr> t_list := (t_list t)[b := chain @ [h]], t_elems := t_elems t + 1 \<rparr> in
              if t_elems t > t_length t then res_bind (Resize info t) (\<lambda>t. Inr (None, t))
              else Inr (None, t)))"

definition table_Remove :: "hinfo \<Rightarrow> string \<Rightarrow> 32 word \<Rightarrow> table \<Rightarrow> (nat option \<times> table) res" where
  "table_Remove info key hash t =
     (let b = bucket (t_length t) hash; chain = t_list t ! b in
      res_bind (FindPointer info key hash chain) (\<lambda>i.
      case nth_opt chain i of
        Some result \<Rightarrow>
          Inr (Some result, t\<lparr> t_list := (t_list t)[b := take i chain @ drop (Suc i) chain],
                               t_elems := t_elems t - 1 \<rparr>)
      | None \<Rightarrow> Inr (None, t)))"

section \<open>The invariant\<close>

text \<open>Every handle of the table is alive and in the bucket of its hash, no two have the
  same key and hash, the number of buckets is a power of two, and there are no more
  handles than buckets.\<close>

definition members :: "table \<Rightarrow> nat set" where
  "members t = set (concat (t_list t))"

definition chains_ok :: "hinfo \<Rightarrow> nat \<Rightarrow> nat list list \<Rightarrow> bool" where
  "chains_ok info n cs =
     (length cs = n \<and> distinct (concat cs) \<and>
      (\<forall>i < n. \<forall>h \<in> set (cs ! i). \<exists>k hash. info h = Some (k, hash) \<and> bucket n hash = i))"

definition table_wf :: "hinfo \<Rightarrow> table \<Rightarrow> bool" where
  "table_wf info t =
     (chains_ok info (t_length t) (t_list t) \<and> (\<exists>k. t_length t = 2 ^ k)
      \<and> inj_on info (members t) \<and> t_elems t = length (concat (t_list t)) \<and> t_elems t \<le> t_length t)"

lemma bucket_less: "bucket (2 ^ k) hash < 2 ^ k"
proof (cases "k < 32")
  case True
  then have "(of_nat (2 ^ k - 1) :: 32 word) = mask k"
    by (simp add: mask_eq_exp_minus_1 of_nat_diff)
  then have "bucket (2 ^ k) hash = unat (take_bit k hash)"
    by (simp add: bucket_def take_bit_eq_mask)
  then show ?thesis by (simp add: unsigned_take_bit_eq)
next
  case False
  have "bucket (2 ^ k) hash < 2 ^ 32" unfolding bucket_def by (rule unat_32)
  also have "\<dots> \<le> 2 ^ k" using False by (intro power_increasing) auto
  finally show ?thesis .
qed

section \<open>Lemmas on chains\<close>

lemma mset_concat_update:
  "b < length cs \<Longrightarrow> mset (concat (cs[b := c])) + mset (cs ! b) = mset (concat cs) + mset c"
proof (induction cs arbitrary: b)
  case (Cons x cs)
  then show ?case by (cases b) (auto simp: ac_simps)
qed simp

lemma in_concat_iff: "x \<in> set (concat cs) \<longleftrightarrow> (\<exists>i < length cs. x \<in> set (cs ! i))"
  by (auto simp: set_conv_nth [of cs])

lemma chain_replace: "i < length c \<Longrightarrow> mset (c[i := h]) + {# c ! i #} = mset c + {# h #}"
  by (simp add: mset_update)

lemma chain_delete: "i < length c \<Longrightarrow> mset (take i c @ drop (Suc i) c) + {# c ! i #} = mset c"
  by (metis add_mset_add_single id_take_nth_drop mset.simps(2) mset_append union_mset_add_mset_right)

text \<open>The table changes like a list of handles.\<close>

lemma FindPointer_ok:
  assumes "\<forall>h \<in> set hs. info h \<noteq> None"
  obtains i where "FindPointer info key hash hs = Inr i" "i \<le> length hs"
    "\<forall>j < i. info (hs ! j) \<noteq> Some (key, hash)" "i < length hs \<longrightarrow> info (hs ! i) = Some (key, hash)"
proof -
  have "\<exists>i \<le> length hs. FindPointer info key hash hs = Inr i \<and> (\<forall>j < i. info (hs ! j) \<noteq> Some (key, hash))
      \<and> (i < length hs \<longrightarrow> info (hs ! i) = Some (key, hash))"
    using assms
  proof (induction hs)
    case (Cons h hs)
    then obtain i where i: "i \<le> length hs" "FindPointer info key hash hs = Inr i"
      "\<forall>j < i. info (hs ! j) \<noteq> Some (key, hash)" "i < length hs \<longrightarrow> info (hs ! i) = Some (key, hash)"
      by auto
    obtain k hh where h: "info h = Some (k, hh)" using Cons.prems by auto
    show ?case
    proof (cases "hh \<noteq> hash \<or> key \<noteq> k")
      case True
      with i h show ?thesis by (intro exI [of _ "Suc i"]) (auto simp: nth_Cons split: nat.splits)
    next
      case False
      with h show ?thesis by (intro exI [of _ 0]) auto
    qed
  qed simp
  then show ?thesis using that by blast
qed

text \<open>The chain of a key in a well-formed table, and the position in it.\<close>

lemma table_find:
  assumes "table_wf info t" and b: "b = bucket (t_length t) hash" and c: "c = t_list t ! b"
  obtains i where "b < length (t_list t)" "FindPointer info key hash c = Inr i" "i \<le> length c"
    "\<forall>h. nth_opt c i = Some h \<longleftrightarrow> h \<in> members t \<and> info h = Some (key, hash)"
proof -
  obtain k where k: "t_length t = 2 ^ k" and ok: "chains_ok info (t_length t) (t_list t)"
    and inj: "inj_on info (members t)"
    using assms(1) by (auto simp: table_wf_def)
  have bl: "b < length (t_list t)" using ok bucket_less [of k hash] by (simp add: b k chains_ok_def)
  have sub: "set c \<subseteq> members t" using nth_mem [OF bl] by (auto simp: members_def c)
  have "\<forall>h \<in> set c. info h \<noteq> None" using ok bl by (fastforce simp: chains_ok_def c)
  then obtain i where i: "FindPointer info key hash c = Inr i" "i \<le> length c"
    "\<forall>j < i. info (c ! j) \<noteq> Some (key, hash)" "i < length c \<longrightarrow> info (c ! i) = Some (key, hash)"
    by (rule FindPointer_ok [of c info key hash])
  have "nth_opt c i = Some h \<longleftrightarrow> h \<in> members t \<and> info h = Some (key, hash)" for h
  proof
    assume "nth_opt c i = Some h"
    then show "h \<in> members t \<and> info h = Some (key, hash)"
      using i(4) sub nth_mem [of i c] by (auto simp: nth_opt_def split: if_splits)
  next
    assume h: "h \<in> members t \<and> info h = Some (key, hash)"
    then obtain j where "j < length (t_list t)" "h \<in> set (t_list t ! j)"
      by (auto simp: members_def in_concat_iff simp del: set_concat)
    moreover from this have "j = b" using ok h by (fastforce simp: chains_ok_def b)
    ultimately obtain m where m: "m < length c" "c ! m = h" by (auto simp: c in_set_conv_nth)
    then have "i < length c" using i(2,3) h by (metis le_neq_implies_less)
    then have "c ! i = h" using i(4) h sub nth_mem [of i c] by (intro inj_onD [OF inj]) auto
    with \<open>i < length c\<close> show "nth_opt c i = Some h" by (simp add: nth_opt_def)
  qed
  then show ?thesis using that bl i by blast
qed

lemma table_Lookup_ok:
  assumes "table_wf info t"
  obtains r where "table_Lookup info key hash t = Inr r"
    "\<forall>h. r = Some h \<longleftrightarrow> h \<in> members t \<and> info h = Some (key, hash)"
proof -
  obtain i where "bucket (t_length t) hash < length (t_list t)"
    "FindPointer info key hash (t_list t ! bucket (t_length t) hash) = Inr i"
    "i \<le> length (t_list t ! bucket (t_length t) hash)"
    "\<forall>h. nth_opt (t_list t ! bucket (t_length t) hash) i = Some h \<longleftrightarrow> h \<in> members t \<and> info h = Some (key, hash)"
    by (rule table_find [OF assms refl refl, of hash key])
  then show ?thesis by (intro that) (auto simp: table_Lookup_def)
qed

section \<open>Insertion and removal\<close>

lemma new_length_pow: "\<exists>j. new_length e (2 ^ k) = 2 ^ (k + j)"
proof (induction e "2 ^ k :: nat" arbitrary: k rule: new_length.induct)
  case (1 e)
  show ?case
  proof (cases "2 ^ k < e")
    case True
    then obtain j where "new_length e (2 ^ Suc k) = 2 ^ (Suc k + j)"
      using 1 [of "Suc k"] by (auto simp: mult.commute)
    then show ?thesis
      using True by (intro exI [of _ "Suc j"]) (subst new_length.simps, simp add: mult.commute)
  qed (intro exI [of _ 0], subst new_length.simps, simp)
qed

lemma new_length_enough: "0 < n \<Longrightarrow> e \<le> new_length e n"
  by (induction e n rule: new_length.induct) (subst new_length.simps, auto)

text \<open>Moving chains keeps what is in them and puts every handle into its new bucket.\<close>

lemma move_chain_ok:
  assumes "\<forall>h \<in> set hs. info h \<noteq> None" "n = 2 ^ k" "length new = n"
    and "\<forall>i < n. \<forall>h \<in> set (new ! i). \<exists>k hash. info h = Some (k, hash) \<and> bucket n hash = i"
  shows "\<exists>new'. move_chain info n hs new = Inr new' \<and> length new' = n
    \<and> mset (concat new') = mset (concat new) + mset hs
    \<and> (\<forall>i < n. \<forall>h \<in> set (new' ! i). \<exists>k hash. info h = Some (k, hash) \<and> bucket n hash = i)"
  using assms
proof (induction hs arbitrary: new)
  case (Cons h hs)
  obtain ky hash where h: "info h = Some (ky, hash)" using Cons.prems(1) by auto
  let ?b = "bucket n hash" let ?new = "new[?b := h # new ! ?b]"
  have b: "?b < n" using bucket_less Cons.prems(2) by simp
  have m: "mset (concat ?new) = mset (concat new) + {# h #}"
    using mset_concat_update [of ?b new "h # new ! ?b"] b Cons.prems(3) by simp
  have "\<forall>i < n. \<forall>h \<in> set (?new ! i). \<exists>k hash. info h = Some (k, hash) \<and> bucket n hash = i"
    using Cons.prems(3,4) h b by (auto simp: nth_list_update)
  then show ?case
    using Cons.IH [of ?new] Cons.prems h m by (auto simp: Let_def)
qed simp

lemma move_chains_ok:
  assumes "\<forall>h \<in> set (concat old). info h \<noteq> None" "n = 2 ^ k" "length new = n"
    and "\<forall>i < n. \<forall>h \<in> set (new ! i). \<exists>k hash. info h = Some (k, hash) \<and> bucket n hash = i"
  shows "\<exists>new'. move_chains info n old new = Inr new' \<and> length new' = n
    \<and> mset (concat new') = mset (concat new) + mset (concat old)
    \<and> (\<forall>i < n. \<forall>h \<in> set (new' ! i). \<exists>k hash. info h = Some (k, hash) \<and> bucket n hash = i)"
  using assms
proof (induction old arbitrary: new)
  case (Cons hs old)
  obtain new1 where n1: "move_chain info n hs new = Inr new1" "length new1 = n"
    "mset (concat new1) = mset (concat new) + mset hs"
    "\<forall>i < n. \<forall>h \<in> set (new1 ! i). \<exists>k hash. info h = Some (k, hash) \<and> bucket n hash = i"
    using move_chain_ok [of hs info n k new] Cons.prems by auto
  then show ?case using Cons.IH [OF _ Cons.prems(2) n1(2,4)] Cons.prems(1) by (auto simp: ac_simps)
qed simp

lemma Resize_ok:
  assumes "chains_ok info (t_length t) (t_list t)" "inj_on info (members t)"
    "t_elems t = length (concat (t_list t))"
  shows "\<exists>t'. Resize info t = Inr t' \<and> table_wf info t' \<and> members t' = members t"
proof -
  obtain j where j: "new_length (t_elems t) 4 = 2 ^ (2 + j)"
    using new_length_pow [of "t_elems t" 2] by auto
  let ?n = "new_length (t_elems t) 4"
  have "\<forall>h \<in> set (concat (t_list t)). info h \<noteq> None"
    using assms(1) by (fastforce simp: chains_ok_def in_concat_iff simp del: set_concat)
  then obtain new where n: "move_chains info ?n (t_list t) (replicate ?n []) = Inr new" "length new = ?n"
    "mset (concat new) = mset (concat (t_list t))"
    "\<forall>i < ?n. \<forall>h \<in> set (new ! i). \<exists>k hash. info h = Some (k, hash) \<and> bucket ?n hash = i"
    using move_chains_ok [of "t_list t" info ?n "2 + j" "replicate ?n []"] j by auto
  have set: "set (concat new) = set (concat (t_list t))" using n(3) by (rule mset_eq_setD)
  have "distinct (concat new)"
    using assms(1) n(3) mset_eq_imp_distinct_iff [of "concat new"] by (simp add: chains_ok_def)
  moreover have "length (concat new) = length (concat (t_list t))" using n(3) by (rule mset_eq_length)
  moreover have "t_elems t \<le> ?n" by (rule new_length_enough) simp
  moreover have "\<exists>k. ?n = 2 ^ k" using j by blast
  ultimately show ?thesis
    using n set assms(2,3)
    by (auto simp: Resize_def Let_def table_wf_def chains_ok_def members_def simp del: set_concat)
qed

text \<open>The invariant after one chain of the table changed.\<close>

lemma table_update:
  assumes "table_wf info t" "b < t_length t"
    and m: "mset (concat (t_list t)) + mset new = mset ms + mset (t_list t ! b)" and "distinct ms"
    and "\<forall>h \<in> set new. \<exists>k hash. info h = Some (k, hash) \<and> bucket (t_length t) hash = b"
    and "inj_on info (set ms)"
  defines "t' \<equiv> t\<lparr> t_list := (t_list t)[b := new], t_elems := length ms \<rparr>"
  shows "members t' = set ms" "chains_ok info (t_length t') (t_list t')"
    "t_elems t' = length (concat (t_list t'))" "inj_on info (members t')"
proof -
  have len: "length (t_list t) = t_length t" using assms(1) by (simp add: table_wf_def chains_ok_def)
  then have ms: "mset (concat ((t_list t)[b := new])) = mset ms"
    using mset_concat_update [of b "t_list t" new] assms(2) m by (metis add_right_cancel)
  show "members t' = set ms" using mset_eq_setD [OF ms] by (simp add: members_def t'_def)
  then show "inj_on info (members t')" using assms(6) by simp
  show "t_elems t' = length (concat (t_list t'))" using mset_eq_length [OF ms] by (simp add: t'_def)
  have "distinct (concat ((t_list t)[b := new]))"
    using ms assms(4) mset_eq_imp_distinct_iff by blast
  then show "chains_ok info (t_length t') (t_list t')"
    using assms(1,2,5) len by (auto simp: t'_def chains_ok_def table_wf_def nth_list_update)
qed

lemma table_members:
  assumes "table_wf info t"
  shows "distinct (concat (t_list t))" "set (concat (t_list t)) = members t"
    "t_elems t = length (concat (t_list t))" "inj_on info (members t)" "t_elems t \<le> t_length t"
    "length (t_list t) = t_length t"
  using assms by (simp_all add: table_wf_def chains_ok_def members_def)

lemma chain_info:
  "table_wf info t \<Longrightarrow> b < t_length t \<Longrightarrow> h \<in> set (t_list t ! b) \<Longrightarrow>
     \<exists>k hash. info h = Some (k, hash) \<and> bucket (t_length t) hash = b"
  by (auto simp: table_wf_def chains_ok_def)

lemma mset_take_out:
  assumes "x \<in> set xs" "mset c = new + {# x #}"
  shows "mset xs + new = mset (remove1 x xs) + mset c"
proof -
  have "mset xs = mset (remove1 x xs) + {# x #}" using assms(1) by simp
  then show ?thesis using assms(2) by (simp only: ac_simps)
qed

lemma mset_exchange:
  assumes "x \<in> set xs" "new + {# x #} = mset c + {# h #}"
  shows "mset xs + new = mset (h # remove1 x xs) + mset c"
proof -
  have "mset xs = mset (remove1 x xs) + {# x #}" using assms(1) by simp
  then have "mset xs + new = mset (remove1 x xs) + (new + {# x #})" by (simp only: ac_simps)
  then show ?thesis unfolding assms(2) by simp
qed

lemma table_wf_update:
  assumes "table_wf info t" "t_length t' = t_length t" "chains_ok info (t_length t') (t_list t')"
    "t_elems t' = length (concat (t_list t'))" "inj_on info (members t')" "t_elems t' \<le> t_length t"
  shows "table_wf info t'"
  using assms by (simp add: table_wf_def)

lemma table_Remove_ok:
  assumes wf: "table_wf info t"
  shows "\<exists>r t'. table_Remove info key hash t = Inr (r, t') \<and> table_wf info t' \<and> members t' = members t - set_option r
    \<and> (\<forall>h. r = Some h \<longleftrightarrow> h \<in> members t \<and> info h = Some (key, hash))"
proof -
  let ?b = "bucket (t_length t) hash" let ?c = "t_list t ! ?b"
  obtain i where i: "?b < length (t_list t)" "FindPointer info key hash ?c = Inr i" "i \<le> length ?c"
    "\<forall>h. nth_opt ?c i = Some h \<longleftrightarrow> h \<in> members t \<and> info h = Some (key, hash)"
    by (rule table_find [OF wf refl refl])
  note tm = table_members [OF wf]
  have b: "?b < t_length t" using i(1) tm(6) by simp
  show ?thesis
  proof (cases "nth_opt ?c i")
    case None
    then show ?thesis using i wf by (simp add: table_Remove_def)
  next
    case (Some h)
    then have il: "i < length ?c" "?c ! i = h" by (auto simp: nth_opt_def split: if_splits)
    have h: "h \<in> members t" using i(4) Some by blast
    let ?new = "take i ?c @ drop (Suc i) ?c" and ?ms = "remove1 h (concat (t_list t))"
    let ?t = "t\<lparr> t_list := (t_list t)[?b := ?new], t_elems := length ?ms \<rparr>"
    have m: "mset (concat (t_list t)) + mset ?new = mset ?ms + mset ?c"
      using h tm(2) chain_delete [OF il(1)] il(2) by (intro mset_take_out) simp_all
    have "set ?new \<subseteq> set ?c" by (auto dest: in_set_takeD in_set_dropD)
    then have c: "\<forall>h \<in> set ?new. \<exists>k hash. info h = Some (k, hash) \<and> bucket (t_length t) hash = ?b"
      using chain_info [OF wf b] by blast
    have ms: "set ?ms = members t - {h}" "distinct ?ms" using tm(1,2) by simp_all
    have j: "inj_on info (set ?ms)" unfolding ms by (rule inj_on_subset [OF tm(4)]) blast
    note u = table_update [OF wf b m ms(2) c j]
    have len: "length ?ms = t_elems t - 1" using h tm(2,3) by (simp add: length_remove1)
    have "table_wf info ?t" using u tm(5) len by (intro table_wf_update [OF wf]) simp_all
    moreover have "table_Remove info key hash t = Inr (Some h, ?t)"
      using i(2) Some len by (simp add: table_Remove_def Let_def)
    ultimately show ?thesis using u(1) ms(1) i(4) Some by (intro exI conjI) auto
  qed
qed

lemma table_Insert_new:
  assumes wf: "table_wf info t" and b: "b = bucket (t_length t) hash" "b < t_length t"
    and h: "h \<notin> members t" "info h = Some (key, hash)" "\<forall>x \<in> members t. info x \<noteq> Some (key, hash)"
  defines "t' \<equiv> t\<lparr> t_list := (t_list t)[b := t_list t ! b @ [h]], t_elems := t_elems t + 1 \<rparr>"
  shows "members t' = insert h (members t)" "chains_ok info (t_length t') (t_list t')"
    "t_elems t' = length (concat (t_list t'))" "inj_on info (members t')"
proof -
  note tm = table_members [OF wf]
  let ?ms = "h # concat (t_list t)"
  have m: "mset (concat (t_list t)) + mset (t_list t ! b @ [h]) = mset ?ms + mset (t_list t ! b)" by simp
  have c: "\<forall>x \<in> set (t_list t ! b @ [h]). \<exists>k hash. info x = Some (k, hash) \<and> bucket (t_length t) hash = b"
    using chain_info [OF wf b(2)] h(2) b(1) by auto
  have ms: "set ?ms = insert h (members t)" "distinct ?ms"
    using tm(1,2) h(1) by (simp_all add: members_def)
  have j: "inj_on info (set ?ms)" unfolding ms using tm(4) h by (auto simp: inj_on_insert)
  have t': "t' = t\<lparr> t_list := (t_list t)[b := t_list t ! b @ [h]], t_elems := length ?ms \<rparr>"
    by (simp add: t'_def tm(3))
  note u = table_update [OF wf b(2) m ms(2) c j, folded t']
  show "members t' = insert h (members t)" using u(1) ms(1) by (rule trans)
  show "chains_ok info (t_length t') (t_list t')" "t_elems t' = length (concat (t_list t'))"
    "inj_on info (members t')"
    by (rule u)+
qed

lemma table_Insert_replace:
  assumes wf: "table_wf info t" and b: "b = bucket (t_length t) hash" "b < t_length t"
    and i: "i < length (t_list t ! b)" "t_list t ! b ! i = x"
    and h: "h \<notin> members t" "info h = Some (key, hash)" and x: "x \<in> members t" "info x = Some (key, hash)"
  defines "t' \<equiv> t\<lparr> t_list := (t_list t)[b := (t_list t ! b)[i := h]] \<rparr>"
  shows "members t' = insert h (members t - {x})" "table_wf info t'"
proof -
  note tm = table_members [OF wf]
  let ?c = "t_list t ! b"
  let ?new = "?c[i := h]" and ?ms = "h # remove1 x (concat (t_list t))"
  have m: "mset (concat (t_list t)) + mset ?new = mset ?ms + mset ?c"
    using x tm(2) chain_replace [OF i(1), of h] i(2) by (intro mset_exchange) simp_all
  have "set ?new \<subseteq> insert h (set ?c)" by (rule set_update_subset_insert)
  then have c: "\<forall>y \<in> set ?new. \<exists>k hash. info y = Some (k, hash) \<and> bucket (t_length t) hash = b"
    using chain_info [OF wf b(2)] h(2) b(1) by blast
  have ms: "set ?ms = insert h (members t - {x})" "distinct ?ms"
    using tm(1,2) h(1) by (simp_all add: members_def)
  have j: "inj_on info (set ?ms)" unfolding ms using tm(4) h x by (auto simp: inj_on_def)
  have "length ?ms = t_elems t"
    using x tm(2,3) length_pos_if_in_set [of x "concat (t_list t)"] by (simp add: length_remove1)
  then have t': "t' = t\<lparr> t_list := (t_list t)[b := ?new], t_elems := length ?ms \<rparr>"
    by (simp add: t'_def)
  note u = table_update [OF wf b(2) m ms(2) c j, folded t']
  show "members t' = insert h (members t - {x})" using u ms(1) by simp
  show "table_wf info t'"
    using u tm(5) by (intro table_wf_update [OF wf]) (simp_all add: t'_def)
qed

lemma table_Insert_ok:
  assumes wf: "table_wf info t" and h: "h \<notin> members t" "info h = Some (key, hash)"
  shows "\<exists>old t'. table_Insert info h t = Inr (old, t') \<and> table_wf info t'
    \<and> members t' = insert h (members t - set_option old)
    \<and> (\<forall>x. old = Some x \<longleftrightarrow> x \<in> members t \<and> info x = Some (key, hash))"
proof -
  let ?b = "bucket (t_length t) hash" let ?c = "t_list t ! ?b"
  obtain i where i: "?b < length (t_list t)" "FindPointer info key hash ?c = Inr i" "i \<le> length ?c"
    "\<forall>h. nth_opt ?c i = Some h \<longleftrightarrow> h \<in> members t \<and> info h = Some (key, hash)"
    by (rule table_find [OF wf refl refl])
  note tm = table_members [OF wf]
  have b: "?b < t_length t" using i(1) tm(6) by simp
  show ?thesis
  proof (cases "nth_opt ?c i")
    case None
    let ?t = "t\<lparr> t_list := (t_list t)[?b := ?c @ [h]], t_elems := t_elems t + 1 \<rparr>"
    have "\<forall>x \<in> members t. info x \<noteq> Some (key, hash)" using i(4) None by auto
    note n = table_Insert_new [OF wf refl b h this]
    obtain t1 where t1: "Resize info ?t = Inr t1" "table_wf info t1" "members t1 = members ?t"
      using Resize_ok [OF n(2,4,3)] by blast
    define t' where "t' = (if t_elems ?t > t_length ?t then t1 else ?t)"
    have "table_wf info t'"
    proof (cases "t_elems ?t > t_length ?t")
      case False
      then show ?thesis using n by (auto simp: t'_def intro!: table_wf_update [OF wf])
    qed (simp add: t'_def t1)
    moreover have "table_Insert info h t = Inr (None, t')"
      using i(2) None h(2) t1(1) by (simp add: table_Insert_def Let_def t'_def)
    moreover have "members t' = insert h (members t)" using n(1) t1(3) by (simp add: t'_def)
    ultimately show ?thesis using i(4) None by (intro exI conjI) auto
  next
    case (Some x)
    then have il: "i < length ?c" "?c ! i = x" by (auto simp: nth_opt_def split: if_splits)
    have x: "x \<in> members t" "info x = Some (key, hash)" using i(4) Some by blast+
    have "table_Insert info h t = Inr (Some x, t\<lparr> t_list := (t_list t)[?b := ?c[i := h]] \<rparr>)"
      using i(2) Some h(2) by (simp add: table_Insert_def Let_def)
    then show ?thesis
      using table_Insert_replace [OF wf refl b il h x] i(4) Some by (intro exI conjI) auto
  qed
qed

end
