(* ===== verification/LRU_Cache.thy ===== *)
theory LRU_Cache
  imports Handle_Table
begin

text \<open>
  The reference-counted cache \<open>LRUCache\<close> of \<open>ComponentsW/cache.leveldb/cache.cpp\<close>.
  The handles are in an explicit heap, because the client, the hash table and the lists
  share them; the circular lists \<open>lru_\<close> (oldest first) and \<open>in_use_\<close> are the lists of
  their handles.  A use of a freed handle is \<open>Dangling\<close> and a failed \<open>assert\<close> is
  \<open>CheckFailed\<close>.  The log \<open>deleted\<close> records the calls of the deleters.
\<close>

record handle =
  h_key :: string
  h_value :: nat
  charge :: "64 word"
  h_hash :: "32 word"
  in_cache :: bool
  refs :: nat

record cache =
  capacity :: "64 word"
  usage :: "64 word"
  lru :: "nat list"
  in_use :: "nat list"
  htable :: table
  heap :: "nat \<Rightarrow> handle option"
  fresh :: nat
  deleted :: "(nat \<times> string \<times> nat) list"

section \<open>Operations\<close>

definition info :: "cache \<Rightarrow> hinfo" where
  "info c a = map_option (\<lambda>e. (h_key e, h_hash e)) (heap c a)"

definition deref_handle :: "cache \<Rightarrow> nat \<Rightarrow> handle res" where
  "deref_handle c a = (case heap c a of None \<Rightarrow> Inl Dangling | Some e \<Rightarrow> Inr e)"

definition put_handle :: "nat \<Rightarrow> handle \<Rightarrow> cache \<Rightarrow> cache" where
  "put_handle a e c = c\<lparr> heap := (heap c)(a \<mapsto> e) \<rparr>"

definition LRUCache :: "64 word \<Rightarrow> cache" where
  "LRUCache cap =
     \<lparr> capacity = cap, usage = 0, lru = [], in_use = [], htable = HandleTable,
       heap = (\<lambda>_. None), fresh = 0, deleted = [] \<rparr>"

text \<open>A handle is unlinked from the list it is in.\<close>

definition LRU_Remove :: "nat \<Rightarrow> cache \<Rightarrow> cache" where
  "LRU_Remove a c = c\<lparr> lru := removeAll a (lru c), in_use := removeAll a (in_use c) \<rparr>"

definition Append_lru :: "nat \<Rightarrow> cache \<Rightarrow> cache" where
  "Append_lru a c = c\<lparr> lru := lru c @ [a] \<rparr>"

definition Append_in_use :: "nat \<Rightarrow> cache \<Rightarrow> cache" where
  "Append_in_use a c = c\<lparr> in_use := in_use c @ [a] \<rparr>"

definition Ref :: "nat \<Rightarrow> cache \<Rightarrow> cache res" where
  "Ref a c =
     res_bind (deref_handle c a) (\<lambda>e.
     let c = (if refs e = 1 \<and> in_cache e then Append_in_use a (LRU_Remove a c) else c) in
     Inr (put_handle a (e\<lparr> refs := refs e + 1 \<rparr>) c))"

definition Unref :: "nat \<Rightarrow> cache \<Rightarrow> cache res" where
  "Unref a c =
     res_bind (deref_handle c a) (\<lambda>e.
     if refs e = 0 then Inl CheckFailed
     else
       let e = e\<lparr> refs := refs e - 1 \<rparr>; c = put_handle a e c in
       if refs e = 0 then
         if in_cache e then Inl CheckFailed
         else Inr (c\<lparr> deleted := deleted c @ [(a, h_key e, h_value e)], heap := (heap c)(a := None) \<rparr>)
       else if in_cache e \<and> refs e = 1 then Inr (Append_lru a (LRU_Remove a c))
       else Inr c)"

definition FinishErase :: "nat option \<Rightarrow> cache \<Rightarrow> (bool \<times> cache) res" where
  "FinishErase e c =
     (case e of
        None \<Rightarrow> Inr (False, c)
      | Some a \<Rightarrow>
          res_bind (deref_handle c a) (\<lambda>e.
          if \<not> in_cache e then Inl CheckFailed
          else
            let c = put_handle a (e\<lparr> in_cache := False \<rparr>) (LRU_Remove a c);
                c = c\<lparr> usage := usage c - charge e \<rparr> in
            res_bind (Unref a c) (\<lambda>c. Inr (True, c))))"

definition Lookup :: "string \<Rightarrow> 32 word \<Rightarrow> cache \<Rightarrow> (nat option \<times> cache) res" where
  "Lookup key hash c =
     res_bind (table_Lookup (info c) key hash (htable c)) (\<lambda>e.
     case e of
       None \<Rightarrow> Inr (None, c)
     | Some a \<Rightarrow> res_bind (Ref a c) (\<lambda>c. Inr (Some a, c)))"

definition Release :: "nat \<Rightarrow> cache \<Rightarrow> cache res" where
  "Release a c = Unref a c"

definition Erase :: "string \<Rightarrow> 32 word \<Rightarrow> cache \<Rightarrow> cache res" where
  "Erase key hash c =
     res_bind (table_Remove (info c) key hash (htable c)) (\<lambda>(r, t).
     res_bind (FinishErase r (c\<lparr> htable := t \<rparr>)) (\<lambda>(_, c). Inr c))"

text \<open>The loops of \<open>Insert\<close> and \<open>Prune\<close>, while \<open>cond\<close> holds and \<open>lru_\<close> is not empty;
  the number bounds their rounds.\<close>

fun evict :: "nat \<Rightarrow> (cache \<Rightarrow> bool) \<Rightarrow> cache \<Rightarrow> cache res" where
  "evict n cond c =
     (if cond c \<and> lru c \<noteq> [] then
        case n of
          0 \<Rightarrow> Inl Diverges
        | Suc n \<Rightarrow>
            res_bind (deref_handle c (hd (lru c))) (\<lambda>old.
            if refs old \<noteq> 1 then Inl CheckFailed
            else
              res_bind (table_Remove (info c) (h_key old) (h_hash old) (htable c)) (\<lambda>(r, t).
              res_bind (FinishErase r (c\<lparr> htable := t \<rparr>)) (\<lambda>(erased, c).
              if \<not> erased then Inl CheckFailed else evict n cond c)))
      else Inr c)"

declare evict.simps [simp del]

definition Prune :: "cache \<Rightarrow> cache res" where
  "Prune c = evict (length (lru c)) (\<lambda>_. True) c"

text \<open>\<open>key_data\<close> is followed by seven bytes of padding and then by \<open>key_length\<close>, so that
  a key of more than eight bytes is copied over \<open>key_length\<close>.\<close>

definition new_handle ::
  "string \<Rightarrow> 32 word \<Rightarrow> nat \<Rightarrow> 64 word \<Rightarrow> cache \<Rightarrow> (nat \<times> cache) res" where
  "new_handle key hash value ch c =
     (if length key > 8 then Inl Overrun
      else
        let e = \<lparr> h_key = key, h_value = value, charge = ch, h_hash = hash, in_cache = False, refs = 1 \<rparr> in
        Inr (fresh c, put_handle (fresh c) e c\<lparr> fresh := Suc (fresh c) \<rparr>))"

definition Insert ::
  "string \<Rightarrow> 32 word \<Rightarrow> nat \<Rightarrow> 64 word \<Rightarrow> cache \<Rightarrow> (nat \<times> cache) res" where
  "Insert key hash value ch c =
     res_bind (new_handle key hash value ch c) (\<lambda>(a, c).
     res_bind (deref_handle c a) (\<lambda>e.
     res_bind
       (if capacity c > 0 then
          let c = Append_in_use a (put_handle a (e\<lparr> refs := refs e + 1, in_cache := True \<rparr>) c);
              c = c\<lparr> usage := usage c + ch \<rparr> in
          res_bind (table_Insert (info c) a (htable c)) (\<lambda>(old, t).
          res_bind (FinishErase old (c\<lparr> htable := t \<rparr>)) (\<lambda>(_, c). Inr c))
        else Inr c) (\<lambda>c.
     res_bind (evict (length (lru c)) (\<lambda>c. usage c > capacity c) c) (\<lambda>c. Inr (a, c)))))"

definition Value :: "nat \<Rightarrow> cache \<Rightarrow> nat res" where
  "Value a c = res_bind (deref_handle c a) (\<lambda>e. Inr (h_value e))"

fun drop_all :: "nat list \<Rightarrow> cache \<Rightarrow> cache res" where
  "drop_all [] c = Inr c"
| "drop_all (a # as) c =
     res_bind (deref_handle c a) (\<lambda>e.
     if \<not> in_cache e \<or> refs e \<noteq> 1 then Inl CheckFailed
     else res_bind (Unref a (put_handle a (e\<lparr> in_cache := False \<rparr>) c)) (\<lambda>c. drop_all as c))"

definition delete_cache :: "cache \<Rightarrow> cache res" where
  "delete_cache c = (if in_use c \<noteq> [] then Inl CheckFailed else drop_all (lru c) c)"

section \<open>The invariant\<close>

text \<open>\<open>ext a\<close> is the number of times the client holds the handle \<open>a\<close>, and \<open>M\<close> are the
  handles in the cache: each has one reference from the cache, and is in \<open>lru_\<close> when the
  client does not hold it.  Every handle that was allocated is alive or was deleted once.\<close>

definition log_ok :: "cache \<Rightarrow> bool" where
  "log_ok c = (distinct (map fst (deleted c)) \<and> fst ` set (deleted c) = {a. a < fresh c \<and> heap c a = None})"

definition handle_ok :: "nat set \<Rightarrow> (nat \<Rightarrow> nat) \<Rightarrow> cache \<Rightarrow> nat \<Rightarrow> bool" where
  "handle_ok M ext c a =
     (case heap c a of
        None \<Rightarrow> ext a = 0 \<and> a \<notin> M
      | Some e \<Rightarrow> a < fresh c \<and> refs e = ext a + of_bool (a \<in> M) \<and> 0 < refs e \<and> (in_cache e \<longleftrightarrow> a \<in> M)
          \<and> (a \<in> set (lru c) \<longleftrightarrow> a \<in> M \<and> ext a = 0))"

definition lists_ok :: "nat set \<Rightarrow> cache \<Rightarrow> bool" where
  "lists_ok M c = (distinct (lru c @ in_use c) \<and> set (lru c) \<union> set (in_use c) = M)"

definition cached_inv :: "nat set \<Rightarrow> (nat \<Rightarrow> nat) \<Rightarrow> cache \<Rightarrow> bool" where
  "cached_inv M ext c =
     (lists_ok M c \<and> (\<forall>a. handle_ok M ext c a) \<and> usage c = (\<Sum>a \<in> M. charge (the (heap c a))) \<and> log_ok c)"

definition cache_inv :: "(nat \<Rightarrow> nat) \<Rightarrow> cache \<Rightarrow> bool" where
  "cache_inv ext c = (cached_inv (members (htable c)) ext c \<and> table_wf (info c) (htable c))"

lemma cached_handle:
  assumes "cached_inv M ext c" "a \<in> M"
  obtains e where "heap c a = Some e" "in_cache e" "refs e = Suc (ext a)" "a < fresh c"
    "a \<in> set (lru c) \<longleftrightarrow> ext a = 0"
proof -
  have "handle_ok M ext c a" using assms(1) by (simp add: cached_inv_def)
  then show ?thesis using assms(2) that by (auto simp: handle_ok_def split: option.splits)
qed

lemma finite_cached: "cached_inv M ext c \<Longrightarrow> finite M"
  by (auto simp: cached_inv_def lists_ok_def)

text \<open>The effect of \<open>FinishErase\<close> on a handle in the cache.\<close>

definition erased :: "nat \<Rightarrow> handle \<Rightarrow> nat \<Rightarrow> cache \<Rightarrow> cache" where
  "erased a e k c = c\<lparr>
     lru := removeAll a (lru c), in_use := removeAll a (in_use c), usage := usage c - charge e,
     heap := (heap c)(a := if k = 0 then None else Some (e\<lparr> in_cache := False, refs := k \<rparr>)),
     deleted := deleted c @ (if k = 0 then [(a, h_key e, h_value e)] else []) \<rparr>"

lemma FinishErase_effect:
  assumes "heap c a = Some e" "in_cache e" "refs e = Suc k"
  shows "FinishErase (Some a) c = Inr (True, erased a e k c)"
  using assms
  by (cases "k = 0")
    (simp_all add: FinishErase_def Unref_def deref_handle_def put_handle_def LRU_Remove_def erased_def Let_def)

lemma erased_inv:
  assumes inv: "cached_inv M ext c" and a: "a \<in> M" "heap c a = Some e"
  shows "cached_inv (M - {a}) ext (erased a e (ext a) c)"
proof -
  let ?c = "erased a e (ext a) c"
  have lists: "lists_ok (M - {a}) ?c"
    using inv by (auto simp: cached_inv_def lists_ok_def erased_def distinct_removeAll)
  have "handle_ok (M - {a}) ext ?c x" for x
  proof -
    have "handle_ok M ext c x" "handle_ok M ext c a" using inv by (simp_all add: cached_inv_def)
    then show ?thesis using a
      by (cases "x = a") (auto simp: handle_ok_def erased_def split: option.splits)
  qed
  moreover have "usage ?c = (\<Sum>x \<in> M - {a}. charge (the (heap ?c x)))"
  proof -
    have "(\<Sum>x \<in> M. charge (the (heap c x))) = charge e + (\<Sum>x \<in> M - {a}. charge (the (heap c x)))"
      using finite_cached [OF inv] a by (simp add: sum.remove)
    moreover have "(\<Sum>x \<in> M - {a}. charge (the (heap ?c x))) = (\<Sum>x \<in> M - {a}. charge (the (heap c x)))"
      by (rule sum.cong) (auto simp: erased_def)
    ultimately show ?thesis using inv by (simp add: cached_inv_def erased_def)
  qed
  moreover have "log_ok ?c"
  proof -
    have "a < fresh c" using cached_handle [OF inv a(1)] by blast
    moreover have "a \<notin> fst ` set (deleted c)" using inv a(2) by (auto simp: cached_inv_def log_ok_def)
    ultimately show ?thesis using inv a(2) by (auto simp: cached_inv_def log_ok_def erased_def)
  qed
  ultimately show ?thesis using lists by (simp add: cached_inv_def)
qed

section \<open>Every operation keeps the invariant\<close>

lemma table_wf_cong:
  assumes "\<And>h. h \<in> members t \<Longrightarrow> f h = g h"
  shows "table_wf f t = table_wf g t"
proof -
  have "inj_on f (members t) = inj_on g (members t)" using assms by (intro inj_on_cong) auto
  moreover have "(\<forall>h \<in> set (t_list t ! i). \<exists>k hash. f h = Some (k, hash) \<and> bucket (t_length t) hash = i) =
      (\<forall>h \<in> set (t_list t ! i). \<exists>k hash. g h = Some (k, hash) \<and> bucket (t_length t) hash = i)"
    if "i < length (t_list t)" for i
  proof (intro ball_cong refl)
    fix h assume "h \<in> set (t_list t ! i)"
    then have "f h = g h" using assms nth_mem [OF that] by (auto simp: members_def)
    then show "(\<exists>k hash. f h = Some (k, hash) \<and> bucket (t_length t) hash = i) =
        (\<exists>k hash. g h = Some (k, hash) \<and> bucket (t_length t) hash = i)" by simp
  qed
  ultimately show ?thesis by (auto simp: table_wf_def chains_ok_def)
qed

lemma info_htable [simp]: "info (c\<lparr> htable := t \<rparr>) = info c"
  by (simp add: info_def fun_eq_iff)

lemma cached_inv_htable [simp]: "cached_inv M ext (c\<lparr> htable := t \<rparr>) = cached_inv M ext c"
proof -
  have "handle_ok M ext (c\<lparr> htable := t \<rparr>) a = handle_ok M ext c a" for a
    by (cases "heap c a") (simp_all add: handle_ok_def)
  then show ?thesis by (simp add: cached_inv_def lists_ok_def log_ok_def)
qed

lemma cache_invD:
  assumes "cache_inv ext c"
  shows "cached_inv (members (htable c)) ext c" "table_wf (info c) (htable c)"
  using assms by (simp_all add: cache_inv_def)

text \<open>A call of \<open>FinishErase\<close> on what the table gave up, before or after an insertion: the
  client's handles and the entries of other keys stay as they are.\<close>

definition untouched :: "nat set \<Rightarrow> cache \<Rightarrow> cache \<Rightarrow> bool" where
  "untouched A c c' =
     ((\<forall>x. x \<notin> A \<longrightarrow> heap c' x = heap c x) \<and> capacity c' = capacity c \<and> fresh c' = fresh c)"

definition held_values :: "(nat \<Rightarrow> nat) \<Rightarrow> cache \<Rightarrow> cache \<Rightarrow> bool" where
  "held_values ext c c' = (\<forall>x. 0 < ext x \<longrightarrow> map_option h_value (heap c' x) = map_option h_value (heap c x))"

lemma FinishErase_ok:
  assumes inv: "cached_inv M ext c" and t: "table_wf (info c) (htable c)" "members (htable c) = M - set_option r"
    and r: "set_option r \<subseteq> M"
  shows "\<exists>c'. FinishErase r c = Inr (r \<noteq> None, c') \<and> cache_inv ext c' \<and> htable c' = htable c
    \<and> untouched (set_option r) c c' \<and> lru c' = filter (\<lambda>x. x \<notin> set_option r) (lru c)
    \<and> held_values ext c c'"
proof (cases r)
  case None
  then show ?thesis using inv t by (simp add: FinishErase_def cache_inv_def untouched_def held_values_def)
next
  case (Some a)
  then have a: "a \<in> M" using r by simp
  obtain e where e: "heap c a = Some e" "in_cache e" "refs e = Suc (ext a)" "a < fresh c"
    "a \<in> set (lru c) \<longleftrightarrow> ext a = 0"
    by (rule cached_handle [OF inv a])
  let ?c = "erased a e (ext a) c"
  have "cached_inv (M - {a}) ext ?c" by (rule erased_inv [OF inv a e(1)])
  moreover have "table_wf (info ?c) (htable c)"
    using t Some by (subst table_wf_cong [of _ _ "info c"]) (auto simp: erased_def info_def)
  moreover have "htable ?c = htable c" by (simp add: erased_def)
  ultimately have "cache_inv ext ?c" using t(2) Some by (simp add: cache_inv_def)
  then show ?thesis
    using FinishErase_effect [OF e(1-3)] Some
    by (intro exI [of _ ?c]) (auto simp: erased_def untouched_def held_values_def e(1) removeAll_filter_not_eq intro: filter_cong)
qed

lemma remove_ok:
  assumes inv: "cache_inv ext c"
  shows "\<exists>r t c'. table_Remove (info c) key hash (htable c) = Inr (r, t)
    \<and> FinishErase r (c\<lparr> htable := t \<rparr>) = Inr (r \<noteq> None, c') \<and> cache_inv ext c'
    \<and> members (htable c') = members (htable c) - set_option r
    \<and> (\<forall>h. r = Some h \<longleftrightarrow> h \<in> members (htable c) \<and> info c h = Some (key, hash))
    \<and> untouched (set_option r) c c' \<and> lru c' = filter (\<lambda>x. x \<notin> set_option r) (lru c)
    \<and> held_values ext c c'"
proof -
  note i = cache_invD [OF inv]
  obtain r t where t: "table_Remove (info c) key hash (htable c) = Inr (r, t)" "table_wf (info c) t"
    "members t = members (htable c) - set_option r"
    "\<forall>h. r = Some h \<longleftrightarrow> h \<in> members (htable c) \<and> info c h = Some (key, hash)"
    using table_Remove_ok [OF i(2), of key hash] by blast
  have "set_option r \<subseteq> members (htable c)" using t(4) by (cases r) auto
  then obtain c' where "FinishErase r (c\<lparr> htable := t \<rparr>) = Inr (r \<noteq> None, c')" "cache_inv ext c'" "htable c' = t"
    "untouched (set_option r) (c\<lparr> htable := t \<rparr>) c'" "lru c' = filter (\<lambda>x. x \<notin> set_option r) (lru c)"
    "held_values ext (c\<lparr> htable := t \<rparr>) c'"
    using FinishErase_ok [of "members (htable c)" ext "c\<lparr> htable := t \<rparr>" r] i(1) t(2,3) by auto
  then show ?thesis using t by (intro exI conjI) (auto simp: untouched_def held_values_def)
qed

lemma Erase_ok:
  assumes "cache_inv ext c"
  shows "\<exists>r c'. Erase key hash c = Inr c' \<and> cache_inv ext c'
    \<and> members (htable c') = members (htable c) - set_option r
    \<and> (\<forall>h. r = Some h \<longleftrightarrow> h \<in> members (htable c) \<and> info c h = Some (key, hash))
    \<and> untouched (set_option r) c c' \<and> held_values ext c c'"
  using remove_ok [OF assms, of key hash] by (elim exE conjE) (intro exI conjI; simp add: Erase_def)

lemma evict_ok:
  assumes "cache_inv ext c" "length (lru c) \<le> n"
  shows "\<exists>c' A. evict n cond c = Inr c' \<and> cache_inv ext c' \<and> A \<subseteq> members (htable c) \<and> (\<forall>a \<in> A. ext a = 0)
    \<and> members (htable c') = members (htable c) - A \<and> untouched A c c' \<and> (\<not> cond c' \<or> lru c' = [])"
  using assms
proof (induction n arbitrary: c)
  case 0
  then show ?case by (intro exI [of _ c] exI [of _ "{}"]) (subst evict.simps, simp add: untouched_def)
next
  case (Suc n)
  show ?case
  proof (cases "cond c \<and> lru c \<noteq> []")
    case False
    then show ?thesis using Suc.prems
      by (intro exI [of _ c] exI [of _ "{}"]) (subst evict.simps, auto simp: untouched_def)
  next
    case True
    let ?a = "hd (lru c)"
    note i = cache_invD [OF Suc.prems(1)]
    have al: "?a \<in> set (lru c)" using True by simp
    then have am: "?a \<in> members (htable c)" using i(1) by (auto simp: cached_inv_def lists_ok_def)
    obtain e where e: "heap c ?a = Some e" "in_cache e" "refs e = Suc (ext ?a)" "?a < fresh c"
      "?a \<in> set (lru c) \<longleftrightarrow> ext ?a = 0"
      by (rule cached_handle [OF i(1) am])
    obtain r t c1 where r: "table_Remove (info c) (h_key e) (h_hash e) (htable c) = Inr (r, t)"
      "FinishErase r (c\<lparr> htable := t \<rparr>) = Inr (r \<noteq> None, c1)" "cache_inv ext c1"
      "members (htable c1) = members (htable c) - set_option r"
      "\<forall>h. r = Some h \<longleftrightarrow> h \<in> members (htable c) \<and> info c h = Some (h_key e, h_hash e)"
      "untouched (set_option r) c c1" "lru c1 = filter (\<lambda>x. x \<notin> set_option r) (lru c)"
      using remove_ok [OF Suc.prems(1), of "h_key e" "h_hash e"] by blast
    have ra: "r = Some ?a" using r(5) am e(1) by (simp add: info_def)
    have "length (lru c1) < length (lru c)" using r(7) ra al by (auto intro: length_filter_less)
    then obtain c' A where c': "evict n cond c1 = Inr c'" "cache_inv ext c'" "A \<subseteq> members (htable c1)"
      "\<forall>a \<in> A. ext a = 0" "members (htable c') = members (htable c1) - A" "untouched A c1 c'"
      "\<not> cond c' \<or> lru c' = []"
      using Suc.IH [OF r(3)] Suc.prems(2) by auto
    have "evict (Suc n) cond c = Inr c'"
      using True e al r(1,2) ra c'(1) by (subst evict.simps) (simp add: deref_handle_def)
    then show ?thesis
      using c' r(4,6) ra am al e(5)
      by (intro exI [of _ c'] exI [of _ "insert ?a A"]) (auto simp: untouched_def)
  qed
qed

text \<open>The client takes and gives back handles.\<close>

lemma Ref_ok:
  assumes inv: "cache_inv ext c" and a: "a \<in> members (htable c)"
  shows "\<exists>c'. Ref a c = Inr c' \<and> cache_inv (ext(a := Suc (ext a))) c' \<and> htable c' = htable c
    \<and> info c' = info c \<and> (\<forall>x. map_option h_value (heap c' x) = map_option h_value (heap c x))
    \<and> capacity c' = capacity c \<and> usage c' = usage c"
proof -
  note i = cache_invD [OF inv]
  let ?M = "members (htable c)"
  obtain e where e: "heap c a = Some e" "in_cache e" "refs e = Suc (ext a)" "a < fresh c"
    "a \<in> set (lru c) \<longleftrightarrow> ext a = 0"
    by (rule cached_handle [OF i(1) a])
  define c' where "c' = put_handle a (e\<lparr> refs := refs e + 1 \<rparr>)
    (if ext a = 0 then Append_in_use a (LRU_Remove a c) else c)"
  have h: "heap c' = (heap c)(a \<mapsto> e\<lparr> refs := Suc (Suc (ext a)) \<rparr>)" "htable c' = htable c" "fresh c' = fresh c"
    "deleted c' = deleted c" "usage c' = usage c" "capacity c' = capacity c" "lru c' = removeAll a (lru c)"
    using e(3,5) by (auto simp: c'_def put_handle_def Append_in_use_def LRU_Remove_def)
  have l: "lists_ok ?M c'"
    using i(1) a by (auto simp: c'_def cached_inv_def lists_ok_def put_handle_def Append_in_use_def
        LRU_Remove_def distinct_removeAll)
  have inf: "info c' = info c" using e(1) by (auto simp: info_def h(1))
  have "handle_ok ?M (ext(a := Suc (ext a))) c' x" for x
  proof -
    have "handle_ok ?M ext c x" using i(1) by (simp add: cached_inv_def)
    then show ?thesis using e a
      by (cases "x = a") (auto simp: handle_ok_def h split: option.splits)
  qed
  moreover have "usage c' = (\<Sum>x \<in> ?M. charge (the (heap c' x)))"
    using i(1) e(1) by (auto simp: h cached_inv_def intro!: sum.cong)
  moreover have "log_ok c'" using i(1) e(1) by (auto simp: h cached_inv_def log_ok_def)
  ultimately have "cache_inv (ext(a := Suc (ext a))) c'"
    using i(2) l by (simp add: cache_inv_def cached_inv_def h(2) inf)
  moreover have "Ref a c = Inr c'" using e(1-3) by (simp add: Ref_def deref_handle_def c'_def)
  ultimately show ?thesis using h e(1) inf by (intro exI [of _ c']) auto
qed

lemma Lookup_ok:
  assumes inv: "cache_inv ext c"
  shows "\<exists>r c'. Lookup key hash c = Inr (r, c') \<and> (\<forall>h. r = Some h \<longleftrightarrow> h \<in> members (htable c) \<and> info c h = Some (key, hash))
    \<and> cache_inv (\<lambda>x. ext x + of_bool (r = Some x)) c' \<and> htable c' = htable c \<and> info c' = info c
    \<and> (\<forall>x. map_option h_value (heap c' x) = map_option h_value (heap c x))"
proof -
  obtain r where r: "table_Lookup (info c) key hash (htable c) = Inr r"
    "\<forall>h. r = Some h \<longleftrightarrow> h \<in> members (htable c) \<and> info c h = Some (key, hash)"
    by (rule table_Lookup_ok [OF cache_invD(2) [OF inv]])
  show ?thesis
  proof (cases r)
    case None
    then show ?thesis using r inv by (intro exI [of _ r] exI [of _ c]) (simp add: Lookup_def)
  next
    case (Some a)
    then have a: "a \<in> members (htable c)" using r(2) by blast
    obtain c' where "Ref a c = Inr c'" "cache_inv (ext(a := Suc (ext a))) c'" "htable c' = htable c"
      "info c' = info c" "\<forall>x. map_option h_value (heap c' x) = map_option h_value (heap c x)"
      using Ref_ok [OF inv a] by blast
    moreover have "(\<lambda>x. ext x + of_bool (r = Some x)) = ext(a := Suc (ext a))" using Some by auto
    ultimately show ?thesis
      using r Some by (intro exI [of _ r] exI [of _ c']) (simp add: Lookup_def)
  qed
qed

lemma Release_ok:
  assumes inv: "cache_inv ext c" and a: "0 < ext a"
  shows "\<exists>c'. Release a c = Inr c' \<and> cache_inv (ext(a := ext a - 1)) c' \<and> htable c' = htable c
    \<and> untouched {a} c c' \<and> (a \<in> members (htable c) \<longrightarrow> info c' a = info c a)"
proof -
  note i = cache_invD [OF inv]
  let ?M = "members (htable c)" and ?ext = "ext(a := ext a - 1)"
  have ok: "handle_ok ?M ext c a" using i(1) by (simp add: cached_inv_def)
  then obtain e where e: "heap c a = Some e" "refs e = ext a + of_bool (a \<in> ?M)" "in_cache e \<longleftrightarrow> a \<in> ?M"
    "a < fresh c" "a \<notin> set (lru c)"
    using a by (auto simp: handle_ok_def split: option.splits)
  let ?dead = "a \<notin> ?M \<and> ext a = 1"
  define c' where "c' = c\<lparr>
    lru := (if a \<in> ?M \<and> ext a = 1 then lru c @ [a] else lru c),
    in_use := (if a \<in> ?M \<and> ext a = 1 then removeAll a (in_use c) else in_use c),
    heap := (heap c)(a := if ?dead then None else Some (e\<lparr> refs := refs e - 1 \<rparr>)),
    deleted := deleted c @ (if ?dead then [(a, h_key e, h_value e)] else []) \<rparr>"
  have r: "Release a c = Inr c'"
    using a e by (auto simp: Release_def Unref_def deref_handle_def c'_def put_handle_def Append_lru_def
        LRU_Remove_def Let_def removeAll_id)
  have l: "lists_ok ?M c'"
    using i(1) e(5) by (auto simp: c'_def cached_inv_def lists_ok_def distinct_removeAll)
  have "handle_ok ?M ?ext c' x" for x
  proof -
    have "handle_ok ?M ext c x" using i(1) by (simp add: cached_inv_def)
    then show ?thesis using e a
      by (cases "x = a") (auto simp: handle_ok_def c'_def split: option.splits if_splits)
  qed
  moreover have "usage c' = (\<Sum>x \<in> ?M. charge (the (heap c' x)))"
    using i(1) e(1) by (auto simp: c'_def cached_inv_def intro!: sum.cong)
  moreover have "log_ok c'"
  proof -
    have "a \<notin> fst ` set (deleted c)" using i(1) e(1) by (auto simp: cached_inv_def log_ok_def)
    then show ?thesis using i(1) e(1,4) by (auto simp: c'_def cached_inv_def log_ok_def)
  qed
  moreover have "table_wf (info c') (htable c)"
    using i(2) e(1) by (subst table_wf_cong [of _ _ "info c"]) (auto simp: info_def c'_def)
  moreover have "htable c' = htable c" by (simp add: c'_def)
  ultimately have "cache_inv ?ext c'" using l by (simp add: cache_inv_def cached_inv_def)
  then show ?thesis
    using r e(1) by (intro exI [of _ c']) (auto simp: c'_def untouched_def info_def)
qed

text \<open>A new handle, and the same handle in the cache.\<close>

lemma unallocated:
  assumes "cached_inv M ext c"
  shows "heap c (fresh c) = None" "ext (fresh c) = 0" "fresh c \<notin> M"
proof -
  have "handle_ok M ext c (fresh c)" using assms by (simp add: cached_inv_def)
  then show "heap c (fresh c) = None" "ext (fresh c) = 0" "fresh c \<notin> M"
    by (auto simp: handle_ok_def split: option.splits)
qed

lemma new_handle_ok:
  assumes inv: "cache_inv ext c" and key: "length key \<le> 8"
  shows "\<exists>c'. new_handle key hash v ch c = Inr (fresh c, c') \<and> cache_inv (ext(fresh c := 1)) c'
    \<and> heap c' = (heap c)(fresh c \<mapsto> \<lparr> h_key = key, h_value = v, charge = ch, h_hash = hash, in_cache = False, refs = 1 \<rparr>)
    \<and> htable c' = htable c \<and> capacity c' = capacity c \<and> fresh c' = Suc (fresh c) \<and> usage c' = usage c"
proof -
  let ?a = "fresh c" and ?M = "members (htable c)"
  let ?e = "\<lparr> h_key = key, h_value = v, charge = ch, h_hash = hash, in_cache = False, refs = 1 \<rparr>"
  define c' where "c' = put_handle ?a ?e c\<lparr> fresh := Suc ?a \<rparr>"
  note i = cache_invD [OF inv] and n = unallocated [OF cache_invD(1) [OF inv]]
  have h: "heap c' = (heap c)(?a \<mapsto> ?e)" "htable c' = htable c" "fresh c' = Suc ?a" "deleted c' = deleted c"
    "usage c' = usage c" "capacity c' = capacity c" "lru c' = lru c" "in_use c' = in_use c"
    by (simp_all add: c'_def put_handle_def)
  have "?a \<notin> set (lru c)" using i(1) n(3) by (auto simp: cached_inv_def lists_ok_def)
  then have "handle_ok ?M (ext(?a := 1)) c' x" for x
  proof -
    have "handle_ok ?M ext c x" using i(1) by (simp add: cached_inv_def)
    then show ?thesis using n \<open>?a \<notin> set (lru c)\<close>
      by (cases "x = ?a") (auto simp: handle_ok_def h split: option.splits)
  qed
  moreover have "usage c' = (\<Sum>x \<in> ?M. charge (the (heap c' x)))"
    using i(1) n(3) by (auto simp: h cached_inv_def intro!: sum.cong)
  moreover have "log_ok c'" using i(1) n(1) by (auto simp: h cached_inv_def log_ok_def less_Suc_eq)
  moreover have "lists_ok ?M c'" using i(1) by (simp add: cached_inv_def lists_ok_def h)
  moreover have "table_wf (info c') (htable c)"
    using i(2) n(3) by (subst table_wf_cong [of _ _ "info c"]) (auto simp: info_def h)
  ultimately have "cache_inv (ext(?a := 1)) c'" by (simp add: cache_inv_def cached_inv_def h(2))
  moreover have "new_handle key hash v ch c = Inr (?a, c')" using key by (simp add: new_handle_def c'_def)
  ultimately show ?thesis using h by (intro exI [of _ c']) simp
qed

lemma cached_new_handle:
  assumes inv: "cache_inv ext c" and a: "heap c a = Some e" "\<not> in_cache e" "ext a = 1"
    and e': "e' = e\<lparr> refs := refs e + 1, in_cache := True \<rparr>"
    and c': "c' = (Append_in_use a (put_handle a e' c))\<lparr> usage := usage c + charge e \<rparr>"
  shows "cached_inv (insert a (members (htable c))) ext c'" "a \<notin> members (htable c)"
    "table_wf (info c') (htable c)" "info c' = info c"
proof -
  let ?M = "members (htable c)"
  note i = cache_invD [OF inv]
  have ok: "handle_ok ?M ext c a" using i(1) by (simp add: cached_inv_def)
  then show am: "a \<notin> ?M" using a by (auto simp: handle_ok_def)
  then have al: "a \<notin> set (lru c)" "a \<notin> set (in_use c)" using i(1) by (auto simp: cached_inv_def lists_ok_def)
  have h: "heap c' = (heap c)(a \<mapsto> e')" "fresh c' = fresh c" "deleted c' = deleted c" "lru c' = lru c"
    "usage c' = usage c + charge e" "in_use c' = in_use c @ [a]"
    by (simp_all add: c' Append_in_use_def put_handle_def)
  show inf: "info c' = info c" using a(1) by (auto simp: info_def h e')
  then show "table_wf (info c') (htable c)" using i(2) by simp
  have "handle_ok (insert a ?M) ext c' x" for x
  proof -
    have "handle_ok ?M ext c x" using i(1) by (simp add: cached_inv_def)
    then show ?thesis using ok a al am
      by (cases "x = a") (auto simp: handle_ok_def h e' split: option.splits)
  qed
  moreover have "usage c' = (\<Sum>x \<in> insert a ?M. charge (the (heap c' x)))"
  proof -
    have "(\<Sum>x \<in> ?M. charge (the (heap c' x))) = (\<Sum>x \<in> ?M. charge (the (heap c x)))"
      using am by (intro sum.cong) (auto simp: h)
    then show ?thesis using i(1) am finite_cached [OF i(1)] by (simp add: h cached_inv_def e')
  qed
  moreover have "log_ok c'" using i(1) a(1) by (auto simp: h cached_inv_def log_ok_def)
  moreover have "lists_ok (insert a ?M) c'" using i(1) al by (auto simp: h cached_inv_def lists_ok_def)
  ultimately show "cached_inv (insert a ?M) ext c'" by (simp add: cached_inv_def)
qed

lemma insert_in_table:
  assumes inv: "cache_inv ext c" and a: "heap c a = Some e" "\<not> in_cache e" "ext a = 1"
    and key: "h_key e = key" "h_hash e = hash" "charge e = ch"
  defines "c1 \<equiv> (Append_in_use a (put_handle a (e\<lparr> refs := refs e + 1, in_cache := True \<rparr>) c))\<lparr> usage := usage c + ch \<rparr>"
  shows "\<exists>old t c'. table_Insert (info c1) a (htable c1) = Inr (old, t)
    \<and> FinishErase old (c1\<lparr> htable := t \<rparr>) = Inr (old \<noteq> None, c') \<and> cache_inv ext c'
    \<and> members (htable c') = insert a (members (htable c) - set_option old)
    \<and> (\<forall>x. old = Some x \<longleftrightarrow> x \<in> members (htable c) \<and> info c x = Some (key, hash))
    \<and> untouched (set_option old) c1 c' \<and> held_values ext c1 c'"
proof -
  let ?M = "members (htable c)"
  have "c1 = (Append_in_use a (put_handle a (e\<lparr> refs := refs e + 1, in_cache := True \<rparr>) c))\<lparr> usage := usage c + charge e \<rparr>"
    by (simp add: c1_def key(3))
  note n = cached_new_handle [OF inv a refl this]
  have ht: "htable c1 = htable c" by (simp add: c1_def Append_in_use_def put_handle_def)
  have ia: "info c1 a = Some (key, hash)" using a(1) key by (simp add: n(4) info_def)
  obtain old t where t: "table_Insert (info c1) a (htable c) = Inr (old, t)" "table_wf (info c1) t"
    "members t = insert a (?M - set_option old)"
    "\<forall>x. old = Some x \<longleftrightarrow> x \<in> ?M \<and> info c1 x = Some (key, hash)"
    using table_Insert_ok [OF n(3,2) ia] by blast
  have sub: "set_option old \<subseteq> ?M" using t(4) by (cases old) auto
  then have m: "members t = insert a ?M - set_option old" using t(3) n(2) by auto
  obtain c' where "FinishErase old (c1\<lparr> htable := t \<rparr>) = Inr (old \<noteq> None, c')" "cache_inv ext c'" "htable c' = t"
    "untouched (set_option old) (c1\<lparr> htable := t \<rparr>) c'"
    "held_values ext (c1\<lparr> htable := t \<rparr>) c'"
    using FinishErase_ok [of "insert a ?M" ext "c1\<lparr> htable := t \<rparr>" old] n(1) t(2) m sub by auto
  then show ?thesis using t(1,3,4) ht n(4) by (intro exI conjI) (auto simp: untouched_def held_values_def)
qed

lemma Insert_ok:
  assumes inv: "cache_inv ext c" and key: "length key \<le> 8"
  shows "\<exists>c' A. Insert key hash v ch c = Inr (fresh c, c') \<and> cache_inv (ext(fresh c := 1)) c'
    \<and> A \<subseteq> members (htable c) \<and> (\<forall>x \<in> A. ext x = 0 \<or> info c x = Some (key, hash))
    \<and> members (htable c') = (if capacity c > 0 then insert (fresh c) (members (htable c) - A) else members (htable c) - A)
    \<and> (0 < capacity c \<longrightarrow> (\<forall>x \<in> members (htable c) - A. info c x \<noteq> Some (key, hash)))
    \<and> (\<forall>x. x \<notin> insert (fresh c) A \<longrightarrow> heap c' x = heap c x)
    \<and> info c' (fresh c) = Some (key, hash) \<and> map_option h_value (heap c' (fresh c)) = Some v
    \<and> (\<not> usage c' > capacity c' \<or> lru c' = []) \<and> held_values ext c c'"
proof -
  let ?a = "fresh c" and ?M = "members (htable c)" and ?ext = "ext(fresh c := 1)"
  let ?e = "\<lparr> h_key = key, h_value = v, charge = ch, h_hash = hash, in_cache = False, refs = 1 \<rparr>"
  note n = unallocated [OF cache_invD(1) [OF inv]]
  obtain c0 where c0: "new_handle key hash v ch c = Inr (?a, c0)" "cache_inv ?ext c0"
    "heap c0 = (heap c)(?a \<mapsto> ?e)" "htable c0 = htable c" "capacity c0 = capacity c" "fresh c0 = Suc ?a"
    using new_handle_ok [OF inv key] by blast
  let ?c1 = "(Append_in_use ?a (put_handle ?a (?e\<lparr> refs := refs ?e + 1, in_cache := True \<rparr>) c0))\<lparr> usage := usage c0 + ch \<rparr>"
  have info0: "x \<noteq> ?a \<Longrightarrow> info c0 x = info c x" for x by (simp add: info_def c0(3))
  define body where "body = (if capacity c0 > 0 then
      res_bind (table_Insert (info ?c1) ?a (htable ?c1)) (\<lambda>(old, t).
      res_bind (FinishErase old (?c1\<lparr> htable := t \<rparr>)) (\<lambda>(_, c). Inr c)) else Inr c0)"
  have "\<exists>c2 B. body = Inr c2 \<and> cache_inv ?ext c2 \<and> B \<subseteq> ?M \<and> (\<forall>x \<in> B. info c x = Some (key, hash))
      \<and> members (htable c2) = (if capacity c > 0 then insert ?a (?M - B) else ?M - B)
      \<and> (0 < capacity c \<longrightarrow> (\<forall>x \<in> ?M - B. info c x \<noteq> Some (key, hash)))
      \<and> (\<forall>x. x \<notin> insert ?a B \<longrightarrow> heap c2 x = heap c x) \<and> capacity c2 = capacity c
      \<and> info c2 ?a = Some (key, hash) \<and> map_option h_value (heap c2 ?a) = Some v \<and> held_values ext c c2"
  proof (cases "capacity c > 0")
    case False
    then show ?thesis using c0
      by (intro exI [of _ c0] exI [of _ "{}"]) (auto simp: body_def info_def held_values_def n(2))
  next
    case True
    obtain old t c2 where c2: "table_Insert (info ?c1) ?a (htable ?c1) = Inr (old, t)"
      "FinishErase old (?c1\<lparr> htable := t \<rparr>) = Inr (old \<noteq> None, c2)" "cache_inv ?ext c2"
      "members (htable c2) = insert ?a (?M - set_option old)"
      "\<forall>x. old = Some x \<longleftrightarrow> x \<in> ?M \<and> info c0 x = Some (key, hash)"
      "untouched (set_option old) ?c1 c2" "held_values ?ext ?c1 c2"
      using insert_in_table [OF c0(2), of ?a ?e key hash ch] c0(3,4) by auto
    have old: "x \<in> set_option old \<longleftrightarrow> x \<in> ?M \<and> info c x = Some (key, hash)" for x
      using c2(5) info0 [of x] n(3) by (cases "x = ?a") (auto simp: elem_set)
    have h: "heap c2 x = (if x = ?a then Some (?e\<lparr> refs := 2, in_cache := True \<rparr>) else heap c x)"
      if "x \<notin> set_option old" for x
      using c2(6) that by (simp add: untouched_def Append_in_use_def put_handle_def c0(3))
    have "?a \<notin> set_option old" using old n(3) by blast
    then have "info c2 ?a = Some (key, hash)" "map_option h_value (heap c2 ?a) = Some v"
      using h [of ?a] by (simp_all add: info_def)
    moreover have "capacity c2 = capacity c"
      using c2(6) c0(5) by (simp add: untouched_def Append_in_use_def put_handle_def)
    moreover have "held_values ext c c2"
      using c2(7) n(2) by (auto simp: held_values_def Append_in_use_def put_handle_def c0(3) split: if_splits)
    moreover have "body = Inr c2" using True c2(1,2) c0(5) by (simp add: body_def)
    ultimately show ?thesis
      using True c2(3,4) old h by (intro exI [of _ c2] exI [of _ "set_option old"]) auto
  qed
  then obtain c2 B where c2: "body = Inr c2" "cache_inv ?ext c2" "B \<subseteq> ?M" "\<forall>x \<in> B. info c x = Some (key, hash)"
    "members (htable c2) = (if capacity c > 0 then insert ?a (?M - B) else ?M - B)"
    "0 < capacity c \<longrightarrow> (\<forall>x \<in> ?M - B. info c x \<noteq> Some (key, hash))"
    "\<forall>x. x \<notin> insert ?a B \<longrightarrow> heap c2 x = heap c x" "capacity c2 = capacity c"
    "info c2 ?a = Some (key, hash)" "map_option h_value (heap c2 ?a) = Some v" "held_values ext c c2"
    by blast
  obtain c' A where c': "evict (length (lru c2)) (\<lambda>c. usage c > capacity c) c2 = Inr c'" "cache_inv ?ext c'"
    "A \<subseteq> members (htable c2)" "\<forall>x \<in> A. ?ext x = 0" "members (htable c') = members (htable c2) - A"
    "untouched A c2 c'" "\<not> usage c' > capacity c' \<or> lru c' = []"
    using evict_ok [OF c2(2) order.refl, of "\<lambda>c. usage c > capacity c"] by auto
  have "usage (Append_in_use a (put_handle a e c)) = usage c" for a e c
    by (simp add: Append_in_use_def put_handle_def)
  then have "Insert key hash v ch c =
      res_bind body (\<lambda>c. res_bind (evict (length (lru c)) (\<lambda>c. usage c > capacity c) c) (\<lambda>c. Inr (?a, c)))"
    by (simp add: Insert_def c0(1,3) deref_handle_def body_def Let_def)
  then have "Insert key hash v ch c = Inr (?a, c')" using c2(1) c'(1) by simp
  moreover have aA: "?a \<notin> A" using c'(4) by auto
  moreover have "held_values ext c c'"
  proof -
    have "x \<notin> A" if "0 < ext x" for x
      using that c'(4) n(2) by (auto simp: fun_upd_def split: if_splits)
    then show ?thesis using c2(11) c'(6) by (simp add: held_values_def untouched_def)
  qed
  ultimately show ?thesis
    using c2 c' n(3)
    by (intro exI [of _ c'] exI [of _ "A \<union> B"]) (auto simp: untouched_def info_def split: if_splits)
qed

lemma Prune_ok:
  assumes "cache_inv ext c"
  shows "\<exists>c'. Prune c = Inr c' \<and> cache_inv ext c' \<and> lru c' = []"
  using evict_ok [OF assms order.refl, of "\<lambda>_. True"] by (auto simp: Prune_def)

lemma drop_all_ok:
  assumes "distinct as" "\<forall>x. case heap c x of None \<Rightarrow> x \<notin> set as | Some e \<Rightarrow> x \<in> set as \<and> in_cache e \<and> refs e = 1 \<and> x < fresh c"
    and "log_ok c"
  shows "\<exists>c'. drop_all as c = Inr c' \<and> log_ok c' \<and> (\<forall>x. heap c' x = None) \<and> fresh c' = fresh c"
  using assms
proof (induction as arbitrary: c)
  case Nil
  have "heap c x = None" for x using Nil(2) [rule_format, of x] by (auto split: option.splits)
  then show ?case using Nil(3) by simp
next
  case (Cons a as)
  obtain e where e: "heap c a = Some e" "in_cache e" "refs e = 1" "a < fresh c"
    using Cons.prems(2) [rule_format, of a] by (auto split: option.splits)
  let ?c = "c\<lparr> deleted := deleted c @ [(a, h_key e, h_value e)], heap := (heap c)(a := None) \<rparr>"
  have "drop_all (a # as) c = drop_all as ?c"
    using e by (simp add: deref_handle_def Unref_def put_handle_def Let_def)
  moreover have "log_ok ?c"
  proof -
    have "a \<notin> fst ` set (deleted c)" using Cons.prems(3) e(1) by (auto simp: log_ok_def)
    then show ?thesis using Cons.prems(3) e by (auto simp: log_ok_def)
  qed
  moreover have "case heap ?c x of None \<Rightarrow> x \<notin> set as | Some e \<Rightarrow> x \<in> set as \<and> in_cache e \<and> refs e = 1 \<and> x < fresh ?c" for x
    using Cons.prems(1) Cons.prems(2) [rule_format, of x] by (auto split: option.splits)
  ultimately show ?case using Cons.IH [of ?c] Cons.prems(1) by simp
qed

section \<open>A client\<close>

text \<open>The client calls the operations in any order, and gives back the handles it got.\<close>

inductive cache_step :: "cache \<times> nat list \<Rightarrow> cache \<times> nat list \<Rightarrow> bool" where
  step_insert: "length key \<le> 8 \<Longrightarrow> Insert key hash v ch c = Inr (a, c') \<Longrightarrow> cache_step (c, hs) (c', a # hs)"
| step_lookup: "Lookup key hash c = Inr (r, c') \<Longrightarrow>
    cache_step (c, hs) (c', case r of None \<Rightarrow> hs | Some a \<Rightarrow> a # hs)"
| step_release: "a \<in> set hs \<Longrightarrow> Release a c = Inr c' \<Longrightarrow> cache_step (c, hs) (c', remove1 a hs)"
| step_erase: "Erase key hash c = Inr c' \<Longrightarrow> cache_step (c, hs) (c', hs)"
| step_prune: "Prune c = Inr c' \<Longrightarrow> cache_step (c, hs) (c', hs)"

lemma count_list_remove1: "count_list (remove1 a hs) = (count_list hs)(a := count_list hs a - 1)"
  by (induction hs) (auto simp: fun_eq_iff)

lemma init_inv: "cache_inv (\<lambda>_. 0) (LRUCache cap)"
proof -
  have "table_wf f HandleTable" for f
    unfolding table_wf_def chains_ok_def members_def HandleTable_def
    by (auto intro!: exI [of _ 2] simp: nth_Cons split: nat.splits)
  then show ?thesis
    by (simp add: cache_inv_def cached_inv_def LRUCache_def lists_ok_def handle_ok_def log_ok_def
        members_def) (simp add: HandleTable_def)
qed

lemma step_inv:
  assumes "cache_step s s'" "cache_inv (count_list (snd s)) (fst s)"
  shows "cache_inv (count_list (snd s')) (fst s')"
  using assms
proof cases
  case (step_insert key hash v ch c a c' hs)
  with assms have inv: "cache_inv (count_list hs) c" by simp
  have "count_list hs (fresh c) = 0" by (rule unallocated(2) [OF cache_invD(1) [OF inv]])
  then have "(count_list hs)(fresh c := 1) = count_list (fresh c # hs)" by (auto simp: fun_eq_iff)
  then show ?thesis using Insert_ok [OF inv step_insert(3), of hash v ch] step_insert by auto
next
  case (step_lookup key hash c r c' hs)
  with assms have inv: "cache_inv (count_list hs) c" by simp
  have "(\<lambda>x. count_list hs x + of_bool (r = Some x)) = count_list (snd s')"
    using step_lookup(2) by (auto simp: fun_eq_iff split: option.splits)
  then show ?thesis using Lookup_ok [OF inv, of key hash] step_lookup(2,3) by auto
next
  case (step_release a hs c c')
  with assms have inv: "cache_inv (count_list hs) c" by simp
  have "0 < count_list hs a" using step_release(3) by (simp add: count_list_0_iff zero_less_iff_neq_zero)
  from Release_ok [OF inv this] show ?thesis using step_release by (auto simp: count_list_remove1)
next
  case (step_erase key hash c c' hs)
  with assms show ?thesis using Erase_ok [of "count_list hs" c key hash] by auto
next
  case (step_prune c c' hs)
  with assms show ?thesis using Prune_ok [of "count_list hs" c] by auto
qed

lemma reachable_inv:
  assumes "cache_step\<^sup>*\<^sup>* (LRUCache cap, []) (c, hs)"
  shows "cache_inv (count_list hs) c"
proof -
  have "cache_inv (count_list (snd s)) (fst s)" if "cache_step\<^sup>*\<^sup>* (LRUCache cap, []) s" for s
    using that
  proof (induction rule: rtranclp_induct)
    case base
    show ?case using init_inv by simp
  qed (rule step_inv)
  from this [OF assms] show ?thesis by simp
qed

lemma Value_cases:
  "Value a c = (case map_option h_value (heap c a) of None \<Rightarrow> Inl Dangling | Some v \<Rightarrow> Inr v)"
  by (cases "heap c a") (simp_all add: Value_def deref_handle_def)

lemma Lookup_none:
  assumes "cache_inv ext c" "\<And>h. \<not> (h \<in> members (htable c) \<and> info c h = Some (key, hash))"
  shows "Lookup key hash c = Inr (None, c)"
proof -
  obtain r where "table_Lookup (info c) key hash (htable c) = Inr r"
    "\<forall>h. r = Some h \<longleftrightarrow> h \<in> members (htable c) \<and> info c h = Some (key, hash)"
    by (rule table_Lookup_ok [OF cache_invD(2) [OF assms(1)]])
  then show ?thesis using assms(2) by (cases r) (auto simp: Lookup_def)
qed

text \<open>A lookup after an insertion, in a cache with room.\<close>

lemma insert_then_lookup:
  assumes inv: "cache_inv ext c" and "length key \<le> 8" "0 < capacity c"
  shows "\<exists>c' c''. Insert key hash v ch c = Inr (fresh c, c') \<and> cache_inv (ext(fresh c := 1)) c'
    \<and> fresh c \<in> members (htable c') \<and> info c' (fresh c) = Some (key, hash)
    \<and> Lookup key hash c' = Inr (Some (fresh c), c'') \<and> Value (fresh c) c' = Inr v \<and> Value (fresh c) c'' = Inr v
    \<and> (usage c' \<le> capacity c' \<or> lru c' = []) \<and> held_values ext c c'"
proof -
  let ?a = "fresh c" and ?ext = "ext(fresh c := 1)"
  obtain c' A where c': "Insert key hash v ch c = Inr (?a, c')" "cache_inv ?ext c'"
    "members (htable c') = insert ?a (members (htable c) - A)" "info c' ?a = Some (key, hash)"
    "map_option h_value (heap c' ?a) = Some v" "usage c' \<le> capacity c' \<or> lru c' = []" "held_values ext c c'"
    using Insert_ok [OF inv assms(2), of hash v ch] assms(3) by (auto simp: not_less)
  obtain r c'' where c'': "Lookup key hash c' = Inr (r, c'')"
    "\<forall>h. r = Some h \<longleftrightarrow> h \<in> members (htable c') \<and> info c' h = Some (key, hash)"
    "\<forall>x. map_option h_value (heap c'' x) = map_option h_value (heap c' x)"
    using Lookup_ok [OF c'(2), of key hash] by blast
  have "r = Some ?a" "?a \<in> members (htable c')" using c''(2) c'(3,4) by blast+
  moreover have "Value ?a c' = Inr v" unfolding Value_cases c'(5) by simp
  moreover have "Value ?a c'' = Inr v" unfolding Value_cases c''(3) [rule_format] c'(5) by simp
  ultimately show ?thesis using c' c''(1) by blast
qed

section \<open>Properties\<close>

text \<open>
  C11.  Whatever a client does with the cache, as long as it uses keys of at most eight
  bytes and releases only handles it holds, no operation uses a freed handle, fails an
  \<open>assert\<close> or loops: insertions, lookups, erasures and pruning return, a held handle can
  be released, and its value can be read.
\<close>

theorem cache_never_faults:
  assumes "cache_step\<^sup>*\<^sup>* (LRUCache cap, []) (c, hs)" "length key \<le> 8"
  shows "(\<exists>a c'. Insert key hash v ch c = Inr (a, c')) \<and> (\<exists>r c'. Lookup key hash c = Inr (r, c'))
    \<and> (\<exists>c'. Erase key hash c = Inr c') \<and> (\<exists>c'. Prune c = Inr c')
    \<and> (\<forall>a \<in> set hs. (\<exists>c'. Release a c = Inr c') \<and> (\<exists>x. Value a c = Inr x))"
proof -
  note inv = reachable_inv [OF assms(1)]
  have "\<exists>c'. Release a c = Inr c'" "\<exists>x. Value a c = Inr x" if "a \<in> set hs" for a
  proof -
    have ext: "0 < count_list hs a" using that by (simp add: count_list_0_iff zero_less_iff_neq_zero)
    then show "\<exists>c'. Release a c = Inr c'" using Release_ok [OF inv] by blast
    have "handle_ok (members (htable c)) (count_list hs) c a"
      using cache_invD(1) [OF inv] by (simp add: cached_inv_def)
    then show "\<exists>x. Value a c = Inr x"
      using ext by (auto simp: handle_ok_def Value_def deref_handle_def split: option.splits)
  qed
  then show ?thesis
    using Insert_ok [OF inv assms(2), of hash v ch] Lookup_ok [OF inv, of key hash]
      Erase_ok [OF inv, of key hash] Prune_ok [OF inv]
    by (intro conjI) blast+
qed

theorem cache_never_faults_witness:
  "(\<exists>a c'. Insert ''k'' 7 42 3 (LRUCache 10) = Inr (a, c')) \<and> (\<exists>r c'. Lookup ''k'' 7 (LRUCache 10) = Inr (r, c'))
    \<and> (\<exists>c'. Erase ''k'' 7 (LRUCache 10) = Inr c') \<and> (\<exists>c'. Prune (LRUCache 10) = Inr c')"
  using cache_never_faults [of 10 "LRUCache 10" "[]" "''k''" 7 42 3] by simp



text \<open>
  C13.  The deleter of every entry is called exactly once: at any time the entries that
  were deleted are those that are no longer alive, each once; and when the client holds
  nothing, destroying the cache deletes all the others.
\<close>

theorem cache_deletes_once:
  assumes "cache_step\<^sup>*\<^sup>* (LRUCache cap, []) (c, hs)"
  shows "distinct (map fst (deleted c)) \<and> fst ` set (deleted c) = {a. a < fresh c \<and> heap c a = None}
    \<and> (hs = [] \<longrightarrow> (\<exists>c'. delete_cache c = Inr c' \<and> (\<forall>a. heap c' a = None)
         \<and> distinct (map fst (deleted c')) \<and> fst ` set (deleted c') = {..<fresh c}))"
proof -
  note inv = reachable_inv [OF assms]
  have log: "log_ok c" using cache_invD(1) [OF inv] by (simp add: cached_inv_def)
  have "\<exists>c'. delete_cache c = Inr c' \<and> (\<forall>a. heap c' a = None) \<and> log_ok c' \<and> fresh c' = fresh c" if "hs = []"
  proof -
    note i = cache_invD(1) [OF inv [unfolded that]]
    have h: "handle_ok (members (htable c)) (count_list []) c x" for x using i by (simp add: cached_inv_def)
    have m: "set (lru c) = members (htable c)"
    proof -
      have "x \<in> set (lru c)" if "x \<in> members (htable c)" for x
        using h [of x] that by (cases "heap c x") (simp_all add: handle_ok_def)
      then show ?thesis using i by (auto simp: cached_inv_def lists_ok_def)
    qed
    have "set (in_use c) \<subseteq> set (lru c)" unfolding m using i by (auto simp: cached_inv_def lists_ok_def)
    moreover have "set (lru c) \<inter> set (in_use c) = {}" using i by (simp add: cached_inv_def lists_ok_def)
    ultimately have u: "in_use c = []" by (cases "in_use c") auto
    have "case heap c x of None \<Rightarrow> x \<notin> set (lru c)
        | Some e \<Rightarrow> x \<in> set (lru c) \<and> in_cache e \<and> refs e = 1 \<and> x < fresh c" for x
      using h [of x] m by (cases "heap c x"; cases "x \<in> members (htable c)") (simp_all add: handle_ok_def)
    then obtain c' where "drop_all (lru c) c = Inr c'" "log_ok c'" "\<forall>x. heap c' x = None" "fresh c' = fresh c"
      using drop_all_ok [of "lru c" c] log i unfolding cached_inv_def lists_ok_def distinct_append by blast
    then show ?thesis using u by (simp add: delete_cache_def)
  qed
  moreover have "{a. a < fresh c' \<and> heap c' a = None} = {..<fresh c}"
    if "\<forall>a. heap c' a = None" "fresh c' = fresh c" for c'
    using that by auto
  ultimately show ?thesis using log unfolding log_ok_def by metis
qed

theorem cache_deletes_once_witness:
  "\<exists>c'. delete_cache (LRUCache 10) = Inr c' \<and> (\<forall>a. heap c' a = None) \<and> distinct (map fst (deleted c'))"
  using cache_deletes_once [of 10 "LRUCache 10" "[]"] by auto

end
