(* ===== verification/Coding.thy ===== *)
theory Coding
  imports Prelude
begin

text \<open>
  The integer codings of \<open>leveldb_table_cache/leveldb_coding/coding.cpp\<close> and
  \<open>ComponentsW/common/coding\<close>: fixed-width little-endian integers, variable-length
  integers of seven bits per byte, and slices behind their length.  A buffer is a list of
  \<open>unsigned char\<close>; a pair of pointers \<open>p\<close>, \<open>limit\<close> is the list of the bytes between
  them, and a null result is \<open>None\<close>.  The host is little-endian, as the branch the
  sources take on x86.
\<close>

unbundle bit_operations_syntax

type_synonym uchar = "8 word"
type_synonym buffer = "uchar list"

section \<open>Fixed-width integers\<close>

text \<open>The object representation of an integer of \<open>n\<close> bytes, and an integer read from one.\<close>

definition mem_of :: "nat \<Rightarrow> 'a::len word \<Rightarrow> buffer" where
  "mem_of n v = map (\<lambda>i. ucast (drop_bit (8 * i) v)) [0..<n]"

fun of_mem :: "buffer \<Rightarrow> 'a::len word" where
  "of_mem [] = 0"
| "of_mem (b # bs) = ucast b OR push_bit 8 (of_mem bs)"

definition EncodeFixed32 :: "32 word \<Rightarrow> buffer" where
  "EncodeFixed32 value = mem_of 4 value"

definition EncodeFixed64 :: "64 word \<Rightarrow> buffer" where
  "EncodeFixed64 value = mem_of 8 value"

text \<open>The branch for the other byte order, which writes the same bytes.\<close>

definition EncodeFixed32_shifts :: "32 word \<Rightarrow> buffer" where
  "EncodeFixed32_shifts value =
     [ucast (value AND 0xff), ucast (drop_bit 8 value AND 0xff), ucast (drop_bit 16 value AND 0xff),
      ucast (drop_bit 24 value AND 0xff)]"

definition EncodeFixed64_shifts :: "64 word \<Rightarrow> buffer" where
  "EncodeFixed64_shifts value = map (\<lambda>i. ucast (drop_bit (i * 8) value AND 0xff)) [0..<8]"

text \<open>The first \<open>DecodeFixed32\<close> collects the bytes in an \<open>int\<close>, the second copies
  them.  \<open>DecodeFixed64\<close> copies into a \<open>uint32_t\<close>.\<close>

definition DecodeFixed32 :: "buffer \<Rightarrow> 32 word res" where
  "DecodeFixed32 p = (if length p < 4 then Inl Overrun else Inr (of_mem (take 4 p)))"

fun decode_loop :: "nat \<Rightarrow> 32 word \<Rightarrow> nat \<Rightarrow> buffer \<Rightarrow> 32 word res" where
  "decode_loop i r 0 p = Inr r"
| "decode_loop i r (Suc n) [] = Inl Overrun"
| "decode_loop i r (Suc n) (b # p) = decode_loop (Suc i) (r OR push_bit (i * 8) (ucast b)) n p"

definition DecodeFixed32_loop :: "buffer \<Rightarrow> 32 word res" where
  "DecodeFixed32_loop p = decode_loop 0 0 4 p"

definition DecodeFixed64 :: "buffer \<Rightarrow> 64 word res" where
  "DecodeFixed64 p =
     (if length p < 4 then Inl Overrun else Inr (ucast (of_mem (take 4 p) :: 32 word)))"

section \<open>Variable-length integers\<close>

definition EncodeVarint32 :: "32 word \<Rightarrow> buffer" where
  "EncodeVarint32 v =
     (if v < 0x80 then [ucast v]
      else if v < 0x4000 then [ucast (v OR 128), ucast (drop_bit 7 v)]
      else if v < 0x200000 then [ucast (v OR 128), ucast (drop_bit 7 v OR 128), ucast (drop_bit 14 v)]
      else if v < 0x10000000 then
        [ucast (v OR 128), ucast (drop_bit 7 v OR 128), ucast (drop_bit 14 v OR 128),
         ucast (drop_bit 21 v)]
      else
        [ucast (v OR 128), ucast (drop_bit 7 v OR 128), ucast (drop_bit 14 v OR 128),
         ucast (drop_bit 21 v OR 128), ucast (drop_bit 28 v)])"

lemma drop_bit_7_less:
  fixes v :: "64 word"
  assumes "\<not> v < 128"
  shows "unat (drop_bit 7 v) < unat v"
proof -
  have "v \<noteq> 0" using assms by auto
  then have "unat v > 0" by (simp add: unat_gt_0)
  then show ?thesis by (simp add: drop_bit_eq_div unat_div)
qed

function EncodeVarint64 :: "64 word \<Rightarrow> buffer" where
  "EncodeVarint64 v =
     (if v < 128 then [ucast v] else ucast ((v AND 127) OR 128) # EncodeVarint64 (drop_bit 7 v))"
  by pat_completeness auto
termination
  by (relation "measure unat") (simp_all add: drop_bit_7_less)

function VarintLength :: "64 word \<Rightarrow> nat" where
  "VarintLength v = (if v < 128 then 1 else Suc (VarintLength (drop_bit 7 v)))"
  by pat_completeness auto
termination
  by (relation "measure unat") (simp_all add: drop_bit_7_less)

declare EncodeVarint64.simps [simp del] VarintLength.simps [simp del]

text \<open>The decoding loop, from bit \<open>shift\<close> to \<open>hi\<close> at most; the two routines have the
  same body at different widths.\<close>

function varint_loop :: "nat \<Rightarrow> nat \<Rightarrow> 'a::len word \<Rightarrow> buffer \<Rightarrow> ('a word \<times> buffer) option" where
  "varint_loop hi shift result p =
     (if shift > hi \<or> p = [] then None
      else let byte = ucast (hd p); p = tl p in
        if byte AND 128 \<noteq> 0 then
          varint_loop hi (shift + 7) (result OR push_bit shift (byte AND 127)) p
        else Some (result OR push_bit shift byte, p))"
  by pat_completeness auto
termination
  by (relation "measure (\<lambda>(hi, shift, result, p). length p)") auto

declare varint_loop.simps [simp del]

definition GetVarint32PtrFallback :: "buffer \<Rightarrow> (32 word \<times> buffer) option" where
  "GetVarint32PtrFallback p = varint_loop 28 0 0 p"

definition GetVarint32Ptr :: "buffer \<Rightarrow> (32 word \<times> buffer) option" where
  "GetVarint32Ptr p =
     (if p \<noteq> [] \<and> (ucast (hd p) :: 32 word) < 128 then Some (ucast (hd p), tl p)
      else GetVarint32PtrFallback p)"

definition GetVarint64Ptr :: "buffer \<Rightarrow> (64 word \<times> buffer) option" where
  "GetVarint64Ptr p = varint_loop 63 0 0 p"

section \<open>Strings and slices\<close>

definition PutFixed32 :: "buffer \<Rightarrow> 32 word \<Rightarrow> buffer" where
  "PutFixed32 dst value = dst @ EncodeFixed32 value"

definition PutFixed64 :: "buffer \<Rightarrow> 64 word \<Rightarrow> buffer" where
  "PutFixed64 dst value = dst"

text \<open>\<open>PutVarint32\<close> encodes into \<open>buf[5]\<close>.\<close>

definition PutVarint32 :: "buffer \<Rightarrow> 32 word \<Rightarrow> buffer res" where
  "PutVarint32 dst v =
     (if length (EncodeVarint32 v) > 5 then Inl Overrun else Inr (dst @ EncodeVarint32 v))"

definition PutVarint64 :: "buffer \<Rightarrow> 64 word \<Rightarrow> buffer" where
  "PutVarint64 dst value = dst"

definition PutLengthPrefixedSlice :: "buffer \<Rightarrow> buffer \<Rightarrow> buffer res" where
  "PutLengthPrefixedSlice dst value =
     res_bind (PutVarint32 dst (of_nat (length value))) (\<lambda>dst. Inr (dst @ value))"

definition GetVarint32 :: "buffer \<Rightarrow> (32 word \<times> buffer) option" where
  "GetVarint32 input =
     (case GetVarint32Ptr input of None \<Rightarrow> None | Some (value, q) \<Rightarrow> Some (value, q))"

text \<open>\<open>GetLengthPrefixedSlice\<close> on a pair of pointers and on a slice.  A failing call on a
  slice may have consumed the length.\<close>

definition GetLengthPrefixedSlice_ptr :: "buffer \<Rightarrow> (buffer \<times> buffer) option" where
  "GetLengthPrefixedSlice_ptr p =
     (case GetVarint32Ptr p of
        None \<Rightarrow> None
      | Some (len, p) \<Rightarrow>
          if unat len > length p then None else Some (take (unat len) p, drop (unat len) p))"

definition GetLengthPrefixedSlice :: "buffer \<Rightarrow> bool \<times> buffer \<times> buffer option" where
  "GetLengthPrefixedSlice input =
     (case GetVarint32 input of
        None \<Rightarrow> (False, input, None)
      | Some (len, input) \<Rightarrow>
          if length input \<ge> unat len then (True, drop (unat len) input, Some (take (unat len) input))
          else (False, input, None))"

text \<open>A caller's loops over a log of slices.\<close>

fun put_slices :: "buffer \<Rightarrow> buffer list \<Rightarrow> buffer res" where
  "put_slices dst [] = Inr dst"
| "put_slices dst (s # ss) = res_bind (PutLengthPrefixedSlice dst s) (\<lambda>dst. put_slices dst ss)"

fun get_slices :: "nat \<Rightarrow> buffer \<Rightarrow> (buffer list \<times> buffer) option" where
  "get_slices 0 input = Some ([], input)"
| "get_slices (Suc n) input =
     (case GetLengthPrefixedSlice input of
        (True, input, Some s) \<Rightarrow> map_option (\<lambda>(ss, input). (s # ss, input)) (get_slices n input)
      | _ \<Rightarrow> None)"

section \<open>Lemmas\<close>

lemma length_mem_of [simp]: "length (mem_of n v) = n"
  by (simp add: mem_of_def)

lemma mem_of_Suc: "mem_of (Suc n) v = ucast v # mem_of n (drop_bit 8 v)"
  by (simp add: mem_of_def upt_conv_Cons map_Suc_upt [symmetric] del: upt_Suc)
    (simp add: drop_bit_drop_bit ac_simps)

lemma of_mem_of: "(of_mem (mem_of n (v :: 'b::len word)) :: 'a::len word) = take_bit (8 * n) (ucast v)"
proof (induction n arbitrary: v)
  case (Suc n)
  have "ucast (ucast v :: 8 word) OR push_bit 8 (take_bit (8 * n) (ucast (drop_bit 8 v)))
      = (take_bit (8 * Suc n) (ucast v) :: 'a word)"
    by (intro bit_word_eqI) (auto simp: bit_simps dest: bit_imp_le_length)
  then show ?case by (simp add: mem_of_Suc Suc.IH)
qed (simp add: mem_of_def)

lemma decode_loop_mem_of:
  "decode_loop i r n (mem_of n v @ rest) = Inr (r OR push_bit (i * 8) (take_bit (8 * n) v))"
proof (induction n arbitrary: i r v)
  case (Suc n)
  have "(r OR push_bit (i * 8) (ucast (ucast v :: 8 word))) OR push_bit (Suc i * 8) (take_bit (8 * n) (drop_bit 8 v))
      = r OR push_bit (i * 8) (take_bit (8 * Suc n) v)" (is "?l = ?r")
  proof (rule bit_word_eqI)
    fix m
    have "m < i * 8 + 8 \<or> (\<exists>j. m = i * 8 + 8 + j)" by presburger
    moreover assume "m < LENGTH(32)"
    ultimately show "bit ?l m = bit ?r m" by (auto simp: bit_simps ac_simps)
  qed
  then show ?case by (simp add: mem_of_Suc Suc.IH)
qed (simp add: mem_of_def)

text \<open>The bits of the constants of the sources.\<close>

lemma bit_constants:
  "bit (0xff :: int) n \<longleftrightarrow> n < 8" "bit (127 :: int) n \<longleftrightarrow> n < 7" "bit (128 :: int) n \<longleftrightarrow> n = 7"
proof -
  have "(0xff :: int) = mask 8" "(127 :: int) = mask 7" "(128 :: int) = 2 ^ 7"
    by (simp_all add: mask_eq_exp_minus_1)
  then show "bit (0xff :: int) n \<longleftrightarrow> n < 8" "bit (127 :: int) n \<longleftrightarrow> n < 7"
    "bit (128 :: int) n \<longleftrightarrow> n = 7"
    by (auto simp only: bit_mask_iff bit_exp_iff possible_bit_def power_eq_0_iff
        zero_neq_numeral [symmetric])
qed

lemma ucast_low_byte: "ucast (x AND 0xff) = (ucast x :: 8 word)" for x :: "'a::len word"
  by (intro bit_word_eqI) (auto simp: bit_simps bit_constants dest: bit_imp_le_length)

lemma EncodeFixed_shifts:
  "EncodeFixed32_shifts v = EncodeFixed32 v" "EncodeFixed64_shifts w = EncodeFixed64 w"
proof -
  have "[0..<4] = [0, 1, 2, 3::nat]" by (simp add: upt_rec)
  then show "EncodeFixed32_shifts v = EncodeFixed32 v"
    by (simp add: EncodeFixed32_shifts_def EncodeFixed32_def mem_of_def ucast_low_byte)
  show "EncodeFixed64_shifts w = EncodeFixed64 w"
    by (simp add: EncodeFixed64_shifts_def EncodeFixed64_def mem_of_def ucast_low_byte ac_simps)
qed

text \<open>What the decoding loop makes of an encoded integer, at any width.\<close>

lemma continuation_byte:
  fixes v :: "64 word"
  shows "(ucast (ucast ((v AND 127) OR 128) :: 8 word) :: 'a::len word) AND 128 = 128"
    "(ucast (ucast ((v AND 127) OR 128) :: 8 word) :: 'a::len word) AND 127 = take_bit 7 (ucast v)"
  by (intro bit_word_eqI; auto simp: bit_simps bit_constants)+

lemma low_bits:
  fixes v :: "'a::len word"
  assumes "unat v < 2 ^ k" "bit v n"
  shows "n < k"
proof -
  have "take_bit k v = v"
    using assms(1) by (simp add: take_bit_eq_self_iff_drop_bit_eq_0 unat_drop_bit_eq
        flip: unat_eq_zero) (simp add: drop_bit_eq_div)
  then show ?thesis using assms(2) by (metis bit_take_bit_iff)
qed

lemma last_byte:
  fixes v :: "64 word"
  assumes "v < 128"
  shows "(ucast v :: 'a::len word) AND 128 = 0"
    "(ucast (ucast v :: 8 word) :: 'a::len word) = ucast v"
proof -
  have *: "bit v n \<Longrightarrow> n < 7" for n
    using assms low_bits [of v 7 n] by (simp add: word_less_nat_alt)
  show "(ucast v :: 'a::len word) AND 128 = 0"
    by (intro bit_word_eqI) (auto simp: bit_simps bit_constants dest: *)
  show "(ucast (ucast v :: 8 word) :: 'a::len word) = ucast v"
    by (intro bit_word_eqI) (auto simp: bit_simps dest: *)
qed

lemma varint_loop_encoded:
  assumes "7 < LENGTH('a::len)" "n + 7 * (VarintLength v - 1) \<le> hi"
  shows "varint_loop hi n (acc :: 'a word) (EncodeVarint64 v @ rest) = Some (acc OR push_bit n (ucast v), rest)"
  using assms(2)
proof (induction v arbitrary: n acc rule: EncodeVarint64.induct)
  case (1 v)
  show ?case
  proof (cases "v < 128")
    case True
    then show ?thesis using 1(2)
      by (subst EncodeVarint64.simps, subst varint_loop.simps) (simp add: last_byte [OF True] Let_def)
  next
    case False
    have len: "VarintLength v = Suc (VarintLength (drop_bit 7 v))" and pos: "VarintLength (drop_bit 7 v) > 0"
      using False by (simp_all add: VarintLength.simps [of v] VarintLength.simps [of "drop_bit 7 v"])
    then have "n + 7 + 7 * (VarintLength (drop_bit 7 v) - 1) \<le> hi" "n \<le> hi"
      using 1(2) by simp_all
    moreover have "(128 :: 'a word) \<noteq> 0"
    proof -
      have "bit (128 :: 'a word) 7" using assms(1) by (simp add: bit_constants)
      moreover have "\<not> bit (0 :: 'a word) 7" by simp
      ultimately show ?thesis by metis
    qed
    moreover have "(acc OR push_bit n (take_bit 7 (ucast v))) OR push_bit (n + 7) (ucast (drop_bit 7 v))
        = acc OR push_bit n (ucast v)" (is "?l = ?r")
    proof (rule bit_word_eqI)
      fix m assume "m < LENGTH('a)"
      moreover have "m < n + 7 \<or> (\<exists>j. m = n + 7 + j)" by presburger
      ultimately show "bit ?l m = bit ?r m" by (auto simp: bit_simps ac_simps)
    qed
    ultimately show ?thesis using False
      by (subst EncodeVarint64.simps, subst varint_loop.simps)
        (simp add: continuation_byte 1(1) Let_def)
  qed
qed

text \<open>Lengths.\<close>

lemma length_EncodeVarint64: "length (EncodeVarint64 v) = VarintLength v"
  by (induction v rule: EncodeVarint64.induct)
    (subst EncodeVarint64.simps, subst VarintLength.simps, simp)

lemma VarintLength_le:
  "unat v < 2 ^ (7 * Suc k) \<Longrightarrow> VarintLength v \<le> Suc k"
proof (induction k arbitrary: v)
  case (Suc k)
  have "unat (drop_bit 7 v) < 2 ^ (7 * Suc k)"
    using Suc.prems by (simp add: drop_bit_eq_div unat_div power_add less_mult_imp_div_less)
  from Suc.IH [OF this] show ?case by (subst VarintLength.simps) simp
qed (simp add: VarintLength.simps word_less_nat_alt)

lemma VarintLength_pos [simp]: "VarintLength v > 0"
  by (subst VarintLength.simps) simp

lemma VarintLength_64: "VarintLength v \<le> 10"
  using VarintLength_le [of v 9] unat_64 [of v] by simp

lemma ucast_ucast_64 [simp]: "ucast (ucast (v :: 32 word) :: 64 word) = v"
  by (intro bit_word_eqI) (auto simp: bit_simps)

lemma VarintLength_32: "VarintLength (ucast (v :: 32 word)) \<le> 5"
  using VarintLength_le [of "ucast v" 4] unat_32 [of v] by simp

text \<open>The unrolled encoder is the loop.\<close>

lemma drop_bit_less_128:
  "drop_bit k (ucast (v :: 32 word) :: 64 word) < 128 \<longleftrightarrow> unat v < 128 * 2 ^ k"
  by (simp only: word_less_nat_alt unat_drop_bit_eq) (simp add: drop_bit_eq_div div_less_iff_less_mult)

lemma unrolled_bytes:
  "(ucast ((drop_bit k (ucast (x :: 32 word) :: 64 word) AND 127) OR 128) :: 8 word) = ucast (drop_bit k x OR 128)"
  "(ucast (drop_bit k (ucast (x :: 32 word) :: 64 word)) :: 8 word) = ucast (drop_bit k x)"
  by (intro bit_word_eqI; auto simp: bit_simps bit_constants dest: bit_imp_le_length)+

lemma EncodeVarint64_drop:
  "EncodeVarint64 (drop_bit k (ucast (v :: 32 word))) =
     (if unat v < 128 * 2 ^ k then [ucast (drop_bit k v)]
      else ucast (drop_bit k v OR 128) # EncodeVarint64 (drop_bit (k + 7) (ucast v)))"
  by (subst EncodeVarint64.simps) (simp only: drop_bit_less_128 unrolled_bytes drop_bit_drop_bit add.commute [of 7])

lemma EncodeVarint32_loop: "EncodeVarint32 v = EncodeVarint64 (ucast v)"
proof -
  have "unat v < 128 * 2 ^ 28" using unat_32 [of v] by simp
  then show ?thesis
    using EncodeVarint64_drop [of 0 v] EncodeVarint64_drop [of 7 v] EncodeVarint64_drop [of 14 v]
      EncodeVarint64_drop [of 21 v] EncodeVarint64_drop [of 28 v]
    by (simp add: EncodeVarint32_def word_less_nat_alt)
qed

text \<open>Round trips of the decoders.\<close>

lemma GetVarint64Ptr_encoded: "GetVarint64Ptr (EncodeVarint64 v @ rest) = Some (v, rest)"
  using VarintLength_64 [of v] by (simp add: GetVarint64Ptr_def varint_loop_encoded)

lemma GetVarint32Ptr_encoded: "GetVarint32Ptr (EncodeVarint32 v @ rest) = Some (v, rest)"
proof -
  have "GetVarint32PtrFallback (EncodeVarint32 v @ rest) = Some (v, rest)"
    using VarintLength_32 [of v]
    by (simp add: GetVarint32PtrFallback_def EncodeVarint32_loop varint_loop_encoded)
  moreover have "EncodeVarint32 v \<noteq> []" by (simp add: EncodeVarint32_def)
  moreover have "(ucast (hd (EncodeVarint32 v)) :: 32 word) < 128 \<Longrightarrow>
      ucast (hd (EncodeVarint32 v)) = v \<and> tl (EncodeVarint32 v) = []"
  proof (cases "v < 128")
    case True
    then have "bit v n \<Longrightarrow> n < 8" for n
      using low_bits [of v 7 n] by (simp add: word_less_nat_alt)
    then have "ucast (ucast v :: 8 word) = v" by (intro bit_word_eqI) (auto simp: bit_simps)
    with True show "ucast (hd (EncodeVarint32 v)) = v \<and> tl (EncodeVarint32 v) = []"
      by (simp add: EncodeVarint32_def)
  next
    case False
    assume "(ucast (hd (EncodeVarint32 v)) :: 32 word) < 128"
    then have "\<not> bit (ucast (hd (EncodeVarint32 v)) :: 32 word) 7"
      using low_bits [of "ucast (hd (EncodeVarint32 v)) :: 32 word" 7 7] by (auto simp: word_less_nat_alt)
    with False show "ucast (hd (EncodeVarint32 v)) = v \<and> tl (EncodeVarint32 v) = []"
      by (auto simp: EncodeVarint32_def bit_simps bit_constants split: if_splits)
  qed
  ultimately show ?thesis
    by (cases "EncodeVarint32 v") (auto simp: GetVarint32Ptr_def)
qed

lemma PutLengthPrefixedSlice_ok:
  "PutLengthPrefixedSlice dst s = Inr (dst @ EncodeVarint32 (of_nat (length s)) @ s)"
  using VarintLength_32 [of "of_nat (length s)"]
  by (simp add: PutLengthPrefixedSlice_def PutVarint32_def EncodeVarint32_loop length_EncodeVarint64)

lemma GetLengthPrefixedSlice_encoded:
  assumes "length s < 2 ^ 32"
  shows "GetLengthPrefixedSlice (EncodeVarint32 (of_nat (length s)) @ s @ rest) = (True, rest, Some s)"
proof -
  have "unat (of_nat (length s) :: 32 word) = length s"
    using assms by (simp add: unat_of_nat take_bit_nat_eq_self_iff)
  then show ?thesis
    by (simp add: GetLengthPrefixedSlice_def GetVarint32_def GetVarint32Ptr_encoded)
qed

text \<open>A decoder consumes between one byte and one byte per seven bits.\<close>

lemma varint_loop_consumes:
  "varint_loop hi n (acc :: 'a::len word) p = Some (v, q) \<Longrightarrow>
     \<exists>used. p = used @ q \<and> 0 < length used \<and> n + 7 * (length used - 1) \<le> hi"
proof (induction hi n acc p rule: varint_loop.induct)
  case (1 hi n acc p)
  show ?case
  proof (cases "n > hi \<or> p = []")
    case True
    with 1(2) show ?thesis by (subst (asm) varint_loop.simps) simp
  next
    case False
    then obtain b p' where p: "p = b # p'" by (cases p) auto
    show ?thesis
    proof (cases "(ucast b :: 'a word) AND 128 = 0")
      case True
      with 1(2) False p have "p = [b] @ q" by (subst (asm) varint_loop.simps) (simp add: Let_def)
      with False show ?thesis by (intro exI [of _ "[b]"]) simp
    next
      case more: False
      with 1(2) False p have "varint_loop hi (n + 7) (acc OR push_bit n (ucast b AND 127)) p' = Some (v, q)"
        by (subst (asm) varint_loop.simps) (simp add: Let_def)
      then obtain used where "p' = used @ q" "0 < length used" "n + 7 + 7 * (length used - 1) \<le> hi"
        using 1(1) [OF False refl refl] p more by auto
      then show ?thesis using p by (intro exI [of _ "b # used"]) simp
    qed
  qed
qed

section \<open>Properties\<close>

text \<open>
  C27.  Slices of less than 4 GiB written one after the other with
  \<open>PutLengthPrefixedSlice\<close> are read back in order with \<open>GetLengthPrefixedSlice\<close>; the
  writer never leaves \<open>buf[5]\<close>, and the reader stops exactly where the next data starts.
\<close>

theorem slices_round_trip:
  assumes "\<forall>s \<in> set ss. length s < 2 ^ 32"
  shows "\<exists>log. put_slices dst ss = Inr (dst @ log) \<and>
           (\<forall>rest. get_slices (length ss) (log @ rest) = Some (ss, rest))"
  using assms
proof (induction ss arbitrary: dst)
  case (Cons s ss)
  let ?e = "EncodeVarint32 (of_nat (length s)) @ s"
  obtain log where log: "put_slices (dst @ ?e) ss = Inr ((dst @ ?e) @ log)"
    "get_slices (length ss) (log @ rest) = Some (ss, rest)" for rest
    using Cons.IH [of "dst @ ?e"] Cons.prems by auto
  moreover have "length s < 2 ^ 32" using Cons.prems by simp
  ultimately show ?case
    by (intro exI [of _ "?e @ log"])
      (simp add: PutLengthPrefixedSlice_ok GetLengthPrefixedSlice_encoded)
qed simp

theorem slices_round_trip_witness:
  "\<exists>log. put_slices [7] [[1, 2], [], [3]] = Inr ([7] @ log) \<and>
     (\<forall>rest. get_slices 3 (log @ rest) = Some ([[1, 2], [], [3]], rest))"
  using slices_round_trip [of "[[1, 2], [], [3]]" "[7]"]
  by (simp del: put_slices.simps get_slices.simps add: numeral_3_eq_3)

text \<open>
  C28.  The unrolled \<open>EncodeVarint32\<close> writes what the loop of \<open>EncodeVarint64\<close> writes;
  both write \<open>VarintLength\<close> bytes, at most 5 and 10; and \<open>GetVarint32Ptr\<close> (with its
  fast path for one byte) and \<open>GetVarint64Ptr\<close> read every value back.
\<close>

theorem varint_codec:
  "EncodeVarint32 v = EncodeVarint64 (ucast v)
   \<and> length (EncodeVarint32 v) = VarintLength (ucast v) \<and> length (EncodeVarint32 v) \<le> 5
   \<and> length (EncodeVarint64 w) = VarintLength w \<and> length (EncodeVarint64 w) \<le> 10
   \<and> GetVarint32Ptr (EncodeVarint32 v @ rest) = Some (v, rest)
   \<and> GetVarint64Ptr (EncodeVarint64 w @ rest) = Some (w, rest)"
  using VarintLength_32 [of v] VarintLength_64 [of w]
  by (simp add: GetVarint32Ptr_encoded GetVarint64Ptr_encoded length_EncodeVarint64)
    (simp add: EncodeVarint32_loop length_EncodeVarint64)



text \<open>
  C39.  The fixed-width codings: both versions of \<open>DecodeFixed32\<close> read back what
  \<open>EncodeFixed32\<close> wrote, but \<open>DecodeFixed64\<close>, which copies only
  \<open>sizeof(uint32_t)\<close> bytes, keeps the low half of a 64-bit integer.
\<close>

theorem fixed_codec:
  "DecodeFixed32 (EncodeFixed32 v @ rest) = Inr v
   \<and> DecodeFixed32_loop (EncodeFixed32 v @ rest) = Inr v
   \<and> EncodeFixed32_shifts v = EncodeFixed32 v \<and> EncodeFixed64_shifts w = EncodeFixed64 w
   \<and> DecodeFixed64 (EncodeFixed64 w @ rest) = Inr (take_bit 32 w)"
proof -
  have full: "take_bit 32 v = v"
    by (intro bit_word_eqI) (auto simp: bit_simps)
  have "take 4 (EncodeFixed64 w @ rest) = mem_of 4 w"
    by (simp add: EncodeFixed64_def) (simp add: mem_of_def take_map)
  then have "DecodeFixed64 (EncodeFixed64 w @ rest) = Inr (ucast (take_bit 32 (ucast w :: 32 word)))"
    by (simp add: DecodeFixed64_def EncodeFixed64_def of_mem_of)
  moreover have "ucast (take_bit 32 (ucast w :: 32 word)) = take_bit 32 w"
    by (intro bit_word_eqI) (auto simp: bit_simps)
  ultimately show ?thesis
    using decode_loop_mem_of [of 0 0 4 v rest]
    by (simp add: DecodeFixed32_def DecodeFixed32_loop_def EncodeFixed32_def of_mem_of full
        EncodeFixed_shifts [unfolded EncodeFixed32_def])
qed

end
