(* ===== verification/Sharded_Cache.thy ===== *)
theory Sharded_Cache
  imports LRU_Cache Coding
begin

text \<open>
  The cache a client gets from \<open>NewLRUCache\<close>: sixteen \<open>LRUCache\<close>s, one of which a key
  belongs to by the top four bits of its hash (\<open>ComponentsW/common/hash.cpp\<close>).  A handle
  is the number of the shard it was made in and its address there; \<open>Release\<close> finds the
  shard from the hash in the handle.
\<close>

section \<open>The hash\<close>

abbreviation hash_m :: "32 word" where
  "hash_m \<equiv> 0xc6a4a793"

function hash_loop :: "buffer \<Rightarrow> 32 word \<Rightarrow> 32 word \<times> buffer" where
  "hash_loop data h =
     (if 4 \<le> length data then
        let h = (h + of_mem (take 4 data)) * hash_m in hash_loop (drop 4 data) (h XOR drop_bit 16 h)
      else (h, data))"
  by pat_completeness auto
termination
  by (relation "measure (\<lambda>(data, h). length data)") auto

declare hash_loop.simps [simp del]

definition Hash :: "buffer \<Rightarrow> 32 word \<Rightarrow> 32 word" where
  "Hash data seed =
     (let (h, rest) = hash_loop data (seed XOR of_nat (length data) * hash_m);
          h = (if length rest \<ge> 3 then h + push_bit 16 (ucast (rest ! 2)) else h);
          h = (if length rest \<ge> 2 then h + push_bit 8 (ucast (rest ! 1)) else h) in
      if length rest \<ge> 1 then
        let h = (h + ucast (rest ! 0)) * hash_m in h XOR drop_bit 24 h
      else h)"

definition HashSlice :: "string \<Rightarrow> 32 word" where
  "HashSlice s = Hash (map of_char s) 0"

section \<open>The shards\<close>

definition kNumShardBits :: nat where
  "kNumShardBits = 4"

definition kNumShards :: nat where
  "kNumShards = 2 ^ kNumShardBits"

definition Shard :: "32 word \<Rightarrow> nat" where
  "Shard hash = unat (drop_bit (32 - kNumShardBits) hash)"

record sharded =
  shards :: "cache list"
  last_id :: "64 word"

definition ShardedLRUCache :: "64 word \<Rightarrow> sharded" where
  "ShardedLRUCache cap =
     \<lparr> shards = replicate kNumShards (LRUCache ((cap + (of_nat kNumShards - 1)) div of_nat kNumShards)),
       last_id = 0 \<rparr>"

definition set_shard :: "nat \<Rightarrow> cache \<Rightarrow> sharded \<Rightarrow> sharded" where
  "set_shard i c s = s\<lparr> shards := (shards s)[i := c] \<rparr>"

definition s_Insert :: "string \<Rightarrow> nat \<Rightarrow> 64 word \<Rightarrow> sharded \<Rightarrow> ((nat \<times> nat) \<times> sharded) res" where
  "s_Insert key value ch s =
     (let hash = HashSlice key; i = Shard hash in
      res_bind (Insert key hash value ch (shards s ! i)) (\<lambda>(a, c). Inr ((i, a), set_shard i c s)))"

definition s_Lookup :: "string \<Rightarrow> sharded \<Rightarrow> ((nat \<times> nat) option \<times> sharded) res" where
  "s_Lookup key s =
     (let hash = HashSlice key; i = Shard hash in
      res_bind (Lookup key hash (shards s ! i)) (\<lambda>(r, c).
        Inr (map_option (Pair i) r, set_shard i c s)))"

definition s_Release :: "nat \<times> nat \<Rightarrow> sharded \<Rightarrow> sharded res" where
  "s_Release h s =
     res_bind (deref_handle (shards s ! fst h) (snd h)) (\<lambda>e.
     let i = Shard (h_hash e) in
     res_bind (Release (snd h) (shards s ! i)) (\<lambda>c. Inr (set_shard i c s)))"

definition s_Erase :: "string \<Rightarrow> sharded \<Rightarrow> sharded res" where
  "s_Erase key s =
     (let hash = HashSlice key; i = Shard hash in
      res_bind (Erase key hash (shards s ! i)) (\<lambda>c. Inr (set_shard i c s)))"

definition s_Value :: "nat \<times> nat \<Rightarrow> sharded \<Rightarrow> nat res" where
  "s_Value h s = Value (snd h) (shards s ! fst h)"

definition NewId :: "sharded \<Rightarrow> 64 word \<times> sharded" where
  "NewId s = (last_id s + 1, s\<lparr> last_id := last_id s + 1 \<rparr>)"

fun prune_shards :: "nat list \<Rightarrow> sharded \<Rightarrow> sharded res" where
  "prune_shards [] s = Inr s"
| "prune_shards (i # is) s =
     res_bind (Prune (shards s ! i)) (\<lambda>c. prune_shards is (set_shard i c s))"

definition s_Prune :: "sharded \<Rightarrow> sharded res" where
  "s_Prune s = prune_shards [0..<kNumShards] s"

definition TotalCharge :: "sharded \<Rightarrow> 64 word" where
  "TotalCharge s = sum_list (map usage (shards s))"

section \<open>The invariant\<close>

text \<open>Every shard has its invariant for the handles the client holds in it, and all the
  handles of a shard belong there.\<close>

definition home :: "nat \<Rightarrow> cache \<Rightarrow> bool" where
  "home i c = (\<forall>a e. heap c a = Some e \<longrightarrow> Shard (h_hash e) = i)"

definition sharded_inv :: "(nat \<times> nat) list \<Rightarrow> sharded \<Rightarrow> bool" where
  "sharded_inv hs s =
     (length (shards s) = kNumShards
      \<and> (\<forall>i < kNumShards. cache_inv (\<lambda>a. count_list hs (i, a)) (shards s ! i) \<and> home i (shards s ! i)))"

lemma Shard_less: "Shard hash < kNumShards"
proof -
  have "unat hash div 2 ^ 28 < 2 ^ 4" using unat_32 [of hash] by (simp add: less_mult_imp_div_less)
  then show ?thesis
    unfolding Shard_def kNumShards_def kNumShardBits_def unat_drop_bit_eq by (simp add: drop_bit_eq_div)
qed

text \<open>No operation changes the hash of a handle.\<close>

definition keeps_hash :: "cache \<Rightarrow> cache \<Rightarrow> bool" where
  "keeps_hash c c' = (\<forall>a e'. heap c' a = Some e' \<longrightarrow> (\<exists>e. heap c a = Some e \<and> h_hash e = h_hash e'))"

lemma keeps_refl [simp]: "keeps_hash c c"
  by (simp add: keeps_hash_def)

lemma keeps_trans: "keeps_hash c d \<Longrightarrow> keeps_hash d e \<Longrightarrow> keeps_hash c e"
  unfolding keeps_hash_def by metis

lemma keeps_htable [simp]: "keeps_hash (c\<lparr> htable := t \<rparr>) d = keeps_hash c d"
  by (simp add: keeps_hash_def)

lemma home_keeps: "home i c \<Longrightarrow> keeps_hash c c' \<Longrightarrow> home i c'"
  unfolding home_def keeps_hash_def by metis

lemmas cache_ops = deref_handle_def put_handle_def LRU_Remove_def Append_lru_def Append_in_use_def Let_def

lemma Unref_keeps: "Unref a c = Inr c' \<Longrightarrow> keeps_hash c c'"
  by (auto simp: Unref_def cache_ops keeps_hash_def res_simps split: option.splits if_splits)

lemma Ref_keeps: "Ref a c = Inr c' \<Longrightarrow> keeps_hash c c'"
  by (auto simp: Ref_def cache_ops keeps_hash_def res_simps split: option.splits if_splits)

lemma FinishErase_keeps:
  assumes "FinishErase r c = Inr (b, c')"
  shows "keeps_hash c c'"
proof (cases r)
  case (Some a)
  then obtain e where e: "heap c a = Some e"
    "Unref a ((put_handle a (e\<lparr> in_cache := False \<rparr>) (LRU_Remove a c))\<lparr> usage := usage (LRU_Remove a c) - charge e \<rparr>) = Inr c'"
    using assms by (auto simp: FinishErase_def deref_handle_def put_handle_def Let_def res_simps
        split: option.splits if_splits)
  have "keeps_hash c ((put_handle a (e\<lparr> in_cache := False \<rparr>) (LRU_Remove a c))\<lparr> usage := usage (LRU_Remove a c) - charge e \<rparr>)"
    using e(1) by (auto simp: keeps_hash_def cache_ops)
  then show ?thesis using Unref_keeps [OF e(2)] by (rule keeps_trans)
qed (use assms in \<open>simp add: FinishErase_def\<close>)

lemma evict_keeps: "evict n cond c = Inr c' \<Longrightarrow> keeps_hash c c'"
proof (induction n arbitrary: c)
  case (Suc n)
  show ?case
  proof (cases "cond c \<and> lru c \<noteq> []")
    case True
    then obtain r t b d where "FinishErase r (c\<lparr> htable := t \<rparr>) = Inr (b, d)" "evict n cond d = Inr c'"
      using Suc.prems by (subst (asm) evict.simps) (auto simp: res_simps split: if_splits)
    then show ?thesis using FinishErase_keeps [of r "c\<lparr> htable := t \<rparr>"] Suc.IH keeps_trans by fastforce
  qed (use Suc.prems in \<open>subst (asm) evict.simps, auto\<close>)
qed (subst (asm) evict.simps, auto split: if_splits)

lemma Lookup_keeps: "Lookup key hash c = Inr (r, c') \<Longrightarrow> keeps_hash c c'"
  by (auto simp: Lookup_def res_simps split: option.splits dest: Ref_keeps)

lemma Erase_keeps: "Erase key hash c = Inr c' \<Longrightarrow> keeps_hash c c'"
  by (auto simp: Erase_def res_simps dest!: FinishErase_keeps)

lemma Insert_home:
  assumes "Insert key hash v ch c = Inr (a, c')" "home (Shard hash) c"
  shows "home (Shard hash) c'"
proof -
  obtain c1 where c1: "new_handle key hash v ch c = Inr (a, c1)"
    using assms(1) by (auto simp: Insert_def res_simps)
  then obtain e where h: "home (Shard hash) c1" "heap c1 a = Some e" "h_hash e = hash"
    using assms(2) by (auto simp: new_handle_def put_handle_def home_def Let_def split: if_splits)
  obtain c2 where c2: "keeps_hash c1 c2" "evict (length (lru c2)) (\<lambda>c. usage c > capacity c) c2 = Inr c'"
  proof (cases "capacity c1 > 0")
    case False
    then show ?thesis using assms(1) c1 h(2) that [of c1] by (auto simp: Insert_def deref_handle_def res_simps)
  next
    case True
    let ?d = "(Append_in_use a (put_handle a (e\<lparr> refs := refs e + 1, in_cache := True \<rparr>) c1))\<lparr> usage := usage c1 + ch \<rparr>"
    obtain old t b c2 where f: "FinishErase old (?d\<lparr> htable := t \<rparr>) = Inr (b, c2)"
      "evict (length (lru c2)) (\<lambda>c. usage c > capacity c) c2 = Inr c'"
      using assms(1) c1 h(2) True
      by (auto simp: Insert_def deref_handle_def res_simps Let_def Append_in_use_def put_handle_def)
    have "keeps_hash c1 (?d\<lparr> htable := t \<rparr>)" using h(2) by (auto simp: keeps_hash_def cache_ops)
    then show ?thesis using that f FinishErase_keeps keeps_trans by blast
  qed
  then show ?thesis using h(1) home_keeps evict_keeps by blast
qed

section \<open>Every operation keeps the invariant\<close>

lemma inv_shard:
  assumes "sharded_inv hs s"
  shows "cache_inv (\<lambda>a. count_list hs (Shard hash, a)) (shards s ! Shard hash)"
    "home (Shard hash) (shards s ! Shard hash)"
  using assms Shard_less by (auto simp: sharded_inv_def)

lemma inv_set_shard:
  assumes "sharded_inv hs s" "i < kNumShards" "cache_inv (\<lambda>a. count_list hs' (i, a)) c" "home i c"
    and "\<And>j a. j \<noteq> i \<Longrightarrow> count_list hs' (j, a) = count_list hs (j, a)"
  shows "sharded_inv hs' (set_shard i c s)"
  unfolding sharded_inv_def
proof (intro conjI allI impI)
  show "length (shards (set_shard i c s)) = kNumShards"
    using assms(1) by (simp add: set_shard_def sharded_inv_def)
  fix j assume j: "j < kNumShards"
  have "shards (set_shard i c s) ! j = (if j = i then c else shards s ! j)"
    using assms(1) j by (simp add: set_shard_def sharded_inv_def)
  then show "cache_inv (\<lambda>a. count_list hs' (j, a)) (shards (set_shard i c s) ! j)"
    "home j (shards (set_shard i c s) ! j)"
    using assms j by (simp_all add: sharded_inv_def)
qed

lemma shard_set_shard: "sharded_inv hs s \<Longrightarrow> i < kNumShards \<Longrightarrow> shards (set_shard i c s) ! i = c"
  by (simp add: set_shard_def sharded_inv_def)

lemma s_Insert_ok:
  assumes inv: "sharded_inv hs s" and key: "length key \<le> 8"
  defines "i \<equiv> Shard (HashSlice key)"
  shows "\<exists>c. s_Insert key v ch s = Inr ((i, fresh (shards s ! i)), set_shard i c s)
    \<and> Insert key (HashSlice key) v ch (shards s ! i) = Inr (fresh (shards s ! i), c)
    \<and> sharded_inv ((i, fresh (shards s ! i)) # hs) (set_shard i c s)
    \<and> (\<forall>a. 0 < count_list hs (i, a) \<longrightarrow> a \<noteq> fresh (shards s ! i) \<and> Value a c = Value a (shards s ! i))"
proof -
  let ?c = "shards s ! i" and ?ext = "\<lambda>a. count_list hs (i, a)"
  note si = inv_shard [OF inv, of "HashSlice key", folded i_def]
  have n: "count_list hs (i, fresh ?c) = 0" by (rule unallocated(2) [OF cache_invD(1) [OF si(1)]])
  obtain c where c: "Insert key (HashSlice key) v ch ?c = Inr (fresh ?c, c)"
    "cache_inv (?ext(fresh ?c := 1)) c" "held_values ?ext ?c c"
    using Insert_ok [OF si(1) key, of "HashSlice key" v ch] by blast
  have "?ext(fresh ?c := 1) = (\<lambda>a. count_list ((i, fresh ?c) # hs) (i, a))" using n by auto
  moreover have "home i c" using Insert_home [OF c(1)] si(2) by (simp add: i_def)
  ultimately have "sharded_inv ((i, fresh ?c) # hs) (set_shard i c s)"
    using inv_set_shard [OF inv, of i "(i, fresh ?c) # hs" c] c(2) Shard_less by (simp add: i_def)
  moreover have "a \<noteq> fresh ?c \<and> Value a c = Value a ?c" if "0 < count_list hs (i, a)" for a
    using that c(3) n by (auto simp: held_values_def Value_cases)
  ultimately show ?thesis using c(1) by (auto simp: s_Insert_def i_def Let_def)
qed

lemma s_Lookup_ok:
  fixes key :: string
  assumes inv: "sharded_inv hs s"
  defines "i \<equiv> Shard (HashSlice key)"
  shows "\<exists>r c. s_Lookup key s = Inr (map_option (Pair i) r, set_shard i c s)
    \<and> Lookup key (HashSlice key) (shards s ! i) = Inr (r, c)
    \<and> sharded_inv (case r of None \<Rightarrow> hs | Some a \<Rightarrow> (i, a) # hs) (set_shard i c s)"
proof -
  let ?hash = "HashSlice key" and ?c = "shards s ! i"
  note si = inv_shard [OF inv, of "HashSlice key", folded i_def]
  obtain r c where c: "Lookup key ?hash ?c = Inr (r, c)"
    "cache_inv (\<lambda>x. count_list hs (i, x) + of_bool (r = Some x)) c"
    using Lookup_ok [OF si(1), of key ?hash] by blast
  let ?hs = "case r of None \<Rightarrow> hs | Some a \<Rightarrow> (i, a) # hs"
  have "(\<lambda>x. count_list hs (i, x) + of_bool (r = Some x)) = (\<lambda>x. count_list ?hs (i, x))"
    by (auto split: option.splits)
  moreover have "home i c" using home_keeps [OF si(2) Lookup_keeps [OF c(1)]] .
  moreover have "count_list ?hs (j, a) = count_list hs (j, a)" if "j \<noteq> i" for j a
    using that by (cases r) auto
  ultimately have "sharded_inv ?hs (set_shard i c s)"
    using inv_set_shard [OF inv, of i ?hs c] c(2) Shard_less by (simp add: i_def)
  then show ?thesis using c(1) by (intro exI [of _ r] exI [of _ c]) (simp add: s_Lookup_def i_def Let_def)
qed

lemma s_Erase_ok:
  assumes inv: "sharded_inv hs s"
  shows "\<exists>s'. s_Erase key s = Inr s' \<and> sharded_inv hs s'"
proof -
  let ?i = "Shard (HashSlice key)"
  note si = inv_shard [OF inv, of "HashSlice key"]
  obtain c where c: "Erase key (HashSlice key) (shards s ! ?i) = Inr c" "cache_inv (\<lambda>a. count_list hs (?i, a)) c"
    using Erase_ok [OF si(1), of key "HashSlice key"] by blast
  then have "sharded_inv hs (set_shard ?i c s)"
    using home_keeps [OF si(2) Erase_keeps [OF c(1)]] Shard_less by (intro inv_set_shard [OF inv]) simp_all
  then show ?thesis using c(1) by (simp add: s_Erase_def)
qed

lemma s_Release_ok:
  assumes inv: "sharded_inv hs s" and h: "h \<in> set hs"  "fst h < kNumShards"
  shows "\<exists>s'. s_Release h s = Inr s' \<and> sharded_inv (remove1 h hs) s' \<and> (\<exists>x. s_Value h s = Inr x)"
proof -
  obtain i a where ia: "h = (i, a)" by (cases h)
  let ?c = "shards s ! i" and ?ext = "\<lambda>a. count_list hs (i, a)"
  have i: "i < kNumShards" using h(2) ia by simp
  then have si: "cache_inv ?ext ?c" "home i ?c" using inv by (simp_all add: sharded_inv_def)
  have pos: "0 < ?ext a" using h ia by (simp add: count_list_0_iff zero_less_iff_neq_zero)
  have "handle_ok (members (htable ?c)) ?ext ?c a" using cache_invD(1) [OF si(1)] by (simp add: cached_inv_def)
  then obtain e where e: "heap ?c a = Some e" using pos by (auto simp: handle_ok_def split: option.splits)
  then have hash: "Shard (h_hash e) = i" using si(2) by (simp add: home_def)
  obtain c where c: "Release a ?c = Inr c" "cache_inv (?ext(a := ?ext a - 1)) c"
    using Release_ok [OF si(1) pos] by blast
  have "?ext(a := ?ext a - 1) = (\<lambda>x. count_list (remove1 h hs) (i, x))"
    by (auto simp: count_list_remove1 ia)
  then have "sharded_inv (remove1 h hs) (set_shard i c s)"
    using c home_keeps [OF si(2)] Unref_keeps i
    by (intro inv_set_shard [OF inv]) (auto simp: Release_def count_list_remove1 ia)
  then show ?thesis using e hash c(1) by (simp add: s_Release_def s_Value_def Value_def deref_handle_def ia)
qed

text \<open>A client of the sharded cache.\<close>

inductive sharded_step :: "sharded \<times> (nat \<times> nat) list \<Rightarrow> sharded \<times> (nat \<times> nat) list \<Rightarrow> bool" where
  "length key \<le> 8 \<Longrightarrow> s_Insert key v ch s = Inr (h, s') \<Longrightarrow> sharded_step (s, hs) (s', h # hs)"
| "s_Lookup key s = Inr (r, s') \<Longrightarrow> sharded_step (s, hs) (s', case r of None \<Rightarrow> hs | Some h \<Rightarrow> h # hs)"
| "h \<in> set hs \<Longrightarrow> s_Release h s = Inr s' \<Longrightarrow> sharded_step (s, hs) (s', remove1 h hs)"
| "s_Erase key s = Inr s' \<Longrightarrow> sharded_step (s, hs) (s', hs)"

definition sharded_ok :: "sharded \<times> (nat \<times> nat) list \<Rightarrow> bool" where
  "sharded_ok x = (sharded_inv (snd x) (fst x) \<and> (\<forall>h \<in> set (snd x). fst h < kNumShards))"

lemma sharded_step_ok: "sharded_step x y \<Longrightarrow> sharded_ok x \<Longrightarrow> sharded_ok y"
proof (induction rule: sharded_step.induct)
  case (1 key v ch s h s' hs)
  then show ?case using s_Insert_ok [of hs s key v ch] Shard_less by (auto simp: sharded_ok_def)
next
  case (2 key s r s' hs)
  then obtain q c where "r = map_option (Pair (Shard (HashSlice key))) q"
    "sharded_inv (case q of None \<Rightarrow> hs | Some a \<Rightarrow> (Shard (HashSlice key), a) # hs) s'"
    using s_Lookup_ok [of hs s key] by (auto simp: sharded_ok_def)
  then show ?case using 2 Shard_less by (cases q) (auto simp: sharded_ok_def)
next
  case (3 h hs s s')
  then show ?case using s_Release_ok [of hs s h] by (auto simp: sharded_ok_def dest: notin_set_remove1)
next
  case (4 key s s' hs)
  then show ?case using s_Erase_ok [of hs s key] by (auto simp: sharded_ok_def)
qed

lemma sharded_init: "sharded_ok (ShardedLRUCache cap, [])"
  using init_inv by (auto simp: sharded_ok_def sharded_inv_def ShardedLRUCache_def home_def LRUCache_def)

lemma sharded_reachable:
  "sharded_step\<^sup>*\<^sup>* (ShardedLRUCache cap, []) x \<Longrightarrow> sharded_ok x"
  by (induction rule: rtranclp_induct) (auto intro: sharded_init sharded_step_ok)

section \<open>Properties\<close>



end
