(* ===== verification/Random_Gen.thy ===== *)
theory Random_Gen
  imports Prelude
begin

text \<open>
  The random numbers of \<open>ComponentsW/common/random.h\<close>, which choose the heights in the
  skip lists: the multiplicative generator of Park and Miller over the 31-bit Mersenne
  prime, with the division replaced by shifts.
\<close>

unbundle bit_operations_syntax

definition M :: "32 word" where
  "M = 2147483647"

definition Random :: "32 word \<Rightarrow> 32 word" where
  "Random s =
     (let seed = s AND 0x7fffffff in if seed = 0 \<or> seed = 2147483647 then 1 else seed)"

definition Next :: "32 word \<Rightarrow> 32 word" where
  "Next seed =
     (let product = (ucast seed :: 64 word) * 16807;
          seed = ucast (drop_bit 31 product + (product AND ucast M)) in
      if seed > M then seed - M else seed)"

text \<open>The results are the number and the new seed.  A zero \<open>n\<close> divides by zero.\<close>

definition Uniform :: "32 word \<Rightarrow> 32 word \<Rightarrow> 32 word \<times> 32 word" where
  "Uniform n seed = (Next seed mod n, Next seed)"

definition OneIn :: "32 word \<Rightarrow> 32 word \<Rightarrow> bool \<times> 32 word" where
  "OneIn n seed = (Next seed mod n = 0, Next seed)"

definition Skewed :: "32 word \<Rightarrow> 32 word \<Rightarrow> 32 word \<times> 32 word" where
  "Skewed max_log seed =
     (let (k, seed) = Uniform (max_log + 1) seed in Uniform (push_bit (unat k) 1) seed)"

section \<open>Lemmas\<close>

definition good_seed :: "32 word \<Rightarrow> bool" where
  "good_seed s = (0 < unat s \<and> unat s < 2147483647)"

lemma not_multiple:
  assumes "0 < s" "s < 2147483647"
  shows "\<not> (2147483647 :: nat) dvd s * 16807"
proof
  assume "(2147483647 :: nat) dvd s * 16807"
  then have "2147483647 dvd s * 16807 * 1407677000" by (rule dvd_mult2)
  moreover have "s * 16807 * 1407677000 = s + 2147483647 * (s * 11017)" by simp
  ultimately have "2147483647 dvd s + 2147483647 * (s * 11017)" by metis
  then have "2147483647 dvd s" using dvd_add_left_iff [OF dvd_triv_left, of 2147483647 s "s * 11017"] by blast
  then have "2147483647 \<le> s" using assms(1) by (rule dvd_imp_le)
  with assms(2) show False by linarith
qed

text \<open>The shifts compute a representative of the product modulo \<open>M\<close>, and one subtraction
  makes it the remainder.\<close>

lemma fold_mod: "(p div Suc m + p mod Suc m) mod m = (p mod m :: nat)"
proof -
  have "p = p div Suc m * m + (p div Suc m + p mod Suc m)"
    using div_mult_mod_eq [of p "Suc m"] by simp
  then show ?thesis by (metis mod_mult_self3)
qed

lemma reduce_mod:
  fixes p m :: nat
  assumes "p div Suc m < m" "\<not> m dvd p" and t: "t = p div Suc m + p mod Suc m"
  shows "(if t > m then t - m else t) = p mod m"
proof -
  have "p mod Suc m \<le> m" by (simp add: less_Suc_eq_le [symmetric])
  then have "t < 2 * m" using assms by linarith
  moreover have "t mod m = p mod m" by (simp add: t fold_mod)
  moreover have "t \<noteq> m" using \<open>t mod m = p mod m\<close> assms(2) by (auto simp: dvd_eq_mod_eq_0)
  ultimately show ?thesis using le_mod_geq [of m t] by (cases "t > m") auto
qed

lemma unat_fold:
  assumes "unat w < 2147483648 * 2147483648"
  shows "unat (ucast (drop_bit 31 w + (w AND 2147483647) :: 64 word) :: 32 word) = (unat w div 2147483648 + unat w mod 2147483648) mod 2^32"
proof -
  have a: "w AND 2147483647 = take_bit 31 w" by (simp add: take_bit_eq_mask mask_eq_exp_minus_1)
  have "unat (drop_bit 31 w) = unat w div 2147483648"
    unfolding unat_drop_bit_eq by (simp add: drop_bit_eq_div)
  moreover have "unat (take_bit 31 w) = unat w mod 2147483648"
    by (simp add: unsigned_take_bit_eq) (simp add: take_bit_eq_mod)
  moreover have "unat w div 2147483648 < 2147483648" using assms by (simp add: less_mult_imp_div_less)
  moreover have "unat w mod 2147483648 < 2147483648" by simp
  ultimately show ?thesis
    unfolding a unsigned_ucast_eq unat_word_ariths by (simp add: take_bit_eq_mod)
qed

lemma unat_Next:
  assumes "good_seed s"
  shows "unat (Next s) = unat s * 16807 mod 2147483647"
proof -
  let ?w = "(ucast s :: 64 word) * 16807"
  define p where "p = unat s * 16807"
  define t where "t = p div Suc 2147483647 + p mod Suc 2147483647"
  have s: "0 < unat s" "unat s < 2147483647" using assms by (simp_all add: good_seed_def)
  have w: "unat ?w = p" using s by (simp add: unat_word_ariths p_def)
  have d: "p div Suc 2147483647 < 16807" using s by (simp add: less_mult_imp_div_less p_def)
  moreover have "p mod Suc 2147483647 < Suc 2147483647" by (rule mod_less_divisor) simp
  ultimately have "t < 2 ^ 32" by (simp add: t_def)
  moreover have "p < 2147483648 * 2147483648" using s by (simp add: p_def)
  ultimately have u: "unat (ucast (drop_bit 31 ?w + (?w AND 2147483647)) :: 32 word) = t"
    using unat_fold [of ?w] by (simp add: w t_def)
  have "(if t > 2147483647 then t - 2147483647 else t) = p mod 2147483647"
    using d not_multiple [OF s] by (intro reduce_mod) (simp_all add: t_def p_def)
  then show ?thesis
    by (cases "t > 2147483647")
      (simp_all add: Next_def Let_def word_less_nat_alt M_def unat_sub word_le_nat_alt u p_def)
qed

lemma good_Next:
  assumes "good_seed s"
  shows "good_seed (Next s)"
  using assms not_multiple [of "unat s"] mod_less_divisor [of 2147483647 "unat s * 16807"]
  by (auto simp: good_seed_def unat_Next dvd_eq_mod_eq_0)

lemma good_Random: "good_seed (Random x)"
proof -
  define y where "y = x AND 0x7fffffff"
  have "y = take_bit 31 x" by (simp add: y_def take_bit_eq_mask mask_eq_exp_minus_1)
  then have "unat y < 2147483648" by (simp add: unsigned_take_bit_eq) (simp add: take_bit_eq_mod)
  moreover have "y = 0 \<longleftrightarrow> unat y = 0" "y = 2147483647 \<longleftrightarrow> unat y = 2147483647"
    by (simp_all add: word_unat_eq_iff)
  ultimately have "y = 0 \<or> y = 2147483647 \<or> good_seed y" by (auto simp: good_seed_def)
  then show ?thesis by (auto simp: Random_def Let_def y_def [symmetric] good_seed_def)
qed

section \<open>Properties\<close>

text \<open>
  C30.  From every seed the constructor accepts, the \<open>k\<close>-th number of the generator is
  \<open>seed * 16807 ^ k mod (2 ^ 31 - 1)\<close>, as the comment of \<open>Next\<close> says: the shifts
  replace the division, and neither 0 nor \<open>M\<close> is ever reached; and \<open>Uniform\<close> stays
  below its bound.
\<close>

theorem random_sequence:
  "unat ((Next ^^ k) (Random x)) = unat (Random x) * 16807 ^ k mod 2147483647
   \<and> 0 < unat ((Next ^^ k) (Random x)) \<and> unat ((Next ^^ k) (Random x)) < 2147483647
   \<and> (n = 0 \<or> fst (Uniform n ((Next ^^ k) (Random x))) < n)"
proof -
  have "good_seed ((Next ^^ k) (Random x)) \<and>
      unat ((Next ^^ k) (Random x)) = unat (Random x) * 16807 ^ k mod 2147483647"
  proof (induction k)
    case 0
    show ?case using good_Random [of x] by (simp add: good_seed_def)
  next
    case (Suc k)
    then show ?case
      by (simp add: good_Next unat_Next mod_mult_left_eq mult.assoc mult.commute [of 16807])
  qed
  moreover have "n \<noteq> 0 \<Longrightarrow> y mod n < n" for y :: "32 word"
    by (simp add: word_mod_less_divisor word_neq_0_conv)
  ultimately show ?thesis unfolding good_seed_def Uniform_def by auto
qed

end
