(* ===== verification/Timers.thy ===== *)
theory Timers
  imports Prelude "HOL-Library.Multiset"
begin

text \<open>
  The timer containers of \<open>tiny_server/timer\<close>: the sorted list \<open>TimerList\<close>, the
  search tree \<open>TimerTree\<close> and the wheel \<open>TimerWheel\<close>.  A timer is the address of its
  object, \<open>due\<close> gives the due time the object was made with, and \<open>handleExpired\<close>
  returns the timers whose callbacks it runs, in that order.  The callbacks do not touch
  the container.
\<close>

type_synonym timer = nat

section \<open>The sorted list\<close>

text \<open>\<open>std::upper_bound\<close> on a range that is sorted by \<open>lt\<close>: the position before the
  first element that \<open>x\<close> comes before.\<close>

fun upper_bound :: "('a \<Rightarrow> 'a \<Rightarrow> bool) \<Rightarrow> 'a \<Rightarrow> 'a list \<Rightarrow> nat" where
  "upper_bound lt x [] = 0"
| "upper_bound lt x (y # ys) = (if lt x y then 0 else Suc (upper_bound lt x ys))"

definition TimerList_getMinExpired :: "(timer \<Rightarrow> int) \<Rightarrow> timer list \<Rightarrow> int" where
  "TimerList_getMinExpired due timers = (if timers = [] then -1 else due (hd timers))"

fun TimerList_handleExpired :: "(timer \<Rightarrow> int) \<Rightarrow> int \<Rightarrow> timer list \<Rightarrow> timer list \<times> timer list" where
  "TimerList_handleExpired due now [] = ([], [])"
| "TimerList_handleExpired due now (t # ts) =
     (if due t \<le> now then
        let (fired, rest) = TimerList_handleExpired due now ts in (t # fired, rest)
      else ([], t # ts))"

definition CompareByTimePtr2 :: "(timer \<Rightarrow> int) \<Rightarrow> timer \<Rightarrow> timer \<Rightarrow> bool" where
  "CompareByTimePtr2 due lhs rhs = (due lhs < due rhs)"

definition TimerList_addTimer :: "(timer \<Rightarrow> int) \<Rightarrow> timer \<Rightarrow> timer list \<Rightarrow> timer list" where
  "TimerList_addTimer due timer timers =
     (let i = upper_bound (CompareByTimePtr2 due) timer timers in
      take i timers @ timer # drop i timers)"

definition TimerList_delTimer :: "timer \<Rightarrow> timer list \<Rightarrow> timer list" where
  "TimerList_delTimer timer timers = removeAll timer timers"

section \<open>The search tree\<close>

text \<open>\<open>std::set<std::pair<time_t, Timer*> >\<close>: its elements in ascending order, each
  once.  Pairs compare by the time and then by the address.\<close>

type_synonym tree = "(int \<times> timer) list"

definition pair_less :: "int \<times> timer \<Rightarrow> int \<times> timer \<Rightarrow> bool" where
  "pair_less a b = (fst a < fst b \<or> fst a = fst b \<and> snd a < snd b)"

fun set_insert :: "int \<times> timer \<Rightarrow> tree \<Rightarrow> tree" where
  "set_insert x [] = [x]"
| "set_insert x (y # ys) =
     (if pair_less x y then x # y # ys else if pair_less y x then y # set_insert x ys else y # ys)"

definition TimerTree_getMinExpired :: "tree \<Rightarrow> int" where
  "TimerTree_getMinExpired timers = (if timers = [] then -1 else fst (hd timers))"

fun TimerTree_handleExpired :: "int \<Rightarrow> tree \<Rightarrow> timer list \<times> tree" where
  "TimerTree_handleExpired now [] = ([], [])"
| "TimerTree_handleExpired now (x # xs) =
     (if fst x \<le> now then
        let (fired, rest) = TimerTree_handleExpired now xs in (snd x # fired, rest)
      else ([], x # xs))"

definition TimerTree_addTimer :: "(timer \<Rightarrow> int) \<Rightarrow> timer \<Rightarrow> tree \<Rightarrow> tree" where
  "TimerTree_addTimer due timer timers = set_insert (due timer, timer) timers"

definition TimerTree_delTimer :: "(timer \<Rightarrow> int) \<Rightarrow> timer \<Rightarrow> tree \<Rightarrow> tree" where
  "TimerTree_delTimer due timer timers = removeAll (due timer, timer) timers"

section \<open>The wheel\<close>

record tw_timer =
  rotation :: nat
  time_slot :: nat

record wheel =
  cur_slot :: nat
  slots :: "tw_timer list list"

definition N_slots :: nat where
  "N_slots = 6"

definition slot_interval :: int where
  "slot_interval = 2"

definition TimerWheel :: wheel where
  "TimerWheel = \<lparr> cur_slot = 0, slots = replicate N_slots [] \<rparr>"

definition TimerWheel_addTimer :: "int \<Rightarrow> wheel \<Rightarrow> tw_timer option \<times> wheel" where
  "TimerWheel_addTimer timeout w =
     (if timeout < 0 then (None, w)
      else
        let ticks = (if timeout < slot_interval then 1 else nat (timeout div slot_interval));
            ts = (cur_slot w + ticks mod N_slots) mod N_slots;
            timer = \<lparr> rotation = ticks div N_slots, time_slot = ts \<rparr> in
        (Some timer, w\<lparr> slots := (slots w)[ts := timer # slots w ! ts] \<rparr>))"

text \<open>One pass over a slot: the timers that fire, and those that stay.\<close>

fun tick_slot :: "tw_timer list \<Rightarrow> tw_timer list \<times> tw_timer list" where
  "tick_slot [] = ([], [])"
| "tick_slot (tmp # ts) =
     (let (fired, kept) = tick_slot ts in
      if rotation tmp > 0 then (fired, tmp\<lparr> rotation := rotation tmp - 1 \<rparr> # kept)
      else (tmp # fired, kept))"

text \<open>The last statement of \<open>tick\<close> is \<open>cur_slot==++cur_slot % N\<close>: a comparison, whose only
  effect is the increment.\<close>

definition tick :: "wheel \<Rightarrow> (tw_timer list \<times> wheel) res" where
  "tick w =
     (if cur_slot w \<ge> N_slots then Inl Overrun
      else let (fired, kept) = tick_slot (slots w ! cur_slot w) in
        Inr (fired, w\<lparr> slots := (slots w)[cur_slot w := kept], cur_slot := cur_slot w + 1 \<rparr>))"

datatype wheel_op = Add_Timer int | Tick

fun wheel_exec :: "wheel_op list \<Rightarrow> wheel \<Rightarrow> (tw_timer list list \<times> wheel) res" where
  "wheel_exec [] w = Inr ([], w)"
| "wheel_exec (Add_Timer n # ops) w = wheel_exec ops (snd (TimerWheel_addTimer n w))"
| "wheel_exec (Tick # ops) w =
     res_bind (tick w) (\<lambda>(fired, w).
     res_bind (wheel_exec ops w) (\<lambda>(more, w). Inr (fired # more, w)))"

section \<open>The interface of a container\<close>

record 's queue =
  q_new :: 's
  q_add :: "timer \<Rightarrow> 's \<Rightarrow> 's"
  q_del :: "timer \<Rightarrow> 's \<Rightarrow> 's"
  q_min :: "'s \<Rightarrow> int"
  q_handle :: "int \<Rightarrow> 's \<Rightarrow> timer list \<times> 's"

definition list_queue :: "(timer \<Rightarrow> int) \<Rightarrow> timer list queue" where
  "list_queue due =
     \<lparr> q_new = [], q_add = TimerList_addTimer due, q_del = TimerList_delTimer,
       q_min = TimerList_getMinExpired due, q_handle = TimerList_handleExpired due \<rparr>"

definition tree_queue :: "(timer \<Rightarrow> int) \<Rightarrow> tree queue" where
  "tree_queue due =
     \<lparr> q_new = [], q_add = TimerTree_addTimer due, q_del = TimerTree_delTimer due,
       q_min = TimerTree_getMinExpired, q_handle = TimerTree_handleExpired \<rparr>"

text \<open>A program that uses a container, and what it sees: the results of
  \<open>getMinExpired\<close>, and which timers a \<open>handleExpired\<close> runs, with their due times in the
  order of the calls.\<close>

datatype op = Add timer | Del timer | Min_Expired | Handle int

datatype seen = Saw_Min int | Saw_Fired "timer set" "int list"

fun timer_exec :: "(timer \<Rightarrow> int) \<Rightarrow> 's queue \<Rightarrow> op list \<Rightarrow> 's \<Rightarrow> seen list" where
  "timer_exec due q [] s = []"
| "timer_exec due q (Add t # ops) s = timer_exec due q ops (q_add q t s)"
| "timer_exec due q (Del t # ops) s = timer_exec due q ops (q_del q t s)"
| "timer_exec due q (Min_Expired # ops) s = Saw_Min (q_min q s) # timer_exec due q ops s"
| "timer_exec due q (Handle now # ops) s =
     (let (fired, s) = q_handle q now s in
      Saw_Fired (set fired) (map due fired) # timer_exec due q ops s)"

text \<open>The specification: a set of pending timers.\<close>

fun timer_spec :: "(timer \<Rightarrow> int) \<Rightarrow> op list \<Rightarrow> timer set \<Rightarrow> seen list" where
  "timer_spec due [] L = []"
| "timer_spec due (Add t # ops) L = timer_spec due ops (insert t L)"
| "timer_spec due (Del t # ops) L = timer_spec due ops (L - {t})"
| "timer_spec due (Min_Expired # ops) L = Saw_Min (if L = {} then -1 else Min (due ` L)) # timer_spec due ops L"
| "timer_spec due (Handle now # ops) L =
     Saw_Fired {t \<in> L. due t \<le> now}
       (sorted_list_of_multiset (image_mset due (mset_set {t \<in> L. due t \<le> now})))
     # timer_spec due ops {t \<in> L. now < due t}"

text \<open>A timer is not added while it is pending.\<close>

fun fresh_adds :: "(timer \<Rightarrow> int) \<Rightarrow> op list \<Rightarrow> timer set \<Rightarrow> bool" where
  "fresh_adds due [] L = True"
| "fresh_adds due (Add t # ops) L = (t \<notin> L \<and> fresh_adds due ops (insert t L))"
| "fresh_adds due (Del t # ops) L = fresh_adds due ops (L - {t})"
| "fresh_adds due (Min_Expired # ops) L = fresh_adds due ops L"
| "fresh_adds due (Handle now # ops) L = fresh_adds due ops {t \<in> L. now < due t}"

locale timer_queue =
  fixes due :: "timer \<Rightarrow> int" and q :: "'s queue" and live :: "'s \<Rightarrow> timer set" and wf :: "'s \<Rightarrow> bool"
  assumes new: "wf (q_new q)" "live (q_new q) = {}"
    and finite_live: "wf s \<Longrightarrow> finite (live s)"
    and add: "wf s \<Longrightarrow> t \<notin> live s \<Longrightarrow> wf (q_add q t s)"
      "wf s \<Longrightarrow> t \<notin> live s \<Longrightarrow> live (q_add q t s) = insert t (live s)"
    and del: "wf s \<Longrightarrow> wf (q_del q t s)" "wf s \<Longrightarrow> live (q_del q t s) = live s - {t}"
    and min: "wf s \<Longrightarrow> q_min q s = (if live s = {} then -1 else Min (due ` live s))"
    and handle: "wf s \<Longrightarrow> q_handle q now s = (fired, s') \<Longrightarrow>
        wf s' \<and> live s' = {t \<in> live s. now < due t} \<and> set fired = {t \<in> live s. due t \<le> now}
        \<and> distinct fired \<and> sorted (map due fired)"
begin

lemma fired_order:
  assumes "distinct fired" "sorted (map due fired)"
  shows "map due fired = sorted_list_of_multiset (image_mset due (mset_set (set fired)))"
proof -
  have "image_mset due (mset_set (set fired)) = mset (map due fired)"
    using assms(1) by (simp add: mset_set_set)
  then show ?thesis using assms(2) by (simp only: sorted_list_of_multiset_mset sorted_sort_id)
qed

lemma exec_spec: "wf s \<Longrightarrow> fresh_adds due ops (live s) \<Longrightarrow> timer_exec due q ops s = timer_spec due ops (live s)"
proof (induction ops arbitrary: s)
  case (Cons op ops)
  show ?case
  proof (cases op)
    case (Handle now)
    obtain fired s' where h: "q_handle q now s = (fired, s')" by (cases "q_handle q now s")
    note h' = handle [OF Cons.prems(1) h]
    then have "timer_exec due q ops s' = timer_spec due ops (live s')"
      using Cons.prems(2) Handle by (intro Cons.IH) simp_all
    then show ?thesis using h h' fired_order [of fired] Handle by simp
  qed (use Cons in \<open>simp_all add: add del min\<close>)
qed simp

end

section \<open>The two containers keep the contract\<close>

lemma list_add:
  "TimerList_addTimer due t ts = takeWhile (\<lambda>x. due x \<le> due t) ts @ t # dropWhile (\<lambda>x. due x \<le> due t) ts"
proof -
  have "upper_bound (CompareByTimePtr2 due) t ts = length (takeWhile (\<lambda>x. due x \<le> due t) ts)"
    by (induction ts) (auto simp: CompareByTimePtr2_def)
  then show ?thesis
    by (simp add: TimerList_addTimer_def Let_def takeWhile_eq_take [symmetric] dropWhile_eq_drop [symmetric])
qed

lemma list_handle:
  "TimerList_handleExpired due now ts = (takeWhile (\<lambda>t. due t \<le> now) ts, dropWhile (\<lambda>t. due t \<le> now) ts)"
  by (induction ts) auto

lemma sorted_split:
  assumes "sorted (map f xs)"
  shows "set (takeWhile (\<lambda>x. f x \<le> n) xs) = {x \<in> set xs. f x \<le> (n :: 'b::linorder)}"
    "set (dropWhile (\<lambda>x. f x \<le> n) xs) = {x \<in> set xs. n < f x}"
  using assms by (induction xs) auto

lemma sorted_insert:
  assumes "sorted (map f xs)"
  shows "sorted (map f (takeWhile (\<lambda>x. f x \<le> f t) xs) @ f t # map f (dropWhile (\<lambda>x. f x \<le> (f t :: 'b::linorder)) xs))"
  using assms by (induction xs) (auto dest: set_takeWhileD set_dropWhileD)

lemma sorted_pieces:
  assumes "sorted (map f xs)"
  shows "sorted (map f (takeWhile P xs))" "sorted (map f (dropWhile P xs))"
  using assms by (induction xs) (auto dest: set_takeWhileD)

definition list_wf :: "(timer \<Rightarrow> int) \<Rightarrow> timer list \<Rightarrow> bool" where
  "list_wf due ts = (sorted (map due ts) \<and> distinct ts)"

interpretation tl: timer_queue due "list_queue due" set "list_wf due" for due
proof
  fix s t now fired s'
  assume s: "list_wf due s"
  then have srt: "sorted (map due s)" and dst: "distinct s" by (simp_all add: list_wf_def)
  have split: "set s = set (takeWhile (\<lambda>x. due x \<le> n) s) \<union> set (dropWhile (\<lambda>x. due x \<le> n) s)" for n
    by (metis set_append takeWhile_dropWhile_id)
  show "finite (set s)" by simp
  show "set (q_add (list_queue due) t s) = insert t (set s)"
    using split [of "due t"] by (auto simp: list_queue_def list_add)
  show "list_wf due (q_add (list_queue due) t s)" if "t \<notin> set s"
  proof -
    have "distinct (takeWhile (\<lambda>x. due x \<le> due t) s @ dropWhile (\<lambda>x. due x \<le> due t) s)" using dst by simp
    then show ?thesis using that srt split [of "due t"]
      by (auto simp: list_queue_def list_add list_wf_def sorted_insert simp del: takeWhile_dropWhile_id)
  qed
  show "list_wf due (q_del (list_queue due) t s)"
    using srt dst by (simp add: list_queue_def TimerList_delTimer_def list_wf_def
        removeAll_filter_not_eq sorted_filter)
  show "set (q_del (list_queue due) t s) = set s - {t}"
    by (auto simp: list_queue_def TimerList_delTimer_def)
  show "q_min (list_queue due) s = (if set s = {} then - 1 else Min (due ` set s))"
    using srt by (cases s) (auto simp: list_queue_def TimerList_getMinExpired_def intro!: Min_eqI [symmetric])
  assume "q_handle (list_queue due) now s = (fired, s')"
  then have "fired = takeWhile (\<lambda>t. due t \<le> now) s" "s' = dropWhile (\<lambda>t. due t \<le> now) s"
    by (simp_all add: list_queue_def list_handle)
  then show "list_wf due s' \<and> set s' = {t \<in> set s. now < due t} \<and> set fired = {t \<in> set s. due t \<le> now}
      \<and> distinct fired \<and> sorted (map due fired)"
    using srt dst sorted_split [of due s now]
    by (simp add: list_wf_def sorted_pieces)
qed (simp_all add: list_queue_def list_wf_def)

lemma set_set_insert: "set (set_insert x s) = insert x (set s)"
proof (induction s)
  case (Cons y s)
  have "\<not> pair_less x y \<Longrightarrow> \<not> pair_less y x \<Longrightarrow> x = y"
    by (cases x; cases y) (auto simp: pair_less_def)
  with Cons show ?case by auto
qed simp

lemma pair_less_trans: "pair_less a b \<Longrightarrow> pair_less b c \<Longrightarrow> pair_less a c"
  by (auto simp: pair_less_def)

lemma sorted_set_insert: "sorted_wrt pair_less s \<Longrightarrow> sorted_wrt pair_less (set_insert x s)"
  by (induction s) (auto simp: set_set_insert intro: pair_less_trans)

lemma tree_handle:
  "TimerTree_handleExpired now s =
     (map snd (takeWhile (\<lambda>x. fst x \<le> now) s), dropWhile (\<lambda>x. fst x \<le> now) s)"
  by (induction s) auto

lemma sorted_fst: "sorted_wrt pair_less s \<Longrightarrow> sorted (map fst s)"
  by (induction s) (auto simp: pair_less_def)

lemma sorted_distinct: "sorted_wrt pair_less s \<Longrightarrow> distinct s"
  by (induction s) (auto simp: pair_less_def)

definition tree_wf :: "(timer \<Rightarrow> int) \<Rightarrow> tree \<Rightarrow> bool" where
  "tree_wf due s = (sorted_wrt pair_less s \<and> (\<forall>x \<in> set s. fst x = due (snd x)))"

lemma tree_wf_inj: "tree_wf due s \<Longrightarrow> inj_on snd (set s)"
  by (auto simp: tree_wf_def inj_on_def prod_eq_iff)

interpretation tt: timer_queue due "tree_queue due" "\<lambda>s. snd ` set s" "tree_wf due" for due
proof
  fix s t now fired s'
  assume s: "tree_wf due s"
  then have srt: "sorted_wrt pair_less s" and d: "\<And>x. x \<in> set s \<Longrightarrow> fst x = due (snd x)"
    by (simp_all add: tree_wf_def)
  show "finite (snd ` set s)" by simp
  show "snd ` set (q_add (tree_queue due) t s) = insert t (snd ` set s)"
    by (simp add: tree_queue_def TimerTree_addTimer_def set_set_insert)
  show "tree_wf due (q_add (tree_queue due) t s)"
    using s by (auto simp: tree_queue_def TimerTree_addTimer_def tree_wf_def set_set_insert sorted_set_insert)
  show "tree_wf due (q_del (tree_queue due) t s)"
    using s by (auto simp: tree_queue_def TimerTree_delTimer_def tree_wf_def removeAll_filter_not_eq
        sorted_wrt_filter)
  show "snd ` set (q_del (tree_queue due) t s) = snd ` set s - {t}"
    using d by (force simp: tree_queue_def TimerTree_delTimer_def)
  show "q_min (tree_queue due) s = (if snd ` set s = {} then - 1 else Min (due ` snd ` set s))"
  proof (cases s)
    case (Cons x xs)
    have "due ` snd ` set s = fst ` set s" using d by (auto simp: image_image)
    moreover have "Min (fst ` set s) = fst x"
      using sorted_fst [OF srt] Cons by (intro Min_eqI) auto
    ultimately show ?thesis using Cons by (simp add: tree_queue_def TimerTree_getMinExpired_def)
  qed (simp add: tree_queue_def TimerTree_getMinExpired_def)
  assume "q_handle (tree_queue due) now s = (fired, s')"
  then have f: "fired = map snd (takeWhile (\<lambda>x. fst x \<le> now) s)" and s': "s' = dropWhile (\<lambda>x. fst x \<le> now) s"
    by (simp_all add: tree_queue_def tree_handle)
  have p: "set (takeWhile (\<lambda>x. fst x \<le> now) s) = {x \<in> set s. fst x \<le> now}"
    "set s' = {x \<in> set s. now < fst x}"
    using sorted_split [OF sorted_fst [OF srt], of now] s' by simp_all
  have "tree_wf due s'"
    using s p(2) sorted_wrt_drop [OF srt] by (auto simp: tree_wf_def s' dropWhile_eq_drop)
  moreover have "map due fired = map fst (takeWhile (\<lambda>x. fst x \<le> now) s)"
    using p(1) d by (auto simp: f)
  then have "sorted (map due fired)"
    using sorted_fst [OF srt] by (simp add: sorted_pieces)
  moreover have "distinct fired"
    using tree_wf_inj [OF s] sorted_distinct [OF srt] p(1)
    by (auto simp: f distinct_map intro: inj_on_subset)
  moreover have "snd ` set s' = {t \<in> snd ` set s. now < due t}" "set fired = {t \<in> snd ` set s. due t \<le> now}"
    using p d by (force simp: f)+
  ultimately show "tree_wf due s' \<and> snd ` set s' = {t \<in> snd ` set s. now < due t}
      \<and> set fired = {t \<in> snd ` set s. due t \<le> now} \<and> distinct fired \<and> sorted (map due fired)"
    by blast
qed (simp_all add: tree_queue_def tree_wf_def)

section \<open>Lemmas on the wheel\<close>

lemma cur_slot_add [simp]: "cur_slot (snd (TimerWheel_addTimer n w)) = cur_slot w"
  by (simp add: TimerWheel_addTimer_def Let_def)

lemma length_slots_add [simp]: "length (slots (snd (TimerWheel_addTimer n w))) = length (slots w)"
  by (simp add: TimerWheel_addTimer_def Let_def)

lemma tick_advances:
  "tick w = (if cur_slot w < N_slots then Inr (fst (tick_slot (slots w ! cur_slot w)),
     w\<lparr> slots := (slots w)[cur_slot w := snd (tick_slot (slots w ! cur_slot w))], cur_slot := cur_slot w + 1 \<rparr>)
   else Inl Overrun)"
  by (simp add: tick_def Let_def case_prod_unfold)

lemma wheel_exec_faults:
  "wheel_exec ops w = Inl Overrun \<longleftrightarrow> N_slots < cur_slot w + count_list ops Tick \<and> Tick \<in> set ops"
proof (induction ops arbitrary: w)
  case (Cons op ops)
  show ?case
  proof (cases op)
    case Tick
    show ?thesis
    proof (cases "cur_slot w < N_slots")
      case True
      define w' where "w' = snd (projr (tick w))"
      have w': "tick w = Inr (fst (projr (tick w)), w')" "cur_slot w' = Suc (cur_slot w)"
        using True by (simp_all add: w'_def tick_advances)
      have "wheel_exec (op # ops) w = Inl Overrun \<longleftrightarrow> wheel_exec ops w' = Inl Overrun"
        using Tick by (subst (1) Tick, simp, subst w'(1)) (cases "wheel_exec ops w'", auto)
      then show ?thesis
        using Cons [of w'] w'(2) True Tick count_list_0_iff [of ops Tick] by auto
    qed (use Tick in \<open>simp add: tick_advances\<close>)
  qed (use Cons in simp)
qed simp

section \<open>Properties\<close>

text \<open>
  C31.  Whatever sequence of calls a program makes, as long as it does not add a timer
  that is pending, the sorted list and the search tree behave as a set of pending timers:
  \<open>getMinExpired\<close> is the earliest due time or -1, and \<open>handleExpired\<close> runs exactly the
  timers that are due, in the order of their due times, and forgets them.
\<close>

theorem timers_refine_set:
  assumes "fresh_adds due ops {}"
  shows "timer_exec due (list_queue due) ops [] = timer_spec due ops {}
    \<and> timer_exec due (tree_queue due) ops [] = timer_spec due ops {}"
  using tl.exec_spec [of due "[]" ops] tt.exec_spec [of due "[]" ops] tl.new [of due] tt.new [of due] assms
  by (simp add: list_queue_def tree_queue_def)

theorem timers_refine_set_witness:
  "timer_exec int (list_queue int) [Add 5, Add 3, Min_Expired, Handle 4, Add 3] []
     = timer_spec int [Add 5, Add 3, Min_Expired, Handle 4, Add 3] {}
   \<and> timer_exec int (list_queue int) [Add 5, Add 3, Min_Expired, Handle 4, Add 3] []
     = [Saw_Min 3, Saw_Fired {3} [3]]"
  using timers_refine_set [of int "[Add 5, Add 3, Min_Expired, Handle 4, Add 3]"]
  by (simp add: list_queue_def list_add list_handle TimerList_getMinExpired_def)

text \<open>
  C40.  The wheel never turns past its last slot: whatever timers are added, the first
  six ticks succeed and the seventh reads \<open>wheel[6]\<close>, because \<open>tick\<close> compares the next
  index where it should assign it.
\<close>

theorem wheel_leaves_its_slots:
  "wheel_exec ops TimerWheel = Inl Overrun \<longleftrightarrow> 6 < count_list ops Tick"
proof -
  have "6 < count_list ops Tick \<Longrightarrow> Tick \<in> set ops"
    by (metis count_list_0_iff not_less0)
  then show ?thesis
    using wheel_exec_faults [of ops TimerWheel] by (auto simp: TimerWheel_def N_slots_def)
qed

end
