(* ===== verification/Skip_List.thy ===== *)
theory Skip_List
  imports Prelude
begin

text \<open>
  The skip list with iterators of \<open>ComponentsW/skiplist.leveldb/skiplist_iterator.h\<close>
  (the lists of \<open>skiplist_arena.h\<close> are the same without the iterators), over the keys
  \<open>int\<close>.  The nodes are in an explicit store: node 0 is \<open>head_\<close>, node \<open>n\<close> has
  \<open>nlevel n\<close> pointers, and a use of a pointer it does not have is \<open>Overrun\<close>.  The loops
  along a level are bounded by the number of nodes; a longer walk is \<open>Diverges\<close>.
\<close>

record skiplist =
  max_height :: nat
  nkey :: "nat \<Rightarrow> int"
  nlevel :: "nat \<Rightarrow> nat"
  nnext :: "nat \<Rightarrow> nat \<Rightarrow> nat option"
  nnodes :: nat

section \<open>Operations\<close>

definition Next_at :: "skiplist \<Rightarrow> nat \<Rightarrow> nat \<Rightarrow> nat option res" where
  "Next_at s n l = (if l < nlevel s n then Inr (nnext s n l) else Inl Overrun)"

definition SetNext :: "nat \<Rightarrow> nat \<Rightarrow> nat option \<Rightarrow> skiplist \<Rightarrow> skiplist res" where
  "SetNext n l x s =
     (if l < nlevel s n then Inr (s\<lparr> nnext := (nnext s)(n := (nnext s n)(l := x)) \<rparr>) else Inl Overrun)"

definition NewNode :: "int \<Rightarrow> nat \<Rightarrow> skiplist \<Rightarrow> nat \<times> skiplist" where
  "NewNode k lv s =
     (nnodes s, s\<lparr> nkey := (nkey s)(nnodes s := k), nlevel := (nlevel s)(nnodes s := lv), nnodes := Suc (nnodes s) \<rparr>)"

text \<open>\<open>rand\<close> are the results of the calls of \<open>rand()\<close>.\<close>

function random_level :: "nat \<Rightarrow> (nat \<Rightarrow> nat) \<Rightarrow> nat \<Rightarrow> nat" where
  "random_level maxh rand level =
     (if rand level mod 2 \<noteq> 0 \<and> level < maxh then random_level maxh rand (Suc level) else level)"
  by pat_completeness auto
termination
  by (relation "measure (\<lambda>(maxh, rand, level). maxh - level)") auto

declare random_level.simps [simp del]

definition RandomLevel :: "skiplist \<Rightarrow> (nat \<Rightarrow> nat) \<Rightarrow> nat" where
  "RandomLevel s rand = random_level (max_height s) rand 1"

definition SkipList :: "nat \<Rightarrow> skiplist" where
  "SkipList maxh =
     \<lparr> max_height = maxh, nkey = (\<lambda>_. 0), nlevel = (\<lambda>n. if n = 0 then maxh else 0),
       nnext = (\<lambda>_ _. None), nnodes = 1 \<rparr>"

fun walk :: "skiplist \<Rightarrow> nat \<Rightarrow> int \<Rightarrow> nat \<Rightarrow> nat \<Rightarrow> nat res" where
  "walk s l k 0 p = Inl Diverges"
| "walk s l k (Suc fuel) p =
     res_bind (Next_at s p l) (\<lambda>nx.
     case nx of
       None \<Rightarrow> Inr p
     | Some q \<Rightarrow> if nkey s q < k then walk s l k fuel q else Inr p)"

fun find_levels :: "skiplist \<Rightarrow> int \<Rightarrow> nat \<Rightarrow> nat \<Rightarrow> (nat \<Rightarrow> nat) \<Rightarrow> nat \<Rightarrow> ((nat \<Rightarrow> nat) \<times> nat) res" where
  "find_levels s k 0 p pre level = Inr (pre, level)"
| "find_levels s k (Suc l) p pre level =
     res_bind (walk s l k (nnodes s) p) (\<lambda>p.
     res_bind (Next_at s p l) (\<lambda>nx.
     let level = (case nx of
                    None \<Rightarrow> level
                  | Some q \<Rightarrow> if nkey s q = k \<and> level = 0 then Suc l else level) in
     find_levels s k l p (pre(l := p)) level))"

text \<open>The predecessors of the key on every level, and the level of its node or 0.\<close>

definition FindPre :: "skiplist \<Rightarrow> int \<Rightarrow> ((nat \<Rightarrow> nat) \<times> nat) res" where
  "FindPre s k = find_levels s k (max_height s) 0 (\<lambda>_. 0) 0"

fun link :: "nat \<Rightarrow> (nat \<Rightarrow> nat) \<Rightarrow> nat \<Rightarrow> skiplist \<Rightarrow> skiplist res" where
  "link n pre 0 s = Inr s"
| "link n pre (Suc l) s =
     res_bind (Next_at s (pre l) l) (\<lambda>nx.
     res_bind (SetNext n l nx s) (\<lambda>s.
     res_bind (SetNext (pre l) l (Some n) s) (\<lambda>s. link n pre l s)))"

definition sl_Insert :: "(nat \<Rightarrow> nat) \<Rightarrow> int \<Rightarrow> skiplist \<Rightarrow> skiplist res" where
  "sl_Insert rand k s =
     (let level = RandomLevel s rand in
      res_bind (FindPre s k) (\<lambda>(pre, found).
      if found \<noteq> 0 then Inr s
      else let (n, s) = NewNode k level s in link n pre level s))"

fun unlink :: "(nat \<Rightarrow> nat) \<Rightarrow> nat \<Rightarrow> skiplist \<Rightarrow> skiplist res" where
  "unlink pre 0 s = Inr s"
| "unlink pre (Suc l) s =
     res_bind (Next_at s (pre l) l) (\<lambda>nx.
     case nx of
       None \<Rightarrow> Inl NullDeref
     | Some q \<Rightarrow>
         res_bind (Next_at s q l) (\<lambda>nx.
         res_bind (SetNext (pre l) l nx s) (\<lambda>s. unlink pre l s)))"

definition sl_Remove :: "int \<Rightarrow> skiplist \<Rightarrow> skiplist res" where
  "sl_Remove k s =
     res_bind (FindPre s k) (\<lambda>(pre, level). if level = 0 then Inr s else unlink pre level s)"

definition sl_Contains :: "int \<Rightarrow> skiplist \<Rightarrow> bool res" where
  "sl_Contains k s = res_bind (FindPre s k) (\<lambda>(pre, level). Inr (level \<noteq> 0))"

text \<open>\<open>FindLast\<close> and \<open>FindLessThan\<close>, and \<open>FindGreaterOrEqual\<close> without \<open>prev\<close>: down one
  level where the next node is too far, along the level otherwise.\<close>

function descend :: "skiplist \<Rightarrow> (nat \<Rightarrow> bool) \<Rightarrow> nat \<Rightarrow> nat \<Rightarrow> nat \<Rightarrow> nat res" where
  "descend s before fuel level x =
     (case fuel of
        0 \<Rightarrow> Inl Diverges
      | Suc fuel \<Rightarrow>
          res_bind (Next_at s x level) (\<lambda>nx.
          case nx of
            Some q \<Rightarrow>
              if before q then descend s before fuel level q
              else if level = 0 then Inr x
              else descend s before (nnodes s) (level - 1) x
          | None \<Rightarrow> if level = 0 then Inr x else descend s before (nnodes s) (level - 1) x))"
  by pat_completeness auto
termination
  by (relation "(\<lambda>(s, before, fuel, level, x). level) <*mlex*> measure (\<lambda>(s, before, fuel, level, x). fuel)")
    (auto simp: mlex_prod_def)

declare descend.simps [simp del]

definition FindLast :: "skiplist \<Rightarrow> nat res" where
  "FindLast s = descend s (\<lambda>_. True) (nnodes s) (max_height s - 1) 0"

definition FindLessThan :: "skiplist \<Rightarrow> int \<Rightarrow> nat res" where
  "FindLessThan s k = descend s (\<lambda>q. nkey s q < k) (nnodes s) (max_height s - 1) 0"

definition FindGreaterOrEqual :: "skiplist \<Rightarrow> int \<Rightarrow> nat option res" where
  "FindGreaterOrEqual s k =
     res_bind (descend s (\<lambda>q. nkey s q < k) (nnodes s) (max_height s - 1) 0) (\<lambda>x. Next_at s x 0)"

text \<open>An iterator is its \<open>node_\<close>; \<open>None\<close> is not valid.\<close>

definition Iter_Next :: "skiplist \<Rightarrow> nat option \<Rightarrow> nat option res" where
  "Iter_Next s node = (case node of None \<Rightarrow> Inl CheckFailed | Some n \<Rightarrow> Next_at s n 0)"

definition Iter_Prev :: "skiplist \<Rightarrow> nat option \<Rightarrow> nat option res" where
  "Iter_Prev s node =
     (case node of
        None \<Rightarrow> Inl CheckFailed
      | Some n \<Rightarrow> res_bind (FindLessThan s (nkey s n)) (\<lambda>n. Inr (if n = 0 then None else Some n)))"

definition Iter_Seek :: "skiplist \<Rightarrow> int \<Rightarrow> nat option res" where
  "Iter_Seek s target = FindGreaterOrEqual s target"

definition Iter_SeekToFirst :: "skiplist \<Rightarrow> nat option res" where
  "Iter_SeekToFirst s = Next_at s 0 0"

definition Iter_SeekToLast :: "skiplist \<Rightarrow> nat option res" where
  "Iter_SeekToLast s = res_bind (FindLast s) (\<lambda>n. Inr (if n = 0 then None else Some n))"

text \<open>What \<open>Display\<close> prints: the keys and levels along level 0.\<close>

fun display_from :: "skiplist \<Rightarrow> nat \<Rightarrow> nat option \<Rightarrow> (int \<times> nat) list res" where
  "display_from s fuel None = Inr []"
| "display_from s 0 (Some p) = Inl Diverges"
| "display_from s (Suc fuel) (Some p) =
     res_bind (Next_at s p 0) (\<lambda>nx.
     res_bind (display_from s fuel nx) (\<lambda>out. Inr ((nkey s p, nlevel s p) # out)))"

definition Display :: "skiplist \<Rightarrow> (int \<times> nat) list res" where
  "Display s = res_bind (Next_at s 0 0) (\<lambda>nx. display_from s (nnodes s) nx)"

section \<open>Chains\<close>

fun path :: "(nat \<Rightarrow> nat option) \<Rightarrow> nat \<Rightarrow> nat list \<Rightarrow> bool" where
  "path f p [] = (f p = None)"
| "path f p (x # xs) = (f p = Some x \<and> path f x xs)"

lemma path_cong: "(\<And>x. x \<in> set (p # xs) \<Longrightarrow> f x = g x) \<Longrightarrow> path f p xs = path g p xs"
  by (induction xs arbitrary: p) auto

lemma path_upd [simp]: "z \<notin> set (p # xs) \<Longrightarrow> path (f(z := v)) p xs = path f p xs"
  by (rule path_cong) auto

lemma path_from: "path f p0 (A @ V) \<Longrightarrow> p0 # A = us @ p # vs \<Longrightarrow> path f p (vs @ V)"
proof (induction us arbitrary: p0 A)
  case (Cons u us)
  then show ?case by (cases A) auto
qed auto

lemma path_last: "path f p0 (A @ V) \<Longrightarrow> f (last (p0 # A)) = (case V of [] \<Rightarrow> None | x # _ \<Rightarrow> Some x)"
proof (induction A arbitrary: p0)
  case Nil
  then show ?case by (cases V) auto
qed (auto split: if_splits)

lemma path_insert:
  assumes "path f p0 (A @ V)" "n \<notin> set (p0 # A @ V)" "distinct (p0 # A @ V)" "p = last (p0 # A)"
  shows "path (f(n := f p, p := Some n)) p0 (A @ n # V)"
  using assms
proof (induction A arbitrary: p0)
  case Nil
  then show ?case by (cases V) (auto simp del: fun_upd_apply simp: fun_upd_same fun_upd_other)
next
  case (Cons a A)
  have "path (f(n := f p, p := Some n)) a (A @ n # V)"
    using Cons.prems by (intro Cons.IH) (simp_all split: if_splits)
  moreover have "p0 \<noteq> p" "p0 \<noteq> n" using Cons.prems by (auto split: if_splits)
  ultimately show ?case using Cons.prems(1) by (simp add: fun_upd_other del: fun_upd_apply)
qed

lemma path_delete:
  assumes "path f p0 (A @ x # V)" "distinct (p0 # A @ x # V)" "p = last (p0 # A)"
  shows "path (f(p := f x)) p0 (A @ V)"
  using assms
proof (induction A arbitrary: p0)
  case Nil
  then show ?case by (cases V) (auto simp del: fun_upd_apply simp: fun_upd_same fun_upd_other)
next
  case (Cons a A)
  have "path (f(p := f x)) a (A @ V)" using Cons.prems by (intro Cons.IH) (simp_all split: if_splits)
  moreover have "p0 \<noteq> p" using Cons.prems by (auto split: if_splits)
  ultimately show ?case using Cons.prems(1) by (simp add: fun_upd_other del: fun_upd_apply)
qed

section \<open>The invariant\<close>

text \<open>\<open>xs\<close> are the nodes of the list in the order of their keys: level \<open>l\<close> is the chain of
  those with more than \<open>l\<close> pointers.\<close>

definition at_level :: "skiplist \<Rightarrow> nat \<Rightarrow> nat list \<Rightarrow> nat list" where
  "at_level s l xs = filter (\<lambda>x. l < nlevel s x) xs"

definition sl_inv :: "skiplist \<Rightarrow> nat list \<Rightarrow> bool" where
  "sl_inv s xs =
     (0 < max_height s \<and> 0 < nnodes s \<and> nlevel s 0 = max_height s \<and> sorted_wrt (\<lambda>x y. nkey s x < nkey s y) xs
      \<and> (\<forall>x \<in> set xs. 0 < x \<and> x < nnodes s \<and> 0 < nlevel s x \<and> nlevel s x \<le> max_height s)
      \<and> (\<forall>l < max_height s. path (\<lambda>n. nnext s n l) 0 (at_level s l xs)))"

definition below :: "skiplist \<Rightarrow> int \<Rightarrow> nat list \<Rightarrow> nat list" where
  "below s k xs = filter (\<lambda>x. nkey s x < k) xs"

definition at_least :: "skiplist \<Rightarrow> int \<Rightarrow> nat list \<Rightarrow> nat list" where
  "at_least s k xs = filter (\<lambda>x. \<not> nkey s x < k) xs"

lemma sorted_filter_split:
  assumes "sorted_wrt R xs" "\<And>x y. R x y \<Longrightarrow> P y \<Longrightarrow> P x"
  shows "xs = filter P xs @ filter (\<lambda>x. \<not> P x) xs"
  using assms(1)
proof (induction xs)
  case (Cons x xs)
  show ?case
  proof (cases "P x")
    case False
    then have "\<forall>y \<in> set xs. \<not> P y" using Cons.prems assms(2) by auto
    then show ?thesis using False by simp
  qed (use Cons in simp)
qed simp

lemma sl_distinct: "sl_inv s xs \<Longrightarrow> distinct (0 # xs) \<and> length xs < nnodes s"
proof
  assume inv: "sl_inv s xs"
  then have "sorted_wrt (\<lambda>x y. nkey s x < nkey s y) xs" by (simp add: sl_inv_def)
  then have d: "distinct xs" by (induction xs) auto
  then show "distinct (0 # xs)" using inv by (auto simp: sl_inv_def)
  have sub: "set xs \<subseteq> {1..<nnodes s}" using inv by (auto simp: sl_inv_def Suc_le_eq)
  have "length xs \<le> nnodes s - 1" using card_mono [OF _ sub] d by (simp add: distinct_card)
  moreover have "0 < nnodes s" using inv by (simp add: sl_inv_def)
  ultimately show "length xs < nnodes s" by linarith
qed

lemma below_above:
  assumes "sl_inv s xs"
  shows "xs = below s k xs @ at_least s k xs" "at_level s l xs = at_level s l (below s k xs) @ at_level s l (at_least s k xs)"
proof -
  show "xs = below s k xs @ at_least s k xs"
    unfolding below_def at_least_def using assms
    by (intro sorted_filter_split [where R = "\<lambda>x y. nkey s x < nkey s y"]) (auto simp: sl_inv_def)
  then show "at_level s l xs = at_level s l (below s k xs) @ at_level s l (at_least s k xs)"
    unfolding at_level_def by (metis filter_append)
qed

lemma level_path:
  assumes "sl_inv s xs" "l < max_height s"
  shows "path (\<lambda>n. nnext s n l) 0 (at_level s l (below s k xs) @ at_level s l (at_least s k xs))"
  unfolding below_above(2) [OF assms(1), of l k, symmetric] using assms by (simp add: sl_inv_def)

text \<open>The predecessor of a key on a level.\<close>

definition pre_of :: "skiplist \<Rightarrow> int \<Rightarrow> nat list \<Rightarrow> nat \<Rightarrow> nat" where
  "pre_of s k xs l = last (0 # at_level s l (below s k xs))"

lemma pre_of_mem: "pre_of s k xs l \<in> set (0 # at_level s l (below s k xs))"
  unfolding pre_of_def by (rule last_in_set) simp

lemma pre_of_level: "sl_inv s xs \<Longrightarrow> l < max_height s \<Longrightarrow> l < nlevel s (pre_of s k xs l)"
  using pre_of_mem [of s k xs l] by (auto simp: sl_inv_def at_level_def)

lemma pre_of_next:
  assumes "sl_inv s xs" "l < max_height s"
  shows "nnext s (pre_of s k xs l) l = (case at_level s l (at_least s k xs) of [] \<Rightarrow> None | x # _ \<Rightarrow> Some x)"
  using path_last [OF level_path [OF assms]] by (simp only: pre_of_def)

lemma walk_ok:
  assumes "path (\<lambda>n. nnext s n l) p (us @ vs)" "\<forall>x \<in> set us. nkey s x < k" "vs = [] \<or> \<not> nkey s (hd vs) < k"
    "\<forall>x \<in> set (p # us). l < nlevel s x" "length us < fuel"
  shows "walk s l k fuel p = Inr (last (p # us))"
  using assms
proof (induction us arbitrary: p fuel)
  case Nil
  then obtain fuel' where "fuel = Suc fuel'" by (cases fuel) auto
  with Nil show ?case by (cases vs) (auto simp: Next_at_def)
next
  case (Cons u us)
  then obtain fuel' where "fuel = Suc fuel'" "length us < fuel'" by (cases fuel) auto
  with Cons show ?case by (auto simp: Next_at_def)
qed

text \<open>From a node of a higher level, a walk reaches the predecessor on this level.\<close>

lemma walk_parts:
  assumes inv: "sl_inv s xs" and l: "l < max_height s"
  obtains us where "last (pre_of s k xs (Suc l) # us) = pre_of s k xs l" "length us < nnodes s" "set us \<subseteq> set xs"
    "path (\<lambda>n. nnext s n l) (pre_of s k xs (Suc l)) (us @ at_level s l (at_least s k xs))"
    "\<forall>x \<in> set us. nkey s x < k" "\<forall>x \<in> set (pre_of s k xs (Suc l) # us). l < nlevel s x"
proof -
  let ?A = "at_level s l (below s k xs)" and ?V = "at_level s l (at_least s k xs)"
  have "pre_of s k xs (Suc l) \<in> set (0 # ?A)" using pre_of_mem [of s k xs "Suc l"] by (auto simp: at_level_def)
  then obtain as us where u: "0 # ?A = as @ pre_of s k xs (Suc l) # us" by (auto simp only: in_set_conv_decomp)
  have p: "path (\<lambda>n. nnext s n l) (pre_of s k xs (Suc l)) (us @ ?V)"
    using level_path [OF inv l] u by (rule path_from)
  have sub: "set (pre_of s k xs (Suc l) # us) \<subseteq> set (0 # ?A)" unfolding u by auto
  have usA: "set us \<subseteq> set ?A" using u by (cases as) auto
  have last: "last (pre_of s k xs (Suc l) # us) = last (0 # ?A)" unfolding u by simp
  have len: "length us < nnodes s"
  proof -
    have "length us \<le> length ?A" using arg_cong [OF u, of length] by simp
    also have "\<dots> \<le> length xs" by (simp add: at_level_def below_def)
    finally show ?thesis using sl_distinct [OF inv] by simp
  qed
  show ?thesis
  proof (rule that [OF _ len _ p])
    show "last (pre_of s k xs (Suc l) # us) = pre_of s k xs l" using last by (simp add: pre_of_def)
    show "set us \<subseteq> set xs" using usA by (auto simp: at_level_def below_def)
    show "\<forall>x \<in> set us. nkey s x < k" using usA by (auto simp: at_level_def below_def)
    show "\<forall>x \<in> set (pre_of s k xs (Suc l) # us). l < nlevel s x"
      using sub inv l by (auto simp: at_level_def sl_inv_def)
  qed
qed

lemma at_least_stops: "at_level s l (at_least s k xs) = [] \<or>
  (hd (at_level s l (at_least s k xs)) \<in> set xs \<and> \<not> nkey s (hd (at_level s l (at_least s k xs))) < k)"
  using hd_in_set [of "at_level s l (at_least s k xs)"] by (auto simp: at_level_def at_least_def)

lemma walk_pre_of:
  assumes inv: "sl_inv s xs" and l: "l < max_height s"
  shows "walk s l k (nnodes s) (pre_of s k xs (Suc l)) = Inr (pre_of s k xs l)"
proof -
  obtain us where u: "last (pre_of s k xs (Suc l) # us) = pre_of s k xs l" "length us < nnodes s" "set us \<subseteq> set xs"
    "path (\<lambda>n. nnext s n l) (pre_of s k xs (Suc l)) (us @ at_level s l (at_least s k xs))"
    "\<forall>x \<in> set us. nkey s x < k" "\<forall>x \<in> set (pre_of s k xs (Suc l) # us). l < nlevel s x"
    by (rule walk_parts [OF assms])
  show ?thesis using walk_ok [OF u(4,5) _ u(6,2)] at_least_stops [of s l k xs] unfolding u(1) by blast
qed

text \<open>The level of the node with a key, or 0.\<close>

definition level_of :: "skiplist \<Rightarrow> int \<Rightarrow> nat list \<Rightarrow> nat" where
  "level_of s k xs = (case filter (\<lambda>x. nkey s x = k) xs of [] \<Rightarrow> 0 | x # _ \<Rightarrow> nlevel s x)"

lemma sl_key_unique:
  "sl_inv s xs \<Longrightarrow> x \<in> set xs \<Longrightarrow> y \<in> set xs \<Longrightarrow> nkey s x = nkey s y \<Longrightarrow> x = y"
proof -
  assume "sl_inv s xs" and xy: "x \<in> set xs" "y \<in> set xs" "nkey s x = nkey s y"
  then have "sorted_wrt (\<lambda>x y. nkey s x < nkey s y) xs" by (simp add: sl_inv_def)
  then show "x = y" using xy by (induction xs) auto
qed

lemma level_of_node:
  assumes "sl_inv s xs" "x \<in> set xs" "nkey s x = k"
  shows "level_of s k xs = nlevel s x"
proof (cases "filter (\<lambda>x. nkey s x = k) xs")
  case Nil
  then show ?thesis using assms by (auto simp: filter_empty_conv)
next
  case (Cons y ys)
  then have "y \<in> set (filter (\<lambda>x. nkey s x = k) xs)" by simp
  then have "y \<in> set xs" "nkey s y = k" by simp_all
  then have "y = x" using sl_key_unique [OF assms(1)] assms by auto
  then show ?thesis using Cons by (simp add: level_of_def)
qed

lemma level_of_zero:
  assumes "sl_inv s xs"
  shows "level_of s k xs = 0 \<longleftrightarrow> k \<notin> nkey s ` set xs"
proof (cases "k \<in> nkey s ` set xs")
  case True
  then obtain x where "x \<in> set xs" "nkey s x = k" by blast
  then show ?thesis using level_of_node [OF assms] True assms by (auto simp: sl_inv_def)
next
  case False
  then have "filter (\<lambda>x. nkey s x = k) xs = []" by (auto simp: filter_empty_conv)
  then show ?thesis using False by (simp add: level_of_def)
qed

text \<open>The node after the predecessor has the key iff its node reaches this level.\<close>

lemma at_least_hd:
  assumes inv: "sl_inv s xs" and l: "l < max_height s"
  shows "(case at_level s l (at_least s k xs) of [] \<Rightarrow> False | x # _ \<Rightarrow> nkey s x = k) \<longleftrightarrow> l < level_of s k xs"
proof (cases "\<exists>x \<in> set xs. nkey s x = k \<and> l < nlevel s x")
  case True
  then obtain x where x: "x \<in> set xs" "nkey s x = k" "l < nlevel s x" by blast
  let ?V = "at_level s l (at_least s k xs)"
  have xV: "x \<in> set ?V" using x by (simp add: at_level_def at_least_def)
  have "sorted_wrt (\<lambda>x y. nkey s x < nkey s y) ?V"
    using inv by (simp add: at_level_def at_least_def sl_inv_def sorted_wrt_filter)
  moreover have "\<forall>y \<in> set ?V. k \<le> nkey s y" by (auto simp: at_level_def at_least_def)
  ultimately have "case ?V of [] \<Rightarrow> False | x # _ \<Rightarrow> nkey s x = k"
    using xV x(2) by (cases ?V) force+
  then show ?thesis using level_of_node [OF inv x(1,2)] x(3) by simp
next
  case False
  have "\<not> l < level_of s k xs"
  proof
    assume "l < level_of s k xs"
    then obtain x where "x \<in> set xs" "nkey s x = k" using level_of_zero [OF inv, of k] by auto
    then show False using level_of_node [OF inv] False \<open>l < level_of s k xs\<close> by auto
  qed
  moreover have "\<forall>x \<in> set (at_level s l (at_least s k xs)). nkey s x \<noteq> k"
    using False by (auto simp: at_level_def at_least_def)
  ultimately show ?thesis by (auto split: list.splits)
qed

lemma find_levels_ok:
  assumes inv: "sl_inv s xs" and "L \<le> max_height s"
  shows "find_levels s k L (pre_of s k xs L) pre level =
    Inr (\<lambda>l. if l < L then pre_of s k xs l else pre l, if level = 0 then min L (level_of s k xs) else level)"
  using assms(2)
proof (induction L arbitrary: pre level)
  case (Suc l)
  then have l: "l < max_height s" by simp
  let ?V = "at_level s l (at_least s k xs)"
  let ?lv = "case nnext s (pre_of s k xs l) l of None \<Rightarrow> level | Some q \<Rightarrow> if nkey s q = k \<and> level = 0 then Suc l else level"
  have lv: "?lv = (if level = 0 \<and> l < level_of s k xs then Suc l else level)"
    using at_least_hd [OF inv l, of k] pre_of_next [OF inv l, of k] by (auto split: list.splits)
  have "find_levels s k (Suc l) (pre_of s k xs (Suc l)) pre level =
      find_levels s k l (pre_of s k xs l) (pre(l := pre_of s k xs l)) ?lv"
    using walk_pre_of [OF inv l, of k] pre_of_level [OF inv l, of k] by (simp add: Next_at_def Let_def)
  also have "\<dots> = Inr (\<lambda>l'. if l' < l then pre_of s k xs l' else (pre(l := pre_of s k xs l)) l',
      if ?lv = 0 then min l (level_of s k xs) else ?lv)"
    using l by (intro Suc.IH) simp
  also have "\<dots> = Inr (\<lambda>l'. if l' < Suc l then pre_of s k xs l' else pre l',
      if level = 0 then min (Suc l) (level_of s k xs) else level)"
    unfolding lv by (auto simp: fun_eq_iff less_Suc_eq)
  finally show ?case .
qed simp

lemma pre_of_top: "sl_inv s xs \<Longrightarrow> pre_of s k xs (max_height s) = 0"
proof -
  assume "sl_inv s xs"
  then have "at_level s (max_height s) (below s k xs) = []"
    by (fastforce simp: at_level_def below_def sl_inv_def filter_empty_conv)
  then show ?thesis by (simp add: pre_of_def)
qed

lemma level_of_le: "sl_inv s xs \<Longrightarrow> level_of s k xs \<le> max_height s"
  using level_of_zero [of s xs k] level_of_node [of s xs _ k] by (fastforce simp: sl_inv_def)

lemma FindPre_ok:
  assumes inv: "sl_inv s xs"
  obtains pre where "FindPre s k = Inr (pre, level_of s k xs)" "\<forall>l < max_height s. pre l = pre_of s k xs l"
proof -
  have "FindPre s k = Inr (\<lambda>l. if l < max_height s then pre_of s k xs l else 0, level_of s k xs)"
    using find_levels_ok [OF inv order.refl, of k "\<lambda>_. 0" 0] pre_of_top [OF inv, of k] level_of_le [OF inv, of k]
    by (simp add: FindPre_def min_absorb2)
  then show ?thesis by (rule that) simp
qed

lemma Contains_ok:
  assumes "sl_inv s xs"
  shows "sl_Contains k s = Inr (k \<in> nkey s ` set xs)"
proof -
  obtain pre where "FindPre s k = Inr (pre, level_of s k xs)" "\<forall>l < max_height s. pre l = pre_of s k xs l"
    by (rule FindPre_ok [OF assms])
  then show ?thesis using level_of_zero [OF assms, of k] by (auto simp: sl_Contains_def)
qed

section \<open>Insertion and removal\<close>

lemma random_level_bounds: "lv \<le> maxh \<Longrightarrow> lv \<le> random_level maxh rand lv \<and> random_level maxh rand lv \<le> maxh"
proof (induction maxh rand lv rule: random_level.induct)
  case (1 maxh rand lv)
  then show ?case by (subst (1 2) random_level.simps) fastforce
qed

lemma link_effect:
  assumes "\<forall>l < L. l < nlevel s n \<and> l < nlevel s (pre l) \<and> pre l \<noteq> n"
  shows "link n pre L s = Inr (s\<lparr> nnext := (\<lambda>m l. if l < L \<and> m = n then nnext s (pre l) l
      else if l < L \<and> m = pre l then Some n else nnext s m l) \<rparr>)"
  using assms
proof (induction L arbitrary: s)
  case (Suc l)
  define s2 where "s2 = s\<lparr> nnext := (nnext s)(n := (nnext s n)(l := nnext s (pre l) l), pre l := (nnext s (pre l))(l := Some n)) \<rparr>"
  have "link n pre (Suc l) s = link n pre l s2"
    using Suc.prems by (simp add: Next_at_def SetNext_def s2_def)
  also have "\<dots> = Inr (s2\<lparr> nnext := (\<lambda>m l'. if l' < l \<and> m = n then nnext s2 (pre l') l'
      else if l' < l \<and> m = pre l' then Some n else nnext s2 m l') \<rparr>)"
    using Suc.prems by (intro Suc.IH) (simp add: s2_def)
  also have "\<dots> = Inr (s\<lparr> nnext := (\<lambda>m l'. if l' < Suc l \<and> m = n then nnext s (pre l') l'
      else if l' < Suc l \<and> m = pre l' then Some n else nnext s m l') \<rparr>)"
    using Suc.prems by (auto simp: s2_def less_Suc_eq fun_eq_iff)
  finally show ?case .
qed simp

lemma inserted_inv:
  assumes inv: "sl_inv s xs" and k: "k \<notin> nkey s ` set xs" and lv: "0 < lv" "lv \<le> max_height s"
    and n: "n = nnodes s" and pre: "\<forall>l < max_height s. pre l = pre_of s k xs l"
    and s': "s' = s\<lparr> nkey := (nkey s)(n := k), nlevel := (nlevel s)(n := lv), nnodes := Suc n,
      nnext := (\<lambda>m l. if l < lv \<and> m = n then nnext s (pre l) l
        else if l < lv \<and> m = pre l then Some n else nnext s m l) \<rparr>"
  shows "sl_inv s' (below s k xs @ n # at_least s k xs)"
proof -
  let ?xs = "below s k xs @ n # at_least s k xs"
  have nx: "n \<notin> set xs" "n \<noteq> 0" using inv by (auto simp: sl_inv_def n)
  have sub: "set (below s k xs) \<subseteq> set xs" "set (at_least s k xs) \<subseteq> set xs"
    by (auto simp: below_def at_least_def)
  have key: "x \<in> set xs \<Longrightarrow> nkey s' x = nkey s x \<and> nlevel s' x = nlevel s x" for x
    using nx by (auto simp: s')
  have "sorted_wrt (\<lambda>x y. nkey s' x < nkey s' y) (below s k xs @ at_least s k xs)"
    using inv key unfolding below_above(1) [OF inv, of k, symmetric]
    by (auto simp: sl_inv_def intro: sorted_wrt_mono_rel [rotated])
  moreover have "\<forall>x \<in> set (below s k xs). nkey s' x < k" "\<forall>x \<in> set (at_least s k xs). k < nkey s' x"
    using k key by (auto simp: below_def at_least_def not_less less_le)
  ultimately have "sorted_wrt (\<lambda>x y. nkey s' x < nkey s' y) ?xs"
    by (auto simp: sorted_wrt_append s')
  moreover have "path (\<lambda>m. nnext s' m l) 0 (at_level s' l ?xs)" if l: "l < max_height s" for l
  proof -
    let ?A = "at_level s l (below s k xs)" and ?V = "at_level s l (at_least s k xs)"
    have "at_level s' l ys = at_level s l ys" if "set ys \<subseteq> set xs" for ys
      using that key by (auto simp: at_level_def subset_iff intro!: filter_cong)
    moreover have "nlevel s' n = lv" by (simp add: s')
    ultimately have lev: "at_level s' l ?xs = ?A @ (if l < lv then [n] else []) @ ?V"
      using sub by (simp add: at_level_def)
    note p = level_path [OF inv l, of k]
    show ?thesis
    proof (cases "l < lv")
      case True
      have d: "distinct (0 # ?A @ ?V)"
        using sl_distinct [OF inv] below_above(2) [OF inv, of l k, symmetric] by (simp add: at_level_def)
      have "n \<notin> set (0 # ?A @ ?V)" using nx sub by (auto simp: at_level_def)
      from path_insert [OF p this d refl]
      have "path ((\<lambda>m. nnext s m l)(n := nnext s (pre l) l, pre l := Some n)) 0 (?A @ n # ?V)"
        using pre l by (simp add: pre_of_def)
      moreover have "(\<lambda>m. nnext s m l)(n := nnext s (pre l) l, pre l := Some n) = (\<lambda>m. nnext s' m l)"
        using True pre l pre_of_mem [of s k xs l] nx sub by (auto simp: s' fun_eq_iff at_level_def)
      ultimately show ?thesis using True lev by simp
    next
      case False
      then show ?thesis using p lev by (simp add: s')
    qed
  qed
  moreover have "\<forall>x \<in> set ?xs. 0 < x \<and> x < nnodes s' \<and> 0 < nlevel s' x \<and> nlevel s' x \<le> max_height s'"
    using inv sub lv nx key by (fastforce simp: sl_inv_def s' n)
  ultimately show ?thesis using inv nx by (simp add: sl_inv_def) (simp add: s')
qed

lemma Insert_refines:
  assumes inv: "sl_inv s xs"
  shows "\<exists>s' xs'. sl_Insert rand k s = Inr s' \<and> sl_inv s' xs' \<and> nkey s' ` set xs' = insert k (nkey s ` set xs)"
proof -
  obtain pre where pre: "FindPre s k = Inr (pre, level_of s k xs)" "\<forall>l < max_height s. pre l = pre_of s k xs l"
    by (rule FindPre_ok [OF inv])
  show ?thesis
  proof (cases "k \<in> nkey s ` set xs")
    case True
    then show ?thesis using pre(1) level_of_zero [OF inv, of k] inv
      by (intro exI [of _ s] exI [of _ xs]) (auto simp: sl_Insert_def)
  next
    case False
    let ?lv = "RandomLevel s rand" and ?n = "nnodes s"
    have lv: "0 < ?lv" "?lv \<le> max_height s"
      using random_level_bounds [of 1 "max_height s" rand] inv by (auto simp: RandomLevel_def sl_inv_def)
    let ?s = "s\<lparr> nkey := (nkey s)(?n := k), nlevel := (nlevel s)(?n := ?lv), nnodes := Suc ?n \<rparr>"
    let ?s' = "s\<lparr> nkey := (nkey s)(?n := k), nlevel := (nlevel s)(?n := ?lv), nnodes := Suc ?n,
      nnext := (\<lambda>m l. if l < ?lv \<and> m = ?n then nnext s (pre l) l
        else if l < ?lv \<and> m = pre l then Some ?n else nnext s m l) \<rparr>"
    let ?xs = "below s k xs @ ?n # at_least s k xs"
    have "pre l \<noteq> ?n \<and> l < nlevel s (pre l)" if "l < ?lv" for l
      using that lv pre(2) pre_of_mem [of s k xs l] pre_of_level [OF inv, of l k] inv
      by (fastforce simp: at_level_def below_def sl_inv_def)
    then have "link ?n pre ?lv ?s = Inr ?s'"
      using link_effect [of ?lv ?s ?n pre] by (simp add: fun_eq_iff)
    then have "sl_Insert rand k s = Inr ?s'"
      using pre(1) False level_of_zero [OF inv, of k] by (simp add: sl_Insert_def NewNode_def Let_def)
    moreover have "sl_inv ?s' ?xs" by (rule inserted_inv [OF inv False lv refl pre(2) refl])
    moreover have "nkey ?s' ` set ?xs = insert k (nkey s ` set xs)"
    proof -
      have "?n \<notin> set xs" using inv by (auto simp: sl_inv_def)
      moreover have "set ?xs = insert ?n (set xs)" using below_above(1) [OF inv, of k]
        by (metis Un_insert_right list.simps(15) set_append)
      ultimately show ?thesis by auto
    qed
    ultimately show ?thesis by blast
  qed
qed

lemma unlink_effect:
  assumes "\<forall>l < L. l < nlevel s (pre l) \<and> nnext s (pre l) l = Some x \<and> l < nlevel s x \<and> pre l \<noteq> x"
  shows "unlink pre L s = Inr (s\<lparr> nnext := (\<lambda>m l. if l < L \<and> m = pre l then nnext s x l else nnext s m l) \<rparr>)"
  using assms
proof (induction L arbitrary: s)
  case (Suc l)
  define s1 where "s1 = s\<lparr> nnext := (nnext s)(pre l := (nnext s (pre l))(l := nnext s x l)) \<rparr>"
  have "unlink pre (Suc l) s = unlink pre l s1"
    using Suc.prems by (simp add: Next_at_def SetNext_def s1_def)
  also have "\<dots> = Inr (s1\<lparr> nnext := (\<lambda>m l'. if l' < l \<and> m = pre l' then nnext s1 x l' else nnext s1 m l') \<rparr>)"
  proof (rule Suc.IH)
    have "nnext s (pre l) l' = Some x" if "l' < l" "pre l' = pre l" for l'
      using Suc.prems that by (metis less_SucI)
    then show "\<forall>l' < l. l' < nlevel s1 (pre l') \<and> nnext s1 (pre l') l' = Some x \<and> l' < nlevel s1 x \<and> pre l' \<noteq> x"
      using Suc.prems by (simp add: s1_def)
  qed
  also have "\<dots> = Inr (s\<lparr> nnext := (\<lambda>m l'. if l' < Suc l \<and> m = pre l' then nnext s x l' else nnext s m l') \<rparr>)"
    using Suc.prems by (auto simp: s1_def less_Suc_eq fun_eq_iff)
  finally show ?case .
qed simp

lemma at_least_node:
  assumes inv: "sl_inv s xs" and x: "x \<in> set xs" "nkey s x = k"
  obtains rest where "at_least s k xs = x # rest"
proof (cases "at_least s k xs")
  case Nil
  then show ?thesis using x by (auto simp: at_least_def filter_empty_conv)
next
  case (Cons y ys)
  have "sorted_wrt (\<lambda>x y. nkey s x < nkey s y) (y # ys)"
    unfolding Cons [symmetric] using inv by (simp add: at_least_def sl_inv_def sorted_wrt_filter)
  moreover have "x \<in> set (y # ys)" "\<not> nkey s y < k"
    unfolding Cons [symmetric] using x Cons list.set_intros(1) [of y ys]
    by (auto simp: at_least_def simp flip: Cons)
  ultimately have "y = x" using x(2) by auto
  then show ?thesis using Cons that by blast
qed

lemma removed_inv:
  assumes inv: "sl_inv s xs" and x: "x \<in> set xs" "nkey s x = k" and rest: "at_least s k xs = x # rest"
    and pre: "\<forall>l < max_height s. pre l = pre_of s k xs l"
    and s': "s' = s\<lparr> nnext := (\<lambda>m l. if l < nlevel s x \<and> m = pre l then nnext s x l else nnext s m l) \<rparr>"
  shows "sl_inv s' (below s k xs @ rest)"
proof -
  let ?xs = "below s k xs @ rest"
  have xs: "xs = below s k xs @ x # rest" using below_above(1) [OF inv, of k] rest by simp
  have "sorted_wrt (\<lambda>x y. nkey s x < nkey s y) (below s k xs @ x # rest)"
    using inv xs by (simp add: sl_inv_def)
  then have "sorted_wrt (\<lambda>x y. nkey s' x < nkey s' y) ?xs" by (auto simp: sorted_wrt_append s')
  moreover have "path (\<lambda>m. nnext s' m l) 0 (at_level s' l ?xs)" if l: "l < max_height s" for l
  proof -
    let ?A = "at_level s l (below s k xs)" and ?V = "at_level s l rest"
    have lev: "at_level s' l ?xs = ?A @ ?V" by (simp add: at_level_def s')
    have p: "path (\<lambda>n. nnext s n l) 0 (?A @ at_level s l (x # rest))"
      using level_path [OF inv l, of k] rest by simp
    show ?thesis
    proof (cases "l < nlevel s x")
      case True
      then have p: "path (\<lambda>n. nnext s n l) 0 (?A @ x # ?V)" using p by (simp add: at_level_def)
      have "distinct (0 # ?A @ x # ?V)"
      proof -
        have "distinct (0 # filter (\<lambda>x. l < nlevel s x) (below s k xs @ x # rest))"
          using sl_distinct [OF inv] xs by (metis distinct.simps(2) distinct_filter filter_is_subset subsetD)
        then show ?thesis using True by (simp add: at_level_def)
      qed
      from path_delete [OF p this refl]
      have "path ((\<lambda>m. nnext s m l)(pre l := nnext s x l)) 0 (?A @ ?V)"
        using pre l by (simp add: pre_of_def)
      moreover have "(\<lambda>m. nnext s m l)(pre l := nnext s x l) = (\<lambda>m. nnext s' m l)"
        using True by (auto simp: s' fun_eq_iff)
      ultimately show ?thesis using lev by simp
    next
      case False
      then show ?thesis using p lev by (simp add: s' at_level_def)
    qed
  qed
  moreover have "set ?xs \<subseteq> set xs" by (subst (2) xs) auto
  ultimately show ?thesis using inv by (auto simp: sl_inv_def s' subset_iff)
qed

lemma Remove_refines:
  assumes inv: "sl_inv s xs"
  shows "\<exists>s' xs'. sl_Remove k s = Inr s' \<and> sl_inv s' xs' \<and> nkey s' ` set xs' = nkey s ` set xs - {k}"
proof -
  obtain pre where pre: "FindPre s k = Inr (pre, level_of s k xs)" "\<forall>l < max_height s. pre l = pre_of s k xs l"
    by (rule FindPre_ok [OF inv])
  show ?thesis
  proof (cases "k \<in> nkey s ` set xs")
    case False
    then show ?thesis using pre(1) level_of_zero [OF inv, of k] inv
      by (intro exI [of _ s] exI [of _ xs]) (auto simp: sl_Remove_def)
  next
    case True
    then obtain x where x: "x \<in> set xs" "nkey s x = k" by blast
    obtain rest where rest: "at_least s k xs = x # rest" by (rule at_least_node [OF inv x])
    have xs: "xs = below s k xs @ x # rest" using below_above(1) [OF inv, of k] rest by simp
    have lv: "level_of s k xs = nlevel s x" "0 < nlevel s x" "nlevel s x \<le> max_height s"
      using level_of_node [OF inv x] inv x(1) by (auto simp: sl_inv_def)
    have "x \<noteq> 0" using sl_distinct [OF inv] x(1) by (metis distinct.simps(2))
    then have xb: "x \<notin> set (0 # below s k xs)" using x(2) by (simp add: below_def)
    have "l < nlevel s (pre l) \<and> nnext s (pre l) l = Some x \<and> pre l \<noteq> x" if "l < nlevel s x" for l
      using that lv pre(2) pre_of_mem [of s k xs l] pre_of_level [OF inv, of l k] pre_of_next [OF inv, of l k] rest xb
      by (auto simp: at_level_def)
    then have u: "unlink pre (nlevel s x) s = Inr (s\<lparr> nnext := (\<lambda>m l. if l < nlevel s x \<and> m = pre l then nnext s x l else nnext s m l) \<rparr>)"
      by (intro unlink_effect) simp
    let ?s = "s\<lparr> nnext := (\<lambda>m l. if l < nlevel s x \<and> m = pre l then nnext s x l else nnext s m l) \<rparr>"
    have "sl_Remove k s = Inr ?s" using pre(1) lv u by (simp add: sl_Remove_def)
    moreover have "sl_inv ?s (below s k xs @ rest)" by (rule removed_inv [OF inv x rest pre(2) refl])
    moreover have "nkey ?s ` set (below s k xs @ rest) = nkey s ` set xs - {k}"
    proof -
      have "sorted_wrt (\<lambda>x y. nkey s x < nkey s y) (below s k xs @ x # rest)"
        using inv xs by (simp add: sl_inv_def)
      then have "k \<notin> nkey s ` set (below s k xs @ rest)" using x(2) by (auto simp: sorted_wrt_append)
      moreover have "set xs = insert x (set (below s k xs @ rest))" by (subst xs) auto
      ultimately show ?thesis using x(2) by auto
    qed
    ultimately show ?thesis by blast
  qed
qed

section \<open>Iterators\<close>

lemma descend_walk:
  assumes "path (\<lambda>n. nnext s n l) p (us @ vs)" "\<forall>x \<in> set us. P x" "vs = [] \<or> \<not> P (hd vs)"
    "\<forall>x \<in> set (p # us). l < nlevel s x" "length us < fuel"
  shows "descend s P fuel l p =
    (if l = 0 then Inr (last (p # us)) else descend s P (nnodes s) (l - 1) (last (p # us)))"
  using assms
proof (induction us arbitrary: p fuel)
  case Nil
  then obtain fuel' where "fuel = Suc fuel'" by (cases fuel) auto
  with Nil show ?case by (subst descend.simps) (cases vs; simp add: Next_at_def)
next
  case (Cons u us)
  then obtain fuel' where f: "fuel = Suc fuel'" "length us < fuel'" by (cases fuel) auto
  have "descend s P fuel l p = descend s P fuel' l u"
    using Cons.prems f by (subst descend.simps) (simp add: Next_at_def)
  then show ?case using Cons.IH [of u fuel'] Cons.prems f by simp
qed

lemma descend_ok:
  assumes inv: "sl_inv s xs" and P: "\<forall>x \<in> set xs. P x = (nkey s x < k)" and "l < max_height s"
  shows "descend s P (nnodes s) l (pre_of s k xs (Suc l)) = Inr (pre_of s k xs 0)"
  using assms(3)
proof (induction l)
  case (Suc l)
  obtain us where u: "last (pre_of s k xs (Suc (Suc l)) # us) = pre_of s k xs (Suc l)" "length us < nnodes s" "set us \<subseteq> set xs"
    "path (\<lambda>n. nnext s n (Suc l)) (pre_of s k xs (Suc (Suc l))) (us @ at_level s (Suc l) (at_least s k xs))"
    "\<forall>x \<in> set us. nkey s x < k" "\<forall>x \<in> set (pre_of s k xs (Suc (Suc l)) # us). Suc l < nlevel s x"
    by (rule walk_parts [OF inv Suc.prems])
  have "\<forall>x \<in> set us. P x" using u(3,5) P by auto
  from descend_walk [OF u(4) this _ u(6,2)] at_least_stops [of s "Suc l" k xs] P show ?case
    unfolding u(1) using Suc by auto
next
  case 0
  obtain us where u: "last (pre_of s k xs (Suc 0) # us) = pre_of s k xs 0" "length us < nnodes s" "set us \<subseteq> set xs"
    "path (\<lambda>n. nnext s n 0) (pre_of s k xs (Suc 0)) (us @ at_level s 0 (at_least s k xs))"
    "\<forall>x \<in> set us. nkey s x < k" "\<forall>x \<in> set (pre_of s k xs (Suc 0) # us). 0 < nlevel s x"
    by (rule walk_parts [OF inv 0])
  have "\<forall>x \<in> set us. P x" using u(3,5) P by auto
  from descend_walk [OF u(4) this _ u(6,2)] at_least_stops [of s 0 k xs] P show ?case
    unfolding u(1) by auto
qed

lemma descend_from_head:
  assumes inv: "sl_inv s xs" and P: "\<forall>x \<in> set xs. P x = (nkey s x < k)"
  shows "descend s P (nnodes s) (max_height s - 1) 0 = Inr (pre_of s k xs 0)"
proof -
  have "at_level s (max_height s) (below s k xs) = []"
    using inv by (auto simp: at_level_def below_def sl_inv_def filter_empty_conv)
  then have "pre_of s k xs (max_height s) = 0" by (simp add: pre_of_def)
  then show ?thesis using descend_ok [OF inv P, of "max_height s - 1"] inv by (simp add: sl_inv_def)
qed

lemma level_0 [simp]: "sl_inv s xs \<Longrightarrow> set ys \<subseteq> set xs \<Longrightarrow> at_level s 0 ys = ys"
  by (auto simp: at_level_def sl_inv_def filter_id_conv)

lemma pre_of_0: "sl_inv s xs \<Longrightarrow> pre_of s k xs 0 = last (0 # below s k xs)"
  by (simp add: pre_of_def level_0 [of s xs] below_def)

lemma next_of_0:
  assumes inv: "sl_inv s xs"
  shows "Next_at s (pre_of s k xs 0) 0 = Inr (case at_least s k xs of [] \<Rightarrow> None | x # _ \<Rightarrow> Some x)"
proof -
  have "at_level s 0 (at_least s k xs) = at_least s k xs"
    using inv by (rule level_0) (auto simp: at_least_def)
  then show ?thesis
    using pre_of_next [OF inv, of 0 k] pre_of_level [OF inv, of 0 k] inv by (simp add: Next_at_def sl_inv_def)
qed

lemma FindLessThan_ok: "sl_inv s xs \<Longrightarrow> FindLessThan s k = Inr (pre_of s k xs 0)"
  unfolding FindLessThan_def by (rule descend_from_head) simp_all

lemma FindGreaterOrEqual_ok:
  assumes "sl_inv s xs"
  shows "FindGreaterOrEqual s k = Inr (case at_least s k xs of [] \<Rightarrow> None | x # _ \<Rightarrow> Some x)"
  using FindLessThan_ok [OF assms, of k] next_of_0 [OF assms, of k]
  unfolding FindLessThan_def FindGreaterOrEqual_def by simp

section \<open>The set of keys\<close>

text \<open>The least and the greatest element of a finite set, if it has one.\<close>

definition least_of :: "int set \<Rightarrow> int option" where
  "least_of S = (if S = {} then None else Some (Min S))"

definition greatest_of :: "int set \<Rightarrow> int option" where
  "greatest_of S = (if S = {} then None else Some (Max S))"

lemma sorted_least:
  "sorted_wrt (\<lambda>x y. f x < f y) ys \<Longrightarrow> least_of (f ` set ys) = map_option f (case ys of [] \<Rightarrow> None | x # _ \<Rightarrow> Some x)"
  by (cases ys) (auto simp: least_of_def intro!: Min_eqI)

lemma sorted_greatest:
  "sorted_wrt (\<lambda>x y. f x < f y) ys \<Longrightarrow> greatest_of (f ` set ys) = map_option f (if ys = [] then None else Some (last ys))"
  by (cases ys rule: rev_cases) (auto simp: greatest_of_def sorted_wrt_append intro!: Max_eqI)

lemma below_keys: "nkey s ` set (below s k xs) = {j \<in> nkey s ` set xs. j < k}"
  and at_least_keys: "nkey s ` set (at_least s k xs) = {j \<in> nkey s ` set xs. k \<le> j}"
  by (auto simp: below_def at_least_def)

lemma Seek_key:
  assumes inv: "sl_inv s xs"
  shows "\<exists>m. Iter_Seek s t = Inr m \<and> set_option m \<subseteq> set xs
    \<and> map_option (nkey s) m = least_of {j \<in> nkey s ` set xs. t \<le> j}"
proof -
  let ?m = "case at_least s t xs of [] \<Rightarrow> None | x # _ \<Rightarrow> Some x"
  have "sorted_wrt (\<lambda>x y. nkey s x < nkey s y) (at_least s t xs)"
    using inv by (simp add: at_least_def sl_inv_def sorted_wrt_filter)
  then have "map_option (nkey s) ?m = least_of {j \<in> nkey s ` set xs. t \<le> j}"
    unfolding at_least_keys [symmetric] by (rule sorted_least [symmetric])
  moreover have "Iter_Seek s t = Inr ?m"
    unfolding Iter_Seek_def by (rule FindGreaterOrEqual_ok [OF inv])
  moreover have "set_option ?m \<subseteq> set xs"
  proof -
    have "set (at_least s t xs) \<subseteq> set xs" by (auto simp: at_least_def)
    then show ?thesis by (cases "at_least s t xs") auto
  qed
  ultimately show ?thesis by blast
qed

lemma below_last_key:
  assumes inv: "sl_inv s xs"
  shows "map_option (nkey s) (if pre_of s k xs 0 = 0 then None else Some (pre_of s k xs 0)) =
    greatest_of {j \<in> nkey s ` set xs. j < k}"
proof -
  have "sorted_wrt (\<lambda>x y. nkey s x < nkey s y) (below s k xs)"
    using inv by (simp add: below_def sl_inv_def sorted_wrt_filter)
  then have g: "greatest_of {j \<in> nkey s ` set xs. j < k} =
      map_option (nkey s) (if below s k xs = [] then None else Some (last (below s k xs)))"
    unfolding below_keys [symmetric] by (rule sorted_greatest)
  show ?thesis
  proof (cases "below s k xs = []")
    case False
    then have "last (below s k xs) \<in> set xs" using last_in_set [OF False] by (simp add: below_def)
    then have "last (below s k xs) \<noteq> 0" using inv by (auto simp: sl_inv_def)
    then show ?thesis using False g pre_of_0 [OF inv, of k] by simp
  next
    case True
    then show ?thesis using g pre_of_0 [OF inv, of k] by simp
  qed
qed

lemma Prev_key:
  assumes "sl_inv s xs"
  shows "\<exists>m. Iter_Prev s (Some n) = Inr m \<and> map_option (nkey s) m = greatest_of {j \<in> nkey s ` set xs. j < nkey s n}"
  using below_last_key [OF assms, of "nkey s n"]
  by (simp add: Iter_Prev_def FindLessThan_ok [OF assms])

lemma SeekToLast_key:
  assumes "sl_inv s xs"
  shows "\<exists>m. Iter_SeekToLast s = Inr m \<and> map_option (nkey s) m = greatest_of (nkey s ` set xs)"
proof -
  define k where "k = Max (insert 0 (nkey s ` set xs)) + 1"
  have k: "nkey s x < k" if "x \<in> set xs" for x
    using that Max_ge [of "insert 0 (nkey s ` set xs)" "nkey s x"] by (simp add: k_def)
  then have "{j \<in> nkey s ` set xs. j < k} = nkey s ` set xs" by auto
  then show ?thesis
    using below_last_key [OF assms, of k] descend_from_head [OF assms, of "\<lambda>_. True" k] k
    by (simp add: Iter_SeekToLast_def FindLast_def)
qed

lemma SeekToFirst_key:
  assumes inv: "sl_inv s xs"
  shows "\<exists>m. Iter_SeekToFirst s = Inr m \<and> map_option (nkey s) m = least_of (nkey s ` set xs)"
proof -
  have p: "path (\<lambda>n. nnext s n 0) 0 xs" using inv level_0 [OF inv subset_refl] by (auto simp: sl_inv_def)
  have "Iter_SeekToFirst s = Inr (case xs of [] \<Rightarrow> None | x # _ \<Rightarrow> Some x)"
    using p inv by (cases xs) (auto simp: Iter_SeekToFirst_def Next_at_def sl_inv_def)
  moreover have "sorted_wrt (\<lambda>x y. nkey s x < nkey s y) xs" using inv by (simp add: sl_inv_def)
  ultimately show ?thesis by (simp add: sorted_least)
qed

text \<open>The node after the node of a key is the first at least the next key.\<close>

lemma Next_key:
  assumes inv: "sl_inv s xs" and n: "n \<in> set xs"
  shows "\<exists>m. Iter_Next s (Some n) = Inr m \<and> map_option (nkey s) m = least_of {j \<in> nkey s ` set xs. nkey s n < j}"
proof -
  let ?k = "nkey s n + 1"
  have "n \<in> set (below s ?k xs)" using n by (simp add: below_def)
  moreover have "sorted_wrt (\<lambda>x y. nkey s x < nkey s y) (below s ?k xs)"
    using inv by (simp add: below_def sl_inv_def sorted_wrt_filter)
  moreover have "\<forall>x \<in> set (below s ?k xs). nkey s x \<le> nkey s n" by (auto simp: below_def)
  ultimately have "last (below s ?k xs) = n"
    by (cases "below s ?k xs" rule: rev_cases) (auto simp: sorted_wrt_append)
  then have "pre_of s ?k xs 0 = n" using pre_of_0 [OF inv, of ?k] \<open>n \<in> set (below s ?k xs)\<close> by auto
  then have "Iter_Next s (Some n) = Inr (case at_least s ?k xs of [] \<Rightarrow> None | x # _ \<Rightarrow> Some x)"
    using next_of_0 [OF inv, of ?k] by (simp add: Iter_Next_def)
  moreover have "sorted_wrt (\<lambda>x y. nkey s x < nkey s y) (at_least s ?k xs)"
    using inv by (simp add: at_least_def sl_inv_def sorted_wrt_filter)
  then have "map_option (nkey s) (case at_least s ?k xs of [] \<Rightarrow> None | x # _ \<Rightarrow> Some x) = least_of {j \<in> nkey s ` set xs. ?k \<le> j}"
    unfolding at_least_keys [symmetric] by (rule sorted_least [symmetric])
  ultimately show ?thesis by (simp add: add1_zle_eq)
qed

lemma display_from_ok:
  "path (\<lambda>n. nnext s n 0) p xs \<Longrightarrow> \<forall>x \<in> set (p # xs). 0 < nlevel s x \<Longrightarrow> length xs \<le> fuel \<Longrightarrow>
   res_bind (Next_at s p 0) (display_from s fuel) = Inr (map (\<lambda>x. (nkey s x, nlevel s x)) xs)"
proof (induction xs arbitrary: p fuel)
  case (Cons x xs)
  then obtain fuel' where "fuel = Suc fuel'" "length xs \<le> fuel'" by (cases fuel) auto
  then show ?case using Cons.prems Cons.IH [of x fuel'] by (cases "Next_at s x 0") (auto simp: Next_at_def split: if_splits)
qed (simp add: Next_at_def)

lemma Display_ok:
  assumes inv: "sl_inv s xs"
  shows "Display s = Inr (map (\<lambda>x. (nkey s x, nlevel s x)) xs)"
proof -
  have "path (\<lambda>n. nnext s n 0) 0 xs" using inv level_0 [OF inv subset_refl] by (auto simp: sl_inv_def)
  then show ?thesis
    unfolding Display_def using inv sl_distinct [OF inv] by (intro display_from_ok) (auto simp: sl_inv_def)
qed

section \<open>The list as a set\<close>

datatype sl_op = Ins "nat \<Rightarrow> nat" int | Rem int

fun sl_exec :: "sl_op list \<Rightarrow> skiplist \<Rightarrow> skiplist res" where
  "sl_exec [] s = Inr s"
| "sl_exec (Ins rand k # ops) s = res_bind (sl_Insert rand k s) (sl_exec ops)"
| "sl_exec (Rem k # ops) s = res_bind (sl_Remove k s) (sl_exec ops)"

fun sl_set :: "sl_op list \<Rightarrow> int set \<Rightarrow> int set" where
  "sl_set [] S = S"
| "sl_set (Ins rand k # ops) S = sl_set ops (insert k S)"
| "sl_set (Rem k # ops) S = sl_set ops (S - {k})"

lemma SkipList_inv: "0 < maxh \<Longrightarrow> sl_inv (SkipList maxh) []"
  by (simp add: sl_inv_def SkipList_def at_level_def)

lemma link_max_height: "link n pre L s = Inr s' \<Longrightarrow> max_height s' = max_height s"
  by (induction L arbitrary: s) (auto simp: Next_at_def SetNext_def split: if_splits)

lemma unlink_max_height: "unlink pre L s = Inr s' \<Longrightarrow> max_height s' = max_height s"
  by (induction L arbitrary: s) (auto simp: Next_at_def SetNext_def split: if_splits option.splits)

lemma Insert_max_height: "sl_Insert rand k s = Inr s' \<Longrightarrow> max_height s' = max_height s"
  by (cases "FindPre s k") (auto simp: sl_Insert_def NewNode_def Let_def split: if_splits dest!: link_max_height)

lemma Remove_max_height: "sl_Remove k s = Inr s' \<Longrightarrow> max_height s' = max_height s"
  by (cases "FindPre s k") (auto simp: sl_Remove_def split: if_splits dest: unlink_max_height)

lemma sl_exec_refines:
  "sl_inv s xs \<Longrightarrow> \<exists>s' xs'. sl_exec ops s = Inr s' \<and> sl_inv s' xs' \<and> max_height s' = max_height s
     \<and> nkey s' ` set xs' = sl_set ops (nkey s ` set xs)"
proof (induction ops arbitrary: s xs)
  case (Cons op ops)
  show ?case
  proof (cases op)
    case (Ins rand k)
    obtain s1 xs1 where "sl_Insert rand k s = Inr s1" "sl_inv s1 xs1" "nkey s1 ` set xs1 = insert k (nkey s ` set xs)"
      using Insert_refines [OF Cons.prems, of rand k] by blast
    then show ?thesis using Cons.IH [of s1 xs1] Ins Insert_max_height [of rand k s s1] by simp
  next
    case (Rem k)
    obtain s1 xs1 where "sl_Remove k s = Inr s1" "sl_inv s1 xs1" "nkey s1 ` set xs1 = nkey s ` set xs - {k}"
      using Remove_refines [OF Cons.prems, of k] by blast
    then show ?thesis using Cons.IH [of s1 xs1] Rem Remove_max_height [of k s s1] by simp
  qed
qed (intro exI conjI; simp)

lemma sl_exec_new:
  assumes "0 < maxh"
  obtains s xs where "sl_exec ops (SkipList maxh) = Inr s" "sl_inv s xs" "max_height s = maxh"
    "nkey s ` set xs = sl_set ops {}"
  using sl_exec_refines [OF SkipList_inv [OF assms], of ops] by (auto simp: SkipList_def)

text \<open>
  C15.  Whatever keys are inserted and removed, and whatever levels the nodes draw, a new skip
  list never dereferences a null pointer, never uses a pointer a node does not have and never
  loops, and behaves as a set: \<open>Display\<close> prints the keys in ascending order, each once, with
  levels between 1 and \<open>max_height_\<close>, and \<open>Contains\<close> answers membership.
\<close>

theorem skiplist_refines_set:
  assumes "0 < maxh"
  shows "\<exists>s out. sl_exec ops (SkipList maxh) = Inr s \<and> Display s = Inr out
    \<and> map fst out = sorted_list_of_set (sl_set ops {}) \<and> list_all (\<lambda>l. 1 \<le> l \<and> l \<le> maxh) (map snd out)
    \<and> (\<forall>k. sl_Contains k s = Inr (k \<in> sl_set ops {}))"
proof -
  obtain s xs where s: "sl_exec ops (SkipList maxh) = Inr s" "sl_inv s xs" "max_height s = maxh"
      "nkey s ` set xs = sl_set ops {}"
    by (rule sl_exec_new [OF assms])
  have "sorted_wrt (<) (map (nkey s) xs)" using s(2) by (simp add: sl_inv_def sorted_wrt_map)
  then have "map (nkey s) xs = sorted_list_of_set (set (map (nkey s) xs))"
    by (intro sorted_list_of_set.idem_if_sorted_distinct [symmetric]) (simp_all only: strict_sorted_iff)
  then have keys: "map (nkey s) xs = sorted_list_of_set (sl_set ops {})" using s(4) by simp
  have "list_all (\<lambda>l. 1 \<le> l \<and> l \<le> maxh) (map (nlevel s) xs)"
    using s(2,3) by (auto simp: list_all_iff sl_inv_def Suc_le_eq)
  then show ?thesis
    using s(1) Display_ok [OF s(2)] Contains_ok [OF s(2)] keys s(4)
    by (intro exI [of _ s] exI [of _ "map (\<lambda>x. (nkey s x, nlevel s x)) xs"]) (simp add: comp_def)
qed

theorem skiplist_refines_set_witness:
  "\<exists>s out. sl_exec [Ins (\<lambda>n. n) 5, Ins (\<lambda>_. 1) 2, Ins (\<lambda>_. 0) 9, Rem 5] (SkipList 3) = Inr s \<and> Display s = Inr out
    \<and> map fst out = [2, 9]"
  using skiplist_refines_set [of 3 "[Ins (\<lambda>n. n) 5, Ins (\<lambda>_. 1) 2, Ins (\<lambda>_. 0) 9, Rem 5]"]
  by (auto simp: insert_Diff_if)

text \<open>
  C16.  The iterators of a skip list: \<open>SeekToFirst\<close> and \<open>SeekToLast\<close> stop at the least and the
  greatest key, \<open>Seek\<close> at the least key not below its target, and from the node it found
  \<open>Next\<close> and \<open>Prev\<close> go to the next greater and the next smaller key; an iterator is not valid
  exactly where there is no such key.
\<close>

theorem skiplist_iterators:
  assumes "0 < maxh" "S = sl_set ops {}"
  shows "\<exists>s. sl_exec ops (SkipList maxh) = Inr s
    \<and> (\<exists>m. Iter_SeekToFirst s = Inr m \<and> map_option (nkey s) m = least_of S)
    \<and> (\<exists>m. Iter_SeekToLast s = Inr m \<and> map_option (nkey s) m = greatest_of S)
    \<and> (\<forall>t. \<exists>m. Iter_Seek s t = Inr m \<and> map_option (nkey s) m = least_of {k \<in> S. t \<le> k})
    \<and> (\<forall>t n. Iter_Seek s t = Inr (Some n) \<longrightarrow>
         (\<exists>m. Iter_Next s (Some n) = Inr m \<and> map_option (nkey s) m = least_of {k \<in> S. nkey s n < k}) \<and>
         (\<exists>m. Iter_Prev s (Some n) = Inr m \<and> map_option (nkey s) m = greatest_of {k \<in> S. k < nkey s n}))"
proof -
  obtain s xs where s: "sl_exec ops (SkipList maxh) = Inr s" "sl_inv s xs" "max_height s = maxh"
      "nkey s ` set xs = sl_set ops {}"
    by (rule sl_exec_new [OF assms(1)])
  have S: "nkey s ` set xs = S" using s(4) assms(2) by simp
  have seek: "\<exists>m. Iter_Seek s t = Inr m \<and> set_option m \<subseteq> set xs \<and> map_option (nkey s) m = least_of {k \<in> S. t \<le> k}" for t
    using Seek_key [OF s(2), of t] unfolding S .
  have "n \<in> set xs" if "Iter_Seek s t = Inr (Some n)" for t n using seek [of t] that by auto
  moreover note SeekToFirst_key [OF s(2), unfolded S] SeekToLast_key [OF s(2), unfolded S]
    Next_key [OF s(2), unfolded S] Prev_key [OF s(2), unfolded S]
  ultimately show ?thesis using s(1) seek by blast
qed

theorem skiplist_iterators_witness:
  "\<exists>s. sl_exec [Ins (\<lambda>n. n) 5, Ins (\<lambda>_. 1) 2] (SkipList 3) = Inr s
    \<and> (\<exists>m. Iter_SeekToLast s = Inr m \<and> map_option (nkey s) m = Some 5)
    \<and> (\<exists>m. Iter_Seek s 3 = Inr m \<and> map_option (nkey s) m = least_of {k \<in> {2, 5}. 3 \<le> k})"
  using skiplist_iterators [of 3 "{2, 5}" "[Ins (\<lambda>n. n) 5, Ins (\<lambda>_. 1) 2]"]
  by (auto simp: greatest_of_def)

end
